(* ===== verification/Prelude.thy ===== *)
theory Prelude
  imports Main "HOL-Library.Word" "HOL-Library.AList" "HOL-Library.Multiset"
    "HOL-Library.Char_ord" "HOL-Library.List_Lexorder" "HOL-Library.Sublist"
begin

section \<open>Prelude: bytes, errors, effects and the JavaScript containers\<close>

text \<open>
  What every component shares.
  \<^item> Bytes are 8-bit words and a \<open>Uint8Array\<close> is a list of them.
  \<^item> A \<open>throw\<close> is the \<open>Inl\<close> of a sum. A function that only computes returns
    \<open>error + 'a\<close>; a function that mutates an object and may throw half way returns the
    object as it is left behind together with the outcome (\<open>'s \<times> (error + 'a)\<close>).
  \<^item> A JavaScript \<open>Map\<close> keeps insertion order: it is an association list, \<open>set\<close> is
    \<open>AList.update\<close> (in place, or at the end), \<open>delete\<close> is \<open>AList.delete\<close>.
    A \<open>Set\<close> is a distinct list to which \<open>set_add\<close> appends.
  \<^item> A string is its sequence of UTF-8 bytes as HOL characters, so \<open>TextEncoder\<close> is a map.
\<close>

named_theorems effect_simps \<open>unfolding rules of the sequencing operators\<close>
named_theorems throws_intros \<open>which errors a computation can throw\<close>
named_theorems length_simps \<open>lengths of byte strings\<close>

type_synonym byte = "8 word"
type_synonym bytes = "8 word list"

text \<open>The exception classes of the client, each with its message; \<open>KdfError\<close> is the plain \<open>Error\<close>
  of \<open>kdf.ts\<close>, \<open>TransportError\<close> the one of \<open>socket.ts\<close>.\<close>

datatype error =
    KdfError string
  | RatchetError string
  | EnvelopeError string
  | X3DHError string
  | SessionError string
  | SerializationError string
  | ContentError string
  | GroupError string
  | VaultError string
  | VaultLockedError
  | ChatClientError string
  | ApiError nat string
  | NetworkError string
  | TransportError string
  | StorageError
  | SyntaxError
  | SodiumError
  | InvalidCharacterError
  | RangeError
  | TypeError

type_synonym 'a result = "error + 'a"
type_synonym ('s, 'a) effect = "'s \<Rightarrow> 's \<times> 'a result"

abbreviation isr :: "'a + 'b \<Rightarrow> bool" where
  "isr r \<equiv> \<not> isl r"

subsection \<open>Sequencing\<close>

definition rbind :: "'a result \<Rightarrow> ('a \<Rightarrow> 'b result) \<Rightarrow> 'b result" where
  "rbind m f = (case m of Inl e \<Rightarrow> Inl e | Inr x \<Rightarrow> f x)"

definition require :: "bool \<Rightarrow> error \<Rightarrow> unit result" where
  "require ok e = (if ok then Inr () else Inl e)"

definition of_option :: "error \<Rightarrow> 'a option \<Rightarrow> 'a result" where
  "of_option e x = (case x of None \<Rightarrow> Inl e | Some v \<Rightarrow> Inr v)"

definition sreturn :: "'a \<Rightarrow> ('s, 'a) effect" where
  "sreturn x = (\<lambda>s. (s, Inr x))"

definition sthrow :: "error \<Rightarrow> ('s, 'a) effect" where
  "sthrow e = (\<lambda>s. (s, Inl e))"

definition sbind :: "('s, 'a) effect \<Rightarrow> ('a \<Rightarrow> ('s, 'b) effect) \<Rightarrow> ('s, 'b) effect" where
  "sbind m f = (\<lambda>s. case m s of (t, Inl e) \<Rightarrow> (t, Inl e) | (t, Inr x) \<Rightarrow> f x t)"

definition slift :: "'a result \<Rightarrow> ('s, 'a) effect" where
  "slift r = (\<lambda>s. (s, r))"

definition sget :: "('s \<Rightarrow> 'a) \<Rightarrow> ('s, 'a) effect" where
  "sget f = (\<lambda>s. (s, Inr (f s)))"

definition smodify :: "('s \<Rightarrow> 's) \<Rightarrow> ('s, unit) effect" where
  "smodify f = (\<lambda>s. (f s, Inr ()))"

lemma rbind_simps [simp, effect_simps]:
  "rbind (Inl e) f = Inl e" "rbind (Inr x) f = f x"
  by (simp_all add: rbind_def)

lemma rbind_eq_Inr [effect_simps]:
  "rbind m f = Inr y \<longleftrightarrow> (\<exists>x. m = Inr x \<and> f x = Inr y)"
  by (cases m) auto

lemma rbind_eq_Inl: "rbind m f = Inl e \<longleftrightarrow> m = Inl e \<or> (\<exists>x. m = Inr x \<and> f x = Inl e)"
  by (cases m) auto

lemma rbind_cong [fundef_cong]:
  "m = m' \<Longrightarrow> (\<And>x. m' = Inr x \<Longrightarrow> f x = f' x) \<Longrightarrow> rbind m f = rbind m' f'"
  by (cases m') auto

lemma require_eq_Inr [simp, effect_simps]: "require ok e = Inr u \<longleftrightarrow> ok"
  by (simp add: require_def)

lemma require_eq_Inl [simp, effect_simps]: "require ok e = Inl e' \<longleftrightarrow> \<not> ok \<and> e' = e"
  by (auto simp: require_def)

lemma require_simps [simp, effect_simps]:
  "require True e = Inr ()" "require False e = Inl e"
  by (simp_all add: require_def)

lemma of_option_simps [simp, effect_simps]:
  "of_option e None = Inl e" "of_option e (Some x) = Inr x"
  by (simp_all add: of_option_def)

lemma of_option_eq_Inr [effect_simps]: "of_option e x = Inr y \<longleftrightarrow> x = Some y"
  by (cases x) auto

lemma sreturn_apply [simp, effect_simps]: "sreturn x s = (s, Inr x)"
  by (simp add: sreturn_def)

lemma sthrow_apply [simp, effect_simps]: "sthrow e s = (s, Inl e)"
  by (simp add: sthrow_def)

lemma slift_apply [simp, effect_simps]: "slift r s = (s, r)"
  by (simp add: slift_def)

lemma sget_apply [simp, effect_simps]: "sget f s = (s, Inr (f s))"
  by (simp add: sget_def)

lemma smodify_apply [simp, effect_simps]: "smodify f s = (f s, Inr ())"
  by (simp add: smodify_def)

lemma sbind_Inr [effect_simps]: "m s = (t, Inr x) \<Longrightarrow> sbind m f s = f x t"
  by (simp add: sbind_def)

lemma sbind_Inl [effect_simps]: "m s = (t, Inl e) \<Longrightarrow> sbind m f s = (t, Inl e)"
  by (simp add: sbind_def)

lemma sbind_split:
  "sbind m f s = (case m s of (t, r) \<Rightarrow> (case r of Inl e \<Rightarrow> (t, Inl e) | Inr x \<Rightarrow> f x t))"
  by (simp add: sbind_def split: prod.split sum.split)

lemma sbind_eq_Inr:
  "sbind m f s = (t, Inr y) \<longleftrightarrow> (\<exists>u x. m s = (u, Inr x) \<and> f x u = (t, Inr y))"
  by (auto simp: sbind_def split: prod.splits sum.splits)

text \<open>\<open>try ... catch\<close> and \<open>try ... finally\<close>.\<close>

definition scatch :: "('s, 'a) effect \<Rightarrow> (error \<Rightarrow> ('s, 'a) effect) \<Rightarrow> ('s, 'a) effect" where
  "scatch m h = (\<lambda>s. case m s of (t, Inl e) \<Rightarrow> h e t | (t, Inr x) \<Rightarrow> (t, Inr x))"

definition sfinally :: "('s, 'a) effect \<Rightarrow> ('s, unit) effect \<Rightarrow> ('s, 'a) effect" where
  "sfinally m f = (\<lambda>s. case m s of (t, r) \<Rightarrow> (case f t of (u, Inl e) \<Rightarrow> (u, Inl e) | (u, Inr _) \<Rightarrow> (u, r)))"

lemma scatch_Inr: "m s = (t, Inr x) \<Longrightarrow> scatch m h s = (t, Inr x)"
  by (simp add: scatch_def)

lemma scatch_Inl: "m s = (t, Inl e) \<Longrightarrow> scatch m h s = h e t"
  by (simp add: scatch_def)

lemma sfinally_ok: "m s = (t, r) \<Longrightarrow> f t = (u, Inr ()) \<Longrightarrow> sfinally m f s = (u, r)"
  by (simp add: sfinally_def)

text \<open>The class of errors a computation can end with.\<close>

definition throws_only :: "(error \<Rightarrow> bool) \<Rightarrow> ('s, 'a) effect \<Rightarrow> bool" where
  "throws_only P m \<longleftrightarrow> (\<forall>s t e. m s = (t, Inl e) \<longrightarrow> P e)"

lemma throws_sbind [throws_intros]:
  "throws_only P m \<Longrightarrow> (\<And>x. throws_only P (f x)) \<Longrightarrow> throws_only P (sbind m f)"
  by (fastforce simp: throws_only_def sbind_def split: prod.splits sum.splits)

lemma throws_pure [throws_intros]:
  "throws_only P (sreturn x)" "throws_only P (sget f)" "throws_only P (smodify g)"
  by (simp_all add: throws_only_def)

lemma throws_require [throws_intros]: "P e \<Longrightarrow> throws_only P (slift (require b e))"
  by (auto simp: throws_only_def require_def)

lemma throws_if [throws_intros]:
  "throws_only P m \<Longrightarrow> throws_only P m' \<Longrightarrow> throws_only P (if b then m else m')"
  by simp

lemma throws_onlyD: "throws_only P m \<Longrightarrow> snd (m s) = Inl e \<Longrightarrow> P e"
  by (cases "m s") (auto simp: throws_only_def)

subsection \<open>Text and big-endian numbers\<close>

definition utf8_encode :: "string \<Rightarrow> bytes" where
  "utf8_encode s = map (\<lambda>c. of_nat (of_char c)) s"

definition utf8_decode :: "bytes \<Rightarrow> string" where
  "utf8_decode bs = map (\<lambda>b. char_of (unat b)) bs"

text \<open>\<open>DataView.setUint32(_, n, false)\<close>: the value modulo \<open>2 ^ 32\<close>, most significant byte first.\<close>

definition u32be :: "nat \<Rightarrow> bytes" where
  "u32be n = [of_nat (n div 2 ^ 24), of_nat (n div 2 ^ 16), of_nat (n div 2 ^ 8), of_nat n]"

text \<open>\<open>DataView.getUint32(_, false)\<close> on the four bytes it reads.\<close>

definition u32_of :: "byte \<Rightarrow> byte \<Rightarrow> byte \<Rightarrow> byte \<Rightarrow> nat" where
  "u32_of a b c d = unat a * 2 ^ 24 + unat b * 2 ^ 16 + unat c * 2 ^ 8 + unat d"

lemma unat_of_nat_byte [simp]: "unat (of_nat n :: byte) = n mod 256"
  by (simp add: unat_of_nat)

lemma unat_byte_less: "unat (b :: byte) < 256"
  using unsigned_less [where 'a = nat, of b] by simp

lemma length_u32be [simp, length_simps]: "length (u32be n) = 4"
  by (simp add: u32be_def)

lemma utf8_decode_encode [simp]: "utf8_decode (utf8_encode s) = s"
  by (simp add: utf8_decode_def utf8_encode_def comp_def map_idI)

lemma length_utf8_encode [simp, length_simps]: "length (utf8_encode s) = length s"
  by (simp add: utf8_encode_def)

lemma utf8_encode_append: "utf8_encode (s @ t) = utf8_encode s @ utf8_encode t"
  by (simp add: utf8_encode_def)

lemma inj_utf8_encode: "utf8_encode s = utf8_encode t \<longleftrightarrow> s = t"
  by (metis utf8_decode_encode)

lemma unat_byte_mod [simp]: "unat (b :: byte) mod 256 = unat b"
  using unat_byte_less [of b] by simp

lemma utf8_encode_decode [simp]: "utf8_encode (utf8_decode bs) = bs"
  by (simp add: utf8_decode_def utf8_encode_def comp_def map_idI)

lemma mod_digit: "n mod (256 * k) = n div 256 mod k * 256 + n mod (256 :: nat)"
  by (simp add: mod_mult2_eq)

lemma u32_of_bytes [simp]:
  "u32_of (of_nat (n div 2 ^ 24)) (of_nat (n div 2 ^ 16)) (of_nat (n div 2 ^ 8)) (of_nat n)
   = n mod 2 ^ 32"
proof -
  have "n mod 2 ^ 32 = n div 256 mod (256 * 2 ^ 16) * 256 + n mod 256"
    using mod_digit [of n "256 * 2 ^ 16"] by simp
  also have "n div 256 mod (256 * 2 ^ 16) = n div 2 ^ 16 mod (256 * 256) * 256 + n div 256 mod 256"
    using mod_digit [of "n div 256" "2 ^ 16"] by (simp add: div_mult2_eq [symmetric])
  also have "n div 2 ^ 16 mod (256 * 256) = n div 2 ^ 24 mod 256 * 256 + n div 2 ^ 16 mod 256"
    using mod_digit [of "n div 2 ^ 16" 256] by (simp add: div_mult2_eq [symmetric])
  finally show ?thesis by (simp add: u32_of_def)
qed

lemma u32_of_less: "u32_of a b c d < 2 ^ 32"
proof -
  have "unat a \<le> 255" "unat b \<le> 255" "unat c \<le> 255" "unat d \<le> 255"
    using unat_byte_less [of a] unat_byte_less [of b] unat_byte_less [of c] unat_byte_less [of d]
    by linarith+
  then show ?thesis unfolding u32_of_def by simp
qed

lemma digit_split:
  fixes d :: nat
  assumes "d < 256"
  shows "(k * 256 + d) div 256 = k" "(k * 256 + d) mod 256 = d"
  using assms by simp_all

lemma u32be_u32_of: "u32be (u32_of a b c d) = [a, b, c, d]"
proof -
  let ?n = "u32_of a b c d"
  note less = unat_byte_less [of a] unat_byte_less [of b] unat_byte_less [of c] unat_byte_less [of d]
  have n: "?n = ((unat a * 256 + unat b) * 256 + unat c) * 256 + unat d"
    by (simp add: u32_of_def)
  have 1: "?n div 2 ^ 8 = (unat a * 256 + unat b) * 256 + unat c" "?n mod 256 = unat d"
    using digit_split [OF less(4), of "(unat a * 256 + unat b) * 256 + unat c"] n by simp_all
  have 2: "?n div 2 ^ 16 = unat a * 256 + unat b" "?n div 2 ^ 8 mod 256 = unat c"
    using digit_split [OF less(3), of "unat a * 256 + unat b"] 1(1)
      div_mult2_eq [of ?n "2 ^ 8" "2 ^ 8"] by simp_all
  have 3: "?n div 2 ^ 24 = unat a" "?n div 2 ^ 16 mod 256 = unat b"
    using less(2) digit_split [OF less(2), of "unat a"] 2(1)
      div_mult2_eq [of ?n "2 ^ 16" "2 ^ 8"] by simp_all
  have 4: "unat a mod 256 = unat a" using less by simp
  show ?thesis
    using 1(2) 2(2) 3 4 by (simp add: u32be_def word_unat_eq_iff)
qed

lemma u32be_eq_iff:
  assumes "m < 2 ^ 32" "n < 2 ^ 32"
  shows "u32be m = u32be n \<longleftrightarrow> m = n"
proof
  assume "u32be m = u32be n"
  then have "u32_of (u32be m ! 0) (u32be m ! 1) (u32be m ! 2) (u32be m ! 3)
           = u32_of (u32be n ! 0) (u32be n ! 1) (u32be n ! 2) (u32be n ! 3)" by (rule arg_cong)
  then have "m mod 2 ^ 32 = n mod 2 ^ 32"
    using u32_of_bytes [of m] u32_of_bytes [of n] by (simp only: u32be_def nth_Cons_0 nth_Cons_Suc One_nat_def numeral_2_eq_2 numeral_3_eq_3)
  then show "m = n" using assms by simp
qed simp

subsection \<open>Decimal numerals, as a template literal prints them\<close>

definition digit_char :: "nat \<Rightarrow> char" where
  "digit_char d = char_of (48 + d)"

fun show_nat :: "nat \<Rightarrow> string" where
  "show_nat n = (if n < 10 then [digit_char n] else show_nat (n div 10) @ [digit_char (n mod 10)])"

declare show_nat.simps [simp del]

definition read_digits :: "string \<Rightarrow> nat" where
  "read_digits s = foldl (\<lambda>acc c. acc * 10 + (of_char c - 48)) 0 s"

definition is_digit :: "char \<Rightarrow> bool" where
  "is_digit c \<longleftrightarrow> 48 \<le> (of_char c :: nat) \<and> (of_char c :: nat) \<le> 57"

lemma of_char_digit [simp]: "d < 10 \<Longrightarrow> of_char (digit_char d) = 48 + d"
  by (simp add: digit_char_def)

lemma read_show_nat [simp]: "read_digits (show_nat n) = n"
proof (induction n rule: show_nat.induct)
  case (1 n)
  then show ?case
    by (cases "n < 10") (simp_all add: show_nat.simps [of n] read_digits_def)
qed

lemma show_nat_digits: "c \<in> set (show_nat n) \<Longrightarrow> is_digit c"
proof (induction n rule: show_nat.induct)
  case (1 n)
  then show ?case
    by (cases "n < 10") (auto simp: show_nat.simps [of n] is_digit_def)
qed

lemma show_nat_nonempty [simp]: "show_nat n \<noteq> []"
  by (subst show_nat.simps) simp

subsection \<open>Interfaces\<close>

text \<open>
  A codec: every value in its domain survives encoding and decoding. Injectivity of the
  encoder is what makes an encoded value usable as a key or as authenticated data.
\<close>

locale codec =
  fixes enc :: "'a \<Rightarrow> 'b"
    and dec :: "'b \<Rightarrow> 'a option"
    and dom_ok :: "'a \<Rightarrow> bool"
  assumes dec_enc: "dom_ok x \<Longrightarrow> dec (enc x) = Some x"
begin

lemma enc_inject: "dom_ok x \<Longrightarrow> dom_ok y \<Longrightarrow> enc x = enc y \<longleftrightarrow> x = y"
  by (metis dec_enc option.inject)

lemma inj_on_enc: "inj_on enc {x. dom_ok x}"
  by (rule inj_onI) (simp add: enc_inject)

lemma map_enc_inject:
  assumes "list_all dom_ok xs" "list_all dom_ok ys"
  shows "map enc xs = map enc ys \<longleftrightarrow> xs = ys"
  using assms
proof (induction xs arbitrary: ys)
  case (Cons x xs)
  then show ?case by (cases ys) (auto simp: enc_inject)
qed auto

end

text \<open>
  A keyed store: what a lookup returns after an update or a deletion. The clients are the
  skipped-key cache, the member table, the prekey pool and the records of the chat store.
\<close>

locale keyed_store =
  fixes invar :: "'s \<Rightarrow> bool"
    and get :: "'s \<Rightarrow> 'k \<Rightarrow> 'v option"
    and upd :: "'k \<Rightarrow> 'v \<Rightarrow> 's \<Rightarrow> 's"
    and del :: "'k \<Rightarrow> 's \<Rightarrow> 's"
  assumes get_upd: "invar s \<Longrightarrow> get (upd k v s) = (get s)(k \<mapsto> v)"
    and get_del: "invar s \<Longrightarrow> get (del k s) = (get s)(k := None)"
    and invar_upd: "invar s \<Longrightarrow> invar (upd k v s)"
    and invar_del: "invar s \<Longrightarrow> invar (del k s)"
begin

lemma get_upd_same: "invar s \<Longrightarrow> get (upd k v s) k = Some v"
  by (simp add: get_upd)

lemma get_upd_other: "invar s \<Longrightarrow> k' \<noteq> k \<Longrightarrow> get (upd k v s) k' = get s k'"
  by (simp add: get_upd)

lemma get_del_same: "invar s \<Longrightarrow> get (del k s) k = None"
  by (simp add: get_del)

lemma invar_fold_upd: "invar s \<Longrightarrow> invar (fold (\<lambda>(k, v). upd k v) kvs s)"
  by (induction kvs arbitrary: s) (auto simp: invar_upd)

lemma get_fold_upd:
  "invar s \<Longrightarrow> get (fold (\<lambda>(k, v). upd k v) kvs s) = get s ++ map_of (rev kvs)"
  by (induction kvs arbitrary: s) (auto simp: invar_upd get_upd)

lemma upd_commute_get:
  "invar s \<Longrightarrow> k \<noteq> k' \<Longrightarrow> get (upd k v (upd k' v' s)) = get (upd k' v' (upd k v s))"
  by (simp add: get_upd invar_upd fun_upd_twist)

end

subsection \<open>JavaScript maps and sets\<close>

lemma distinct_map_filter: "distinct (map f xs) \<Longrightarrow> distinct (map f (filter P xs))"
  by (induction xs) auto

abbreviation distinct_keys :: "('k \<times> 'v) list \<Rightarrow> bool" where
  "distinct_keys m \<equiv> distinct (map fst m)"

interpretation jsmap: keyed_store distinct_keys map_of AList.update AList.delete
  by unfold_locales (auto simp: update_conv' delete_conv' distinct_update distinct_delete)

text \<open>\<open>Set.add\<close> keeps the first position; \<open>new Set(xs)\<close> keeps first occurrences.\<close>

definition set_add :: "'a \<Rightarrow> 'a list \<Rightarrow> 'a list" where
  "set_add x xs = (if x \<in> set xs then xs else xs @ [x])"

definition set_from :: "'a list \<Rightarrow> 'a list" where
  "set_from xs = foldl (\<lambda>acc x. set_add x acc) [] xs"

lemma set_set_add [simp]: "set (set_add x xs) = insert x (set xs)"
  by (auto simp: set_add_def)

lemma distinct_set_add [simp]: "distinct (set_add x xs) = distinct xs"
  by (simp add: set_add_def)

lemma set_foldl_set_add: "set (foldl (\<lambda>acc x. set_add x acc) acc xs) = set acc \<union> set xs"
  by (induction xs arbitrary: acc) auto

lemma distinct_foldl_set_add: "distinct acc \<Longrightarrow> distinct (foldl (\<lambda>acc x. set_add x acc) acc xs)"
  by (induction xs arbitrary: acc) auto

lemma set_set_from [simp]: "set (set_from xs) = set xs"
  by (simp add: set_from_def set_foldl_set_add)

lemma distinct_set_from [simp]: "distinct (set_from xs)"
  by (simp add: set_from_def distinct_foldl_set_add)

lemma length_set_from: "length (set_from xs) = card (set xs)"
  by (metis distinct_card distinct_set_from set_set_from)

interpretation utf8: codec utf8_encode "\<lambda>b. Some (utf8_decode b)" "\<lambda>_. True"
  by unfold_locales simp

interpretation decimal: codec show_nat "\<lambda>s. Some (read_digits s)" "\<lambda>_. True"
  by unfold_locales simp

end
