(* ===== verification/Sodium.thy ===== *)
theory Sodium
  imports Prelude
begin

section \<open>The libsodium boundary\<close>

text \<open>
  \<open>libsodium-wrappers-sumo\<close> is not part of the repository, so its functions are a parameter:
  every definition that calls them takes a \<open>sodium\<close> record. A call that throws (a key of the
  wrong size, a weak public key, a tag that does not verify) is \<open>None\<close>. What the client relies
  on is stated as named predicates on the record, each a documented law of one primitive; no
  secrecy assumption is made anywhere. Freshly generated keypairs are explicit arguments of the
  operations that draw them. \<open>memzero\<close> overwrites buffers that are dead afterwards and has no
  counterpart at the level of values.
\<close>

text \<open>\<open>identity.ts\<close>: a libsodium keypair.\<close>

record KeyPair =
  publicKey :: bytes
  privateKey :: bytes
  keyType :: string

record sodium =
  hmacsha256 :: "bytes \<Rightarrow> bytes \<Rightarrow> bytes option"
    \<comment> \<open>\<open>crypto_auth_hmacsha256(message, key)\<close>\<close>
  hash_sha256 :: "bytes \<Rightarrow> bytes"
    \<comment> \<open>\<open>crypto_hash_sha256(message)\<close>\<close>
  scalarmult :: "bytes \<Rightarrow> bytes \<Rightarrow> bytes option"
    \<comment> \<open>\<open>crypto_scalarmult(privateKey, publicKey)\<close>\<close>
  kx_public :: "bytes \<Rightarrow> bytes"
    \<comment> \<open>the public half \<open>crypto_kx_keypair()\<close> returns with a private one\<close>
  aead_encrypt :: "bytes \<Rightarrow> bytes \<Rightarrow> bytes \<Rightarrow> bytes \<Rightarrow> bytes option"
    \<comment> \<open>\<open>..._ietf_encrypt(message, ad, null, nonce, key)\<close>\<close>
  aead_decrypt :: "bytes \<Rightarrow> bytes \<Rightarrow> bytes \<Rightarrow> bytes \<Rightarrow> bytes option"
    \<comment> \<open>\<open>..._ietf_decrypt(null, ciphertext, ad, nonce, key)\<close>\<close>
  sign_detached :: "bytes \<Rightarrow> bytes \<Rightarrow> bytes option"
    \<comment> \<open>\<open>crypto_sign_detached(message, privateKey)\<close>\<close>
  sign_verify :: "bytes \<Rightarrow> bytes \<Rightarrow> bytes \<Rightarrow> bool option"
    \<comment> \<open>\<open>crypto_sign_verify_detached(signature, message, publicKey)\<close>\<close>
  sign_public :: "bytes \<Rightarrow> bytes"
    \<comment> \<open>the public half \<open>crypto_sign_keypair()\<close> returns with a private one\<close>

subsection \<open>The documented laws\<close>

definition hmac_law :: "sodium \<Rightarrow> bool" where
  "hmac_law S \<longleftrightarrow> (\<forall>m k. length k = 32 \<longrightarrow> (\<exists>t. hmacsha256 S m k = Some t \<and> length t = 32))"

definition sha256_law :: "sodium \<Rightarrow> bool" where
  "sha256_law S \<longleftrightarrow> (\<forall>m. length (hash_sha256 S m) = 32)"

definition dh_law :: "sodium \<Rightarrow> bool" where
  "dh_law S \<longleftrightarrow>
     (\<forall>a. length a = 32 \<longrightarrow> length (kx_public S a) = 32) \<and>
     (\<forall>a b. length a = 32 \<longrightarrow> length b = 32 \<longrightarrow>
       (\<exists>z. scalarmult S a (kx_public S b) = Some z \<and> scalarmult S b (kx_public S a) = Some z
            \<and> length z = 32))"

definition aead_law :: "sodium \<Rightarrow> bool" where
  "aead_law S \<longleftrightarrow>
     (\<forall>p ad n k. length n = 24 \<longrightarrow> length k = 32 \<longrightarrow>
       (\<exists>c. aead_encrypt S p ad n k = Some c \<and> length c = length p + 16
            \<and> aead_decrypt S c ad n k = Some p))"

definition sign_law :: "sodium \<Rightarrow> bool" where
  "sign_law S \<longleftrightarrow>
     (\<forall>m k. length k = 64 \<longrightarrow>
       length (sign_public S k) = 32 \<and>
       (\<exists>s. sign_detached S m k = Some s \<and> length s = 64
            \<and> sign_verify S s m (sign_public S k) = Some True))"

text \<open>A pair the X25519, respectively the Ed25519, generator can return.\<close>

definition kx_pair :: "sodium \<Rightarrow> KeyPair \<Rightarrow> bool" where
  "kx_pair S kp \<longleftrightarrow> length (privateKey kp) = 32 \<and> publicKey kp = kx_public S (privateKey kp)"

definition sign_pair :: "sodium \<Rightarrow> KeyPair \<Rightarrow> bool" where
  "sign_pair S kp \<longleftrightarrow> length (privateKey kp) = 64 \<and> publicKey kp = sign_public S (privateKey kp)"

lemma hmac_lawD:
  assumes "hmac_law S" "length k = 32"
  obtains t where "hmacsha256 S m k = Some t" "length t = 32"
  using assms by (auto simp: hmac_law_def)

lemma dh_lawD:
  assumes "dh_law S" "kx_pair S a" "kx_pair S b"
  obtains z where "scalarmult S (privateKey a) (publicKey b) = Some z"
    "scalarmult S (privateKey b) (publicKey a) = Some z" "length z = 32"
  using assms unfolding dh_law_def kx_pair_def by metis

lemma aead_lawD:
  assumes "aead_law S" "length n = 24" "length k = 32"
  obtains c where "aead_encrypt S p ad n k = Some c" "length c = length p + 16"
    "aead_decrypt S c ad n k = Some p"
  using assms by (meson aead_law_def)

lemma sign_lawD:
  assumes "sign_law S" "sign_pair S kp"
  obtains s where "sign_detached S m (privateKey kp) = Some s" "length s = 64"
    "sign_verify S s m (publicKey kp) = Some True" "length (publicKey kp) = 32"
  using assms by (auto simp: sign_law_def sign_pair_def)

lemma kx_pair_public_length [length_simps]:
  "dh_law S \<Longrightarrow> kx_pair S kp \<Longrightarrow> length (publicKey kp) = 32"
  by (simp add: dh_law_def kx_pair_def)

subsection \<open>The laws can hold together\<close>

text \<open>
  A model of the laws that evaluates: keyed sums stand for the hash, byte-wise addition for the
  group, a sixteen-byte tag for the authenticator. It only serves to instantiate the parameter
  at concrete inputs.
\<close>

definition sum_bytes :: "bytes \<Rightarrow> byte" where
  "sum_bytes bs = sum_list bs"

definition demo_mac :: "bytes \<Rightarrow> bytes \<Rightarrow> bytes option" where
  "demo_mac m k =
     (if length k = 32 then Some (replicate 31 (sum_bytes m + sum_bytes k) @ [sum_bytes m]) else None)"

definition demo_dh :: "bytes \<Rightarrow> bytes \<Rightarrow> bytes option" where
  "demo_dh a b = (if length a = 32 \<and> length b = 32 then Some (map2 (+) a b) else None)"

definition demo_tag :: "bytes \<Rightarrow> bytes \<Rightarrow> bytes \<Rightarrow> bytes \<Rightarrow> bytes" where
  "demo_tag p ad n k = replicate 16 (sum_bytes p + sum_bytes ad + sum_bytes n + sum_bytes k)"

definition demo_seal :: "bytes \<Rightarrow> bytes \<Rightarrow> bytes \<Rightarrow> bytes \<Rightarrow> bytes option" where
  "demo_seal p ad n k = (if length n = 24 \<and> length k = 32 then Some (p @ demo_tag p ad n k) else None)"

definition demo_open :: "bytes \<Rightarrow> bytes \<Rightarrow> bytes \<Rightarrow> bytes \<Rightarrow> bytes option" where
  "demo_open c ad n k =
     (let p = take (length c - 16) c
      in if 16 \<le> length c \<and> drop (length c - 16) c = demo_tag p ad n k then Some p else None)"

definition demo_sign :: "bytes \<Rightarrow> bytes \<Rightarrow> bytes option" where
  "demo_sign m k = (if length k = 64 then Some (take 32 k @ replicate 32 (sum_bytes m)) else None)"

definition demo_verify :: "bytes \<Rightarrow> bytes \<Rightarrow> bytes \<Rightarrow> bool option" where
  "demo_verify s m pk =
     (if length s = 64 \<and> length pk = 32 then Some (s = pk @ replicate 32 (sum_bytes m)) else None)"

definition demo_sodium :: sodium where
  "demo_sodium =
     \<lparr>hmacsha256 = demo_mac, hash_sha256 = (\<lambda>m. replicate 32 (sum_bytes m)),
      scalarmult = demo_dh, kx_public = (\<lambda>a. a), aead_encrypt = demo_seal,
      aead_decrypt = demo_open, sign_detached = demo_sign, sign_verify = demo_verify,
      sign_public = take 32\<rparr>"

lemma demo_hmac_law: "hmac_law demo_sodium"
  by (simp add: hmac_law_def demo_sodium_def demo_mac_def)

lemma demo_sha256_law: "sha256_law demo_sodium"
  by (simp add: sha256_law_def demo_sodium_def)

lemma demo_dh_law: "dh_law demo_sodium"
proof -
  have "map2 (+) a b = map2 (+) b a" if "length a = length b" for a b :: bytes
    using that by (induction a b rule: list_induct2) (auto simp: add.commute)
  then show ?thesis by (auto simp: dh_law_def demo_sodium_def demo_dh_def)
qed

lemma demo_aead_law: "aead_law demo_sodium"
  by (auto simp: aead_law_def demo_sodium_def demo_seal_def demo_open_def demo_tag_def Let_def)

lemma demo_sign_law: "sign_law demo_sodium"
  by (simp add: sign_law_def demo_sodium_def demo_sign_def demo_verify_def)

lemmas demo_laws = demo_hmac_law demo_sha256_law demo_dh_law demo_aead_law demo_sign_law

text \<open>Concrete keypairs for the model of the laws.\<close>

definition demo_pair :: "byte \<Rightarrow> KeyPair" where
  "demo_pair b = \<lparr>publicKey = replicate 32 b, privateKey = replicate 32 b, keyType = ''x25519''\<rparr>"

definition demo_sign_pair :: "byte \<Rightarrow> KeyPair" where
  "demo_sign_pair b = \<lparr>publicKey = replicate 32 b, privateKey = replicate 64 b, keyType = ''ed25519''\<rparr>"

lemma demo_kx_pair [simp]: "kx_pair demo_sodium (demo_pair b)"
  by (simp add: kx_pair_def demo_sodium_def demo_pair_def)

lemma demo_sign_pair_ok [simp]: "sign_pair demo_sodium (demo_sign_pair b)"
  by (simp add: sign_pair_def demo_sodium_def demo_sign_pair_def)

end
