(* ===== verification/Kdf.thy ===== *)
theory Kdf
  imports Sodium
begin

section \<open>HKDF-SHA256 (\<open>crypto/kdf.ts\<close>)\<close>

text \<open>
  The client composes HKDF from libsodium's HMAC because the wrapper does not export it. The
  expansion is a loop that writes one block per iteration into a preallocated buffer; it is
  modelled with its buffer and its byte counter, and shown to compute RFC 5869.
\<close>

definition HASH_LENGTH :: nat where
  "HASH_LENGTH = 32"

text \<open>\<open>Uint8Array.set(source, offset)\<close>: throws when the source does not fit.\<close>

definition u8_set :: "bytes \<Rightarrow> bytes \<Rightarrow> nat \<Rightarrow> bytes result" where
  "u8_set target source offset =
     (if offset + length source \<le> length target
      then Inr (take offset target @ source @ drop (offset + length source) target)
      else Inl RangeError)"

function hkdf_expand_loop ::
  "sodium \<Rightarrow> bytes \<Rightarrow> bytes \<Rightarrow> nat \<Rightarrow> nat \<Rightarrow> bytes \<Rightarrow> bytes \<Rightarrow> bytes result" where
  "hkdf_expand_loop S prk infoBytes i blocks previous okm =
     (if i \<le> blocks
      then rbind (of_option SodiumError (hmacsha256 S (previous @ infoBytes @ [of_nat i]) prk)) (\<lambda>block.
           rbind (u8_set okm block ((i - 1) * HASH_LENGTH)) (\<lambda>okm'.
           hkdf_expand_loop S prk infoBytes (i + 1) blocks block okm'))
      else Inr okm)"
  by pat_completeness auto
termination
  by (relation "measure (\<lambda>(S, prk, infoBytes, i, blocks, previous, okm). Suc blocks - i)") auto

declare hkdf_expand_loop.simps [simp del]

definition hkdfSha256 :: "sodium \<Rightarrow> bytes \<Rightarrow> bytes \<Rightarrow> string \<Rightarrow> nat \<Rightarrow> bytes result" where
  "hkdfSha256 S ikm salt info len =
     rbind (require (length salt = HASH_LENGTH) (KdfError ''hkdfSha256: salt must be 32 bytes'')) (\<lambda>_.
     rbind (require (1 \<le> len \<and> len \<le> 255 * HASH_LENGTH)
                    (KdfError ''hkdfSha256: length must be 1..8160'')) (\<lambda>_.
     rbind (of_option SodiumError (hmacsha256 S ikm salt)) (\<lambda>prk.
     let infoBytes = utf8_encode info;
         blocks = (len + HASH_LENGTH - 1) div HASH_LENGTH
     in rbind (hkdf_expand_loop S prk infoBytes 1 blocks [] (replicate (blocks * HASH_LENGTH) 0)) (\<lambda>okm.
        Inr (take len okm)))))"

subsection \<open>RFC 5869\<close>

text \<open>\<open>T(0)\<close> is empty, \<open>T(i) = HMAC(PRK, T(i-1) | info | i)\<close>, and the output is the first
  \<open>L\<close> octets of \<open>T(1) | T(2) | ...\<close>.\<close>

fun rfc5869_T :: "(bytes \<Rightarrow> bytes \<Rightarrow> bytes) \<Rightarrow> bytes \<Rightarrow> bytes \<Rightarrow> nat \<Rightarrow> bytes" where
  "rfc5869_T hmac prk info 0 = []"
| "rfc5869_T hmac prk info (Suc i) = hmac prk (rfc5869_T hmac prk info i @ info @ [of_nat (Suc i)])"

definition rfc5869 :: "(bytes \<Rightarrow> bytes \<Rightarrow> bytes) \<Rightarrow> bytes \<Rightarrow> bytes \<Rightarrow> bytes \<Rightarrow> nat \<Rightarrow> bytes" where
  "rfc5869 hmac salt ikm info len =
     (let prk = hmac salt ikm; n = (len + 31) div 32
      in take len (concat (map (rfc5869_T hmac prk info) [1..<Suc n])))"

definition total_hmac :: "sodium \<Rightarrow> bytes \<Rightarrow> bytes \<Rightarrow> bytes" where
  "total_hmac S k m = (case hmacsha256 S m k of None \<Rightarrow> [] | Some t \<Rightarrow> t)"

lemma total_hmac_Some:
  assumes "hmac_law S" "length k = 32"
  shows "hmacsha256 S m k = Some (total_hmac S k m)" "length (total_hmac S k m) = 32"
proof -
  obtain t where "hmacsha256 S m k = Some t" "length t = 32"
    using hmac_lawD [OF assms] .
  then show "hmacsha256 S m k = Some (total_hmac S k m)" "length (total_hmac S k m) = 32"
    by (simp_all add: total_hmac_def)
qed

lemma length_rfc5869_T:
  assumes "hmac_law S" "length prk = 32"
  shows "length (rfc5869_T (total_hmac S) prk info (Suc i)) = 32"
  using total_hmac_Some(2) [OF assms] by simp

lemma length_concat_T:
  assumes "hmac_law S" "length prk = 32"
  shows "length (concat (map (rfc5869_T (total_hmac S) prk info) [1..<Suc n])) = n * 32"
  by (induction n) (simp_all add: length_rfc5869_T [OF assms] del: rfc5869_T.simps)

lemma u8_set_next:
  assumes "length xs = off" "length b = k"
  shows "u8_set (xs @ replicate (k + r) 0) b off = Inr (xs @ b @ replicate r 0)"
  using assms by (simp add: u8_set_def)

text \<open>Invariant of the loop: the blocks written so far followed by the untouched zeroes.\<close>

lemma hkdf_expand_loop_correct:
  assumes law: "hmac_law S" and prk: "length prk = 32" and i: "i \<le> blocks"
  shows "hkdf_expand_loop S prk info (Suc i) blocks (rfc5869_T (total_hmac S) prk info i)
           (concat (map (rfc5869_T (total_hmac S) prk info) [1..<Suc i]) @ replicate ((blocks - i) * 32) 0)
         = Inr (concat (map (rfc5869_T (total_hmac S) prk info) [1..<Suc blocks]))"
  using i
proof (induction "blocks - i" arbitrary: i)
  case 0
  then show ?case by (simp add: hkdf_expand_loop.simps)
next
  case (Suc d)
  let ?T = "rfc5869_T (total_hmac S) prk info" and ?written = "concat (map (rfc5869_T (total_hmac S) prk info) [1..<Suc i])"
  have less: "Suc i \<le> blocks" using Suc.hyps(2) by simp
  have len: "length ?written = i * 32" "length (?T (Suc i)) = 32"
    using length_concat_T [OF law prk] length_rfc5869_T [OF law prk] by (simp_all del: rfc5869_T.simps)
  have mac: "hmacsha256 S (?T i @ info @ [of_nat (Suc i)]) prk = Some (?T (Suc i))"
    using total_hmac_Some(1) [OF law prk] by simp
  have rest: "(blocks - i) * 32 = 32 + (blocks - Suc i) * 32" using less by (simp add: diff_mult_distrib)
  have stored: "u8_set (?written @ replicate ((blocks - i) * 32) 0) (?T (Suc i)) (i * 32)
      = Inr (concat (map ?T [1..<Suc (Suc i)]) @ replicate ((blocks - Suc i) * 32) 0)"
    using u8_set_next [OF len(1) len(2), of "(blocks - Suc i) * 32"] unfolding rest
    by (simp del: rfc5869_T.simps)
  have "d = blocks - Suc i" using Suc.hyps(2) by simp
  from Suc.hyps(1) [OF this less] show ?case
    using less mac stored
    by (subst hkdf_expand_loop.simps) (simp add: HASH_LENGTH_def del: rfc5869_T.simps upt_Suc)
qed

lemma hkdfSha256_rfc5869:
  assumes "hmac_law S" "length salt = 32" "1 \<le> len" "len \<le> 255 * 32"
  shows "hkdfSha256 S ikm salt info len = Inr (rfc5869 (total_hmac S) salt ikm (utf8_encode info) len)"
proof -
  let ?n = "(len + 31) div 32" and ?prk = "total_hmac S salt ikm"
  have "hkdf_expand_loop S ?prk (utf8_encode info) (Suc 0) ?n [] (replicate (?n * 32) 0)
      = Inr (concat (map (rfc5869_T (total_hmac S) ?prk (utf8_encode info)) [1..<Suc ?n]))"
    using hkdf_expand_loop_correct [OF assms(1) total_hmac_Some(2) [OF assms(1,2)], of 0 ?n] by simp
  moreover have "len + 32 - 1 = len + 31" using assms(3) by simp
  ultimately show ?thesis
    using assms total_hmac_Some(1) [OF assms(1,2)]
    by (simp only: hkdfSha256_def rfc5869_def HASH_LENGTH_def Let_def One_nat_def require_simps
        rbind_simps of_option_simps simp_thms)
qed

lemma length_rfc5869:
  assumes "hmac_law S" "length salt = 32"
  shows "length (rfc5869 (total_hmac S) salt ikm info len) = len"
proof -
  have "len \<le> (len + 31) div 32 * 32" by arith
  then show ?thesis
    using length_concat_T [OF assms(1) total_hmac_Some(2) [OF assms]]
    by (simp add: rfc5869_def Let_def min_def del: upt_Suc)
qed

lemma hkdfSha256_ok:
  assumes "hmac_law S" "length salt = 32" "1 \<le> len" "len \<le> 255 * 32"
  obtains out where "hkdfSha256 S ikm salt info len = Inr out" "length out = len"
  using hkdfSha256_rfc5869 [OF assms] length_rfc5869 [OF assms(1,2)] by metis

lemma hkdfSha256_refuses:
  assumes "\<not> (length salt = 32 \<and> 1 \<le> len \<and> len \<le> 255 * 32)"
  shows "\<exists>why. hkdfSha256 S ikm salt info len = Inl (KdfError why)"
proof (cases "length salt = 32")
  case True
  then have "\<not> (1 \<le> len \<and> len \<le> 255 * HASH_LENGTH)" using assms by (simp add: HASH_LENGTH_def)
  then show ?thesis using True by (auto simp: hkdfSha256_def HASH_LENGTH_def require_def)
qed (simp add: hkdfSha256_def HASH_LENGTH_def)

subsection \<open>Properties\<close>

text \<open>
  Claim C17. \<open>hkdfSha256\<close> is RFC 5869 extract-and-expand, for every input: on a 32-byte salt and a
  length of 1 to 255 blocks it returns exactly the specified output key material, of exactly the
  requested length; every other salt or length is refused with the error the code names.
\<close>

theorem hkdfSha256_is_rfc5869:
  assumes "hmac_law S"
  shows "(length salt = 32 \<and> 1 \<le> len \<and> len \<le> 255 * 32 \<longrightarrow>
            hkdfSha256 S ikm salt info len = Inr (rfc5869 (total_hmac S) salt ikm (utf8_encode info) len) \<and>
            length (rfc5869 (total_hmac S) salt ikm (utf8_encode info) len) = len) \<and>
         (\<not> (length salt = 32 \<and> 1 \<le> len \<and> len \<le> 255 * 32) \<longrightarrow>
            (\<exists>why. hkdfSha256 S ikm salt info len = Inl (KdfError why)))"
  using hkdfSha256_rfc5869 [OF assms] length_rfc5869 [OF assms] hkdfSha256_refuses by blast

theorem hkdfSha256_is_rfc5869_witness:
  "hkdfSha256 demo_sodium [1, 2] (replicate 32 0) ''info'' 42
   = Inr (rfc5869 (total_hmac demo_sodium) (replicate 32 0) [1, 2] (utf8_encode ''info'') 42)"
  using hkdfSha256_is_rfc5869 [OF demo_hmac_law, of "replicate 32 0" 42 "[1, 2]" "''info''"] by simp

end
