(* ===== verification/Base64.thy ===== *)
theory Base64
  imports Prelude
begin

section \<open>Base64: the text form of every key, record and payload\<close>

text \<open>
  Six modules of the client carry the same pair of helpers (\<open>identity.ts\<close>,
  \<open>serialize.ts\<close>, \<open>content.ts\<close>, \<open>api.ts\<close>, \<open>socket.ts\<close>,
  \<open>chat-client.ts\<close>): bytes become a binary string, then \<open>btoa\<close>; text goes through
  \<open>atob\<close> and back to bytes. \<open>btoa\<close> and \<open>atob\<close> are the platform's forgiving base64:
  \<open>atob\<close> skips ASCII whitespace, accepts missing padding, and throws
  \<open>InvalidCharacterError\<close> (here \<open>None\<close>) on anything else.
\<close>

subsection \<open>The platform functions\<close>

definition b64_alphabet :: string where
  "b64_alphabet = ''ABCDEFGHIJKLMNOPQRSTUVWXYZabcdefghijklmnopqrstuvwxyz0123456789+/''"

definition b64_char :: "nat \<Rightarrow> char" where
  "b64_char n = b64_alphabet ! n"

fun index_of :: "'a \<Rightarrow> 'a list \<Rightarrow> nat option" where
  "index_of x [] = None"
| "index_of x (y # ys) = (if x = y then Some 0 else map_option Suc (index_of x ys))"

definition b64_val :: "char \<Rightarrow> nat option" where
  "b64_val c = index_of c b64_alphabet"

text \<open>Three octets give four sextets; a trailing one or two give two or three.\<close>

fun sextets :: "nat list \<Rightarrow> nat list" where
  "sextets [] = []"
| "sextets [a] = [a div 4, a mod 4 * 16]"
| "sextets [a, b] = [a div 4, a mod 4 * 16 + b div 16, b mod 16 * 4]"
| "sextets (a # b # c # r) =
     (a div 4) # (a mod 4 * 16 + b div 16) # (b mod 16 * 4 + c div 64) # (c mod 64) # sextets r"

fun octets :: "nat list \<Rightarrow> nat list" where
  "octets (a # b # c # d # r) =
     (a * 4 + b div 16) # (b mod 16 * 16 + c div 4) # (c mod 4 * 64 + d) # octets r"
| "octets [a, b, c] = [a * 4 + b div 16, b mod 16 * 16 + c div 4]"
| "octets [a, b] = [a * 4 + b div 16]"
| "octets _ = []"

definition btoa :: "string \<Rightarrow> string" where
  "btoa s = map b64_char (sextets (map of_char s)) @ replicate ((3 - length s mod 3) mod 3) CHR ''=''"

definition is_ascii_ws :: "char \<Rightarrow> bool" where
  "is_ascii_ws c \<longleftrightarrow> (of_char c :: nat) \<in> {9, 10, 12, 13, 32}"

text \<open>Up to two padding characters leave the end of the text.\<close>

definition strip_padding :: "string \<Rightarrow> string" where
  "strip_padding s =
     (if s \<noteq> [] \<and> last s = CHR ''=''
      then (if butlast s \<noteq> [] \<and> last (butlast s) = CHR ''='' then butlast (butlast s) else butlast s)
      else s)"

fun b64_vals :: "string \<Rightarrow> nat list option" where
  "b64_vals [] = Some []"
| "b64_vals (c # cs) =
     (case b64_val c of None \<Rightarrow> None
      | Some v \<Rightarrow> (case b64_vals cs of None \<Rightarrow> None | Some vs \<Rightarrow> Some (v # vs)))"

definition atob :: "string \<Rightarrow> string option" where
  "atob text =
     (let s = filter (\<lambda>c. \<not> is_ascii_ws c) text;
          t = (if length s mod 4 = 0 then strip_padding s else s)
      in if length t mod 4 = 1 then None
         else map_option (\<lambda>vs. map char_of (octets vs)) (b64_vals t))"

subsection \<open>The helpers of the source\<close>

definition binary_string :: "bytes \<Rightarrow> string" where
  "binary_string bs = map (\<lambda>b. char_of (unat b)) bs"

definition from_binary_string :: "string \<Rightarrow> bytes" where
  "from_binary_string s = map (\<lambda>c. of_nat (of_char c)) s"

definition encodeB64 :: "bytes \<Rightarrow> string" where
  "encodeB64 bs = btoa (binary_string bs)"

definition decodeB64 :: "string \<Rightarrow> bytes result" where
  "decodeB64 text = of_option InvalidCharacterError (map_option from_binary_string (atob text))"

text \<open>\<open>toBase64Url\<close>: two substitutions, then \<open>/=+$/\<close> removed.\<close>

definition url_char :: "char \<Rightarrow> char" where
  "url_char c = (if c = CHR ''+'' then CHR ''-'' else if c = CHR ''/'' then CHR ''_'' else c)"

definition rstrip :: "char \<Rightarrow> string \<Rightarrow> string" where
  "rstrip c s = rev (dropWhile (\<lambda>x. x = c) (rev s))"

definition toBase64Url :: "bytes \<Rightarrow> string" where
  "toBase64Url bs = rstrip CHR ''='' (map url_char (btoa (binary_string bs)))"

subsection \<open>Sextets and octets\<close>

lemma octets_sextets: "\<forall>x\<in>set xs. x < 256 \<Longrightarrow> octets (sextets xs) = xs"
proof (induction xs rule: sextets.induct)
  case (4 a b c r)
  then have bounds: "a < 256" "b < 256" "c < 256" by auto
  have "(a mod 4 * 16 + b div 16) div 16 = a mod 4" "(a mod 4 * 16 + b div 16) mod 16 = b div 16"
    using bounds by (simp_all add: div_less_dividend)
  moreover have "(b mod 16 * 4 + c div 64) div 4 = b mod 16" "(b mod 16 * 4 + c div 64) mod 4 = c div 64"
    using bounds by simp_all
  moreover have "octets (sextets r) = r" using 4 by simp
  ultimately show ?case
    by (simp add: mult.commute)
qed (auto simp: mult.commute)

lemma sextets_bound: "\<forall>x\<in>set xs. x < 256 \<Longrightarrow> v \<in> set (sextets xs) \<Longrightarrow> v < 64"
proof (induction xs rule: sextets.induct)
  case (4 a b c r)
  have "a mod 4 \<le> 3" "b mod 16 \<le> 15" by simp_all
  moreover have "b div 16 \<le> 15" "c div 64 \<le> 3" "a div 4 \<le> 63" using "4.prems" by auto
  moreover have "c mod 64 < 64" by simp
  ultimately show ?case using 4 by auto
next
  case (2 a)
  have "a mod 4 \<le> 3" by simp
  moreover have "a div 4 \<le> 63" using "2.prems" by auto
  ultimately show ?case using 2 by auto
next
  case (3 a b)
  have "a mod 4 \<le> 3" "b mod 16 \<le> 15" by simp_all
  moreover have "a div 4 \<le> 63" "b div 16 \<le> 15" using "3.prems" by auto
  ultimately show ?case using 3 by auto
qed simp

lemma length_sextets: "length (sextets xs) = (4 * length xs + 2) div 3"
  by (induction xs rule: sextets.induct) auto


subsection \<open>The alphabet\<close>

lemma index_of_nth: "distinct xs \<Longrightarrow> i < length xs \<Longrightarrow> index_of (xs ! i) xs = Some i"
proof (induction xs arbitrary: i)
  case (Cons x xs)
  then show ?case by (cases i) auto
qed simp

lemma length_b64_alphabet: "length b64_alphabet = 64"
  by (simp add: b64_alphabet_def)

lemma distinct_b64_alphabet: "distinct b64_alphabet"
  by (simp add: b64_alphabet_def)

lemma b64_char_in: "n < 64 \<Longrightarrow> b64_char n \<in> set b64_alphabet"
  by (simp add: b64_char_def length_b64_alphabet)

lemma b64_val_char [simp]: "n < 64 \<Longrightarrow> b64_val (b64_char n) = Some n"
  by (simp add: b64_val_def b64_char_def index_of_nth distinct_b64_alphabet length_b64_alphabet)

lemma b64_alphabet_plain:
  "c \<in> set b64_alphabet \<Longrightarrow> c \<noteq> CHR ''='' \<and> \<not> is_ascii_ws c"
  by (auto simp: b64_alphabet_def is_ascii_ws_def)

lemma b64_vals_map: "\<forall>v\<in>set vs. v < 64 \<Longrightarrow> b64_vals (map b64_char vs) = Some vs"
  by (induction vs) auto

subsection \<open>Round trip\<close>

lemma of_char_bounds [simp]: "\<forall>x\<in>of_char ` set s. x < (256 :: nat)"
  by auto

lemma strip_padding_plain:
  assumes "CHR ''='' \<notin> set s" "k \<le> 2"
  shows "strip_padding (s @ replicate k CHR ''='') = s"
proof -
  have "k = 0 \<or> k = 1 \<or> k = 2" using assms(2) by auto
  moreover have "s \<noteq> [] \<Longrightarrow> last s \<noteq> CHR ''=''" using assms(1) last_in_set by metis
  ultimately show ?thesis
    by (auto simp: strip_padding_def numeral_2_eq_2 butlast_append last_append)
qed

lemma length_btoa_mod: "length (btoa s) mod 4 = 0"
proof -
  obtain q r where n: "length s = 3 * q + r" "r < 3"
    using mod_div_decomp [of "length s" 3] by (metis mod_less_divisor mult.commute zero_less_numeral)
  then have "r = 0 \<or> r = 1 \<or> r = 2" by auto
  moreover have "Suc (Suc (12 * q)) div 3 = 4 * q" "(10 + 12 * q) div 3 = 4 * q + 3" by arith+
  ultimately show ?thesis using n(1) by (auto simp: btoa_def length_sextets)
qed

theorem atob_btoa [simp]: "atob (btoa s) = Some s"
proof -
  let ?vs = "sextets (map of_char s)" and ?k = "(3 - length s mod 3) mod 3"
  have vs: "\<forall>v\<in>set ?vs. v < 64" using sextets_bound [of "map of_char s"] by auto
  have plain: "\<forall>c\<in>set (map b64_char ?vs). c \<noteq> CHR ''='' \<and> \<not> is_ascii_ws c"
    using vs b64_char_in b64_alphabet_plain by fastforce
  have "filter (\<lambda>c. \<not> is_ascii_ws c) (btoa s) = btoa s"
    using plain by (auto simp: btoa_def is_ascii_ws_def intro!: filter_True)
  moreover have "strip_padding (btoa s) = map b64_char ?vs"
    unfolding btoa_def using plain by (intro strip_padding_plain) auto
  moreover have "length (map b64_char ?vs) mod 4 \<noteq> 1"
    by (simp add: length_sextets) presburger
  moreover have "b64_vals (map b64_char ?vs) = Some ?vs" by (rule b64_vals_map) (rule vs)
  moreover have "octets ?vs = map of_char s" by (rule octets_sextets) simp
  ultimately show ?thesis
    using length_btoa_mod [of s] by (simp add: atob_def Let_def comp_def)
qed

lemma from_binary_string [simp]: "from_binary_string (binary_string bs) = bs"
  by (simp add: from_binary_string_def binary_string_def comp_def map_idI)

lemma length_binary_string [simp, length_simps]: "length (binary_string bs) = length bs"
  by (simp add: binary_string_def)

lemma decode_encodeB64 [simp]: "decodeB64 (encodeB64 bs) = Inr bs"
  by (simp add: decodeB64_def encodeB64_def)

text \<open>The codec every stored key relies on.\<close>

interpretation b64: codec encodeB64 "\<lambda>t. case decodeB64 t of Inl _ \<Rightarrow> None | Inr b \<Rightarrow> Some b" "\<lambda>_. True"
  by unfold_locales simp

lemma set_btoa: "c \<in> set (btoa s) \<Longrightarrow> c \<in> set b64_alphabet \<or> c = CHR ''=''"
proof -
  assume c: "c \<in> set (btoa s)"
  have "v < 64" if "v \<in> set (sextets (map of_char s))" for v
    using sextets_bound [of "map of_char s" v] that by simp
  then show ?thesis using c b64_char_in by (auto simp: btoa_def)
qed


subsection \<open>The url form\<close>

text \<open>An inverse of the url form, used to show that no two byte strings share one.\<close>

definition unurl_char :: "char \<Rightarrow> char" where
  "unurl_char c = (if c = CHR ''-'' then CHR ''+'' else if c = CHR ''_'' then CHR ''/'' else c)"

lemma unurl_url_char: "c \<in> set b64_alphabet \<Longrightarrow> unurl_char (url_char c) = c"
  by (auto simp: b64_alphabet_def url_char_def unurl_char_def)

lemma url_char_neq_pad: "c \<in> set b64_alphabet \<Longrightarrow> url_char c \<noteq> CHR ''=''"
  by (auto simp: b64_alphabet_def url_char_def)

lemma rstrip_snoc: "rstrip c (s @ [c]) = rstrip c s"
  by (simp add: rstrip_def)

lemma rstrip_replicate: "c \<notin> set s \<Longrightarrow> rstrip c (s @ replicate k c) = s"
proof (induction k)
  case 0
  then have "dropWhile (\<lambda>x. x = c) (rev s) = rev s" by (cases s rule: rev_cases) auto
  then show ?case by (simp add: rstrip_def)
next
  case (Suc k)
  then show ?case
    using rstrip_snoc [of c "s @ replicate k c"] by (simp add: replicate_append_same)
qed

lemma toBase64Url_eq:
  "toBase64Url bs = map (url_char \<circ> b64_char) (sextets (map unat bs))"
proof -
  have b: "map (of_char :: char \<Rightarrow> nat) (binary_string bs) = map unat bs"
    by (simp add: binary_string_def comp_def)
  have "v < 64" if "v \<in> set (sextets (map unat bs))" for v
    using sextets_bound [of "map unat bs" v] that by (simp add: unat_byte_less)
  then have "CHR ''='' \<notin> set (map (url_char \<circ> b64_char) (sextets (map unat bs)))"
    using url_char_neq_pad [OF b64_char_in] by fastforce
  then show ?thesis
    by (simp add: toBase64Url_def btoa_def b url_char_def rstrip_replicate comp_def)
qed

lemma length_toBase64Url [length_simps]: "length (toBase64Url bs) = (4 * length bs + 2) div 3"
  by (simp add: toBase64Url_eq length_sextets)

lemma unurl_toBase64Url:
  "b64_vals (map unurl_char (toBase64Url bs)) = Some (sextets (map unat bs))"
proof -
  have v: "\<forall>v\<in>set (sextets (map unat bs)). v < 64"
    using sextets_bound [of "map unat bs"] by (auto simp: unat_byte_less)
  then have "map unurl_char (toBase64Url bs) = map b64_char (sextets (map unat bs))"
    by (simp add: toBase64Url_eq unurl_url_char b64_char_in)
  then show ?thesis using b64_vals_map [OF v] by simp
qed

text \<open>Distinct digests have distinct account ids.\<close>

interpretation b64url: codec toBase64Url
  "\<lambda>t. map_option (\<lambda>vs. map of_nat (octets vs)) (b64_vals (map unurl_char t))" "\<lambda>_. True"
proof
  fix bs :: bytes
  have "octets (sextets (map unat bs)) = map unat bs"
    by (rule octets_sextets) (auto simp: unat_byte_less)
  then show "map_option (\<lambda>vs. map of_nat (octets vs)) (b64_vals (map unurl_char (toBase64Url bs))) = Some bs"
    by (simp add: unurl_toBase64Url comp_def map_idI)
qed

definition is_account_char :: "char \<Rightarrow> bool" where
  "is_account_char c \<longleftrightarrow> c \<in> set ''ABCDEFGHIJKLMNOPQRSTUVWXYZabcdefghijklmnopqrstuvwxyz0123456789_-''"

lemma url_char_account: "c \<in> set b64_alphabet \<Longrightarrow> is_account_char (url_char c)"
  by (auto simp: b64_alphabet_def url_char_def is_account_char_def)

lemma toBase64Url_chars: "list_all is_account_char (toBase64Url bs)"
proof -
  have "v < 64" if "v \<in> set (sextets (map unat bs))" for v
    using sextets_bound [of "map unat bs" v] that by (simp add: unat_byte_less)
  then show ?thesis
    by (auto simp: toBase64Url_eq list_all_iff intro!: url_char_account b64_char_in)
qed

lemma length_encodeB64: "length (encodeB64 bs) = 4 * ((length bs + 2) div 3)"
proof -
  let ?n = "length bs" and ?q = "length bs div 3"
  have n: "?n = 3 * ?q + ?n mod 3" by simp
  have "(4 * ?n + 2) div 3 + (3 - ?n mod 3) mod 3 = 4 * ((?n + 2) div 3)"
  proof -
    consider "?n mod 3 = 0" | "?n mod 3 = 1" | "?n mod 3 = 2" by linarith
    then show ?thesis
    proof cases
      case 1
      then have n: "?n = 3 * ?q" using n by simp
      have "(4 * (3 * q) + 2) div 3 = 4 * q" "(3 * q + 2) div 3 = q" for q :: nat by presburger+
      then show ?thesis unfolding 1 by (subst (1 2) n) simp
    next
      case 2
      then have n: "?n = 3 * ?q + 1" using n by simp
      show ?thesis unfolding 2 by (subst (1 2) n) simp
    next
      case 3
      then have n: "?n = 3 * ?q + 2" using n by simp
      show ?thesis unfolding 3 by (subst (1 2) n) simp
    qed
  qed
  then show ?thesis by (simp add: encodeB64_def btoa_def length_sextets)
qed

end
