(* ===== verification/Ratchet.thy ===== *)
theory Ratchet
  imports Kdf Base64
begin

section \<open>Double Ratchet (\<open>crypto/ratchet.ts\<close>)\<close>

text \<open>
  The session state and its operations. Functions that mutate the state return it as they leave
  it, also when they throw; \<open>decryptMessage\<close> stages its changes on a copy and commits them once
  the message has authenticated, as the source does. The keypair that \<open>crypto_kx_keypair()\<close>
  returns during a DH ratchet step is the argument \<open>fresh\<close>.
\<close>

definition ROOT_DOMAIN :: string where "ROOT_DOMAIN = ''shatters-ratchet-root-v1''"
definition MESSAGE_DOMAIN :: string where "MESSAGE_DOMAIN = ''shatters-msg-v1''"
definition R_KEY_LENGTH :: nat where "R_KEY_LENGTH = 32"
definition NONCE_LENGTH :: nat where "NONCE_LENGTH = 24"
definition MAX_SKIPPED_KEYS :: nat where "MAX_SKIPPED_KEYS = 2000"
definition MAX_SKIP_CHAINS :: nat where "MAX_SKIP_CHAINS = 64"
definition HEADER_LENGTH :: nat where "HEADER_LENGTH = R_KEY_LENGTH + 8"

lemmas ratchet_consts = R_KEY_LENGTH_def NONCE_LENGTH_def MAX_SKIPPED_KEYS_def MAX_SKIP_CHAINS_def
  HEADER_LENGTH_def

record MessageHeader =
  dhPublicKey :: bytes
  h_previousChainLength :: nat
  messageNumber :: nat

record RatchetMessage =
  header :: MessageHeader
  ciphertext :: bytes

record SessionState =
  rootKey :: bytes
  ourRatchetKey :: KeyPair
  theirRatchetKey :: "bytes option"
  sendingChainKey :: "bytes option"
  receivingChainKey :: "bytes option"
  sendCount :: nat
  receiveCount :: nat
  previousChainLength :: nat
  skippedKeys :: "(string \<times> bytes) list"
  st_associatedData :: bytes

subsection \<open>Primitives\<close>

text \<open>The pair is (root key, chain key).\<close>

definition advanceRootKey :: "sodium \<Rightarrow> bytes \<Rightarrow> bytes \<Rightarrow> (bytes \<times> bytes) result" where
  "advanceRootKey S rk dhOutput =
     rbind (hkdfSha256 S dhOutput rk ROOT_DOMAIN (R_KEY_LENGTH * 2)) (\<lambda>derived.
     Inr (take R_KEY_LENGTH derived, drop R_KEY_LENGTH derived))"

text \<open>The pair is (chain key, message key); the message key is computed first.\<close>

definition advanceChainKey :: "sodium \<Rightarrow> bytes \<Rightarrow> (bytes \<times> bytes) result" where
  "advanceChainKey S ck =
     rbind (of_option SodiumError (hmacsha256 S [1] ck)) (\<lambda>messageKey.
     rbind (of_option SodiumError (hmacsha256 S [2] ck)) (\<lambda>chainKey.
     Inr (chainKey, messageKey)))"

text \<open>The pair is (AEAD key, nonce).\<close>

definition messageKeyMaterial :: "sodium \<Rightarrow> bytes \<Rightarrow> (bytes \<times> bytes) result" where
  "messageKeyMaterial S messageKey =
     rbind (hkdfSha256 S messageKey (replicate HASH_LENGTH 0) MESSAGE_DOMAIN (R_KEY_LENGTH + NONCE_LENGTH))
       (\<lambda>material. Inr (take R_KEY_LENGTH material, drop R_KEY_LENGTH material))"

definition serializeHeader :: "MessageHeader \<Rightarrow> bytes result" where
  "serializeHeader h =
     rbind (u8_set (replicate HEADER_LENGTH 0) (dhPublicKey h) 0) (\<lambda>out.
     rbind (u8_set out (u32be (h_previousChainLength h)) R_KEY_LENGTH) (\<lambda>out.
     u8_set out (u32be (messageNumber h)) (R_KEY_LENGTH + 4)))"

definition messageAssociatedData :: "SessionState \<Rightarrow> MessageHeader \<Rightarrow> bytes result" where
  "messageAssociatedData st h = rbind (serializeHeader h) (\<lambda>headerBytes. Inr (st_associatedData st @ headerBytes))"

definition skippedKeyId :: "bytes \<Rightarrow> nat \<Rightarrow> string" where
  "skippedKeyId dhPub n = btoa (binary_string dhPub) @ '':'' @ show_nat n"

subsection \<open>Initialisation\<close>

definition initializeInitiator ::
  "sodium \<Rightarrow> bytes \<Rightarrow> bytes \<Rightarrow> bytes \<Rightarrow> KeyPair \<Rightarrow> SessionState result" where
  "initializeInitiator S sharedSecret ad theirSignedPrekey ourKey =
     rbind (require (length sharedSecret = R_KEY_LENGTH) (RatchetError ''sharedSecret must be 32 bytes'')) (\<lambda>_.
     rbind (require (length theirSignedPrekey = R_KEY_LENGTH)
              (RatchetError ''theirSignedPrekey must be 32 bytes'')) (\<lambda>_.
     rbind (of_option SodiumError (scalarmult S (privateKey ourKey) theirSignedPrekey)) (\<lambda>dhOutput.
     rbind (advanceRootKey S sharedSecret dhOutput) (\<lambda>(rk, chainKey).
     Inr \<lparr>rootKey = rk, ourRatchetKey = ourKey, theirRatchetKey = Some theirSignedPrekey,
          sendingChainKey = Some chainKey, receivingChainKey = None,
          sendCount = 0, receiveCount = 0, previousChainLength = 0,
          skippedKeys = [], st_associatedData = ad\<rparr>))))"

definition initializeResponder :: "bytes \<Rightarrow> bytes \<Rightarrow> KeyPair \<Rightarrow> SessionState result" where
  "initializeResponder sharedSecret ad ourSignedPrekey =
     rbind (require (length sharedSecret = R_KEY_LENGTH) (RatchetError ''sharedSecret must be 32 bytes'')) (\<lambda>_.
     Inr \<lparr>rootKey = sharedSecret, ourRatchetKey = ourSignedPrekey, theirRatchetKey = None,
          sendingChainKey = None, receivingChainKey = None,
          sendCount = 0, receiveCount = 0, previousChainLength = 0,
          skippedKeys = [], st_associatedData = ad\<rparr>)"

subsection \<open>Sending\<close>

definition current_header :: "SessionState \<Rightarrow> MessageHeader" where
  "current_header st =
     \<lparr>dhPublicKey = publicKey (ourRatchetKey st), h_previousChainLength = previousChainLength st,
      messageNumber = sendCount st\<rparr>"

definition encryptMessage :: "sodium \<Rightarrow> bytes \<Rightarrow> (SessionState, RatchetMessage) effect" where
  "encryptMessage S plaintext =
     sbind (sget sendingChainKey) (\<lambda>ck. case ck of
       None \<Rightarrow> sthrow (RatchetError ''no sending chain: awaiting the peer's first message'')
     | Some ck \<Rightarrow>
       sbind (slift (advanceChainKey S ck)) (\<lambda>(chainKey, messageKey).
       sbind (smodify (\<lambda>st. st\<lparr>sendingChainKey := Some chainKey\<rparr>)) (\<lambda>_.
       sbind (sget current_header) (\<lambda>hdr.
       sbind (smodify (\<lambda>st. st\<lparr>sendCount := sendCount st + 1\<rparr>)) (\<lambda>_.
       sbind (slift (messageKeyMaterial S messageKey)) (\<lambda>(key, nonce).
       sbind (sget (\<lambda>st. messageAssociatedData st hdr)) (\<lambda>ad.
       slift (rbind ad (\<lambda>ad.
              rbind (of_option SodiumError (aead_encrypt S plaintext ad nonce key)) (\<lambda>c.
              Inr \<lparr>header = hdr, ciphertext = c\<rparr>))))))))))"

subsection \<open>Receiving\<close>

definition decryptWithMessageKey ::
  "sodium \<Rightarrow> SessionState \<Rightarrow> bytes \<Rightarrow> MessageHeader \<Rightarrow> bytes \<Rightarrow> bytes result" where
  "decryptWithMessageKey S st messageKey hdr ct =
     rbind (messageKeyMaterial S messageKey) (\<lambda>(key, nonce).
     case rbind (messageAssociatedData st hdr) (\<lambda>ad. of_option SodiumError (aead_decrypt S ct ad nonce key)) of
       Inl _ \<Rightarrow> Inl (RatchetError ''message authentication failed'')
     | Inr p \<Rightarrow> Inr p)"

text \<open>\<open>id.slice(0, id.lastIndexOf(":"))\<close>; with no colon \<open>slice(0, -1)\<close> drops the last character.\<close>

definition chain_of :: "string \<Rightarrow> string" where
  "chain_of keyId =
     (if CHR '':'' \<in> set keyId then rev (tl (dropWhile (\<lambda>c. c \<noteq> CHR '':'') (rev keyId))) else butlast keyId)"

function evict_oldest :: "(string \<times> bytes) list \<Rightarrow> (string \<times> bytes) list" where
  "evict_oldest m =
     (if length m > MAX_SKIPPED_KEYS then evict_oldest (AList.delete (fst (hd m)) m) else m)"
  by pat_completeness auto

lemma length_delete_hd: "m \<noteq> [] \<Longrightarrow> length (AList.delete (fst (hd m)) m) < length m"
  by (cases m) (auto simp: length_delete_le le_imp_less_Suc)

termination evict_oldest
  by (relation "measure length") (auto intro!: length_delete_hd)

declare evict_oldest.simps [simp del]

definition skip_chains :: "(string \<times> bytes) list \<Rightarrow> string list" where
  "skip_chains m = set_from (map (\<lambda>(keyId, _). chain_of keyId) m)"

definition evict_chains :: "(string \<times> bytes) list \<Rightarrow> (string \<times> bytes) list" where
  "evict_chains m =
     (let chains = skip_chains m
      in if length chains \<le> MAX_SKIP_CHAINS then m
         else let doomed = take (length chains - MAX_SKIP_CHAINS) chains
              in filter (\<lambda>(keyId, _). \<not> (\<exists>chain\<in>set doomed. prefix (chain @ '':'') keyId)) m)"

definition evictSkippedKeys :: "SessionState \<Rightarrow> SessionState" where
  "evictSkippedKeys st = st\<lparr>skippedKeys := evict_chains (evict_oldest (skippedKeys st))\<rparr>"

text \<open>One turn of the loop of \<open>skipMessageKeys\<close>.\<close>

definition skip_step :: "sodium \<Rightarrow> (SessionState, unit) effect" where
  "skip_step S =
     sbind (sget receivingChainKey) (\<lambda>ck. case ck of
       None \<Rightarrow> sthrow TypeError
     | Some ck \<Rightarrow>
       sbind (slift (advanceChainKey S ck)) (\<lambda>(chainKey, messageKey).
       sbind (smodify (\<lambda>st. st\<lparr>receivingChainKey := Some chainKey\<rparr>)) (\<lambda>_.
       sbind (sget theirRatchetKey) (\<lambda>their. case their of
         None \<Rightarrow> sthrow TypeError
       | Some pub \<Rightarrow>
         smodify (\<lambda>st. evictSkippedKeys
           (st\<lparr>skippedKeys := AList.update (skippedKeyId pub (receiveCount st)) messageKey (skippedKeys st),
               receiveCount := receiveCount st + 1\<rparr>))))))"

lemma receiveCount_evict [simp]: "receiveCount (evictSkippedKeys st) = receiveCount st"
  by (simp add: evictSkippedKeys_def)

lemma skip_step_count: "skip_step S st = (st', Inr u) \<Longrightarrow> receiveCount st' = Suc (receiveCount st)"
  by (auto simp: skip_step_def sbind_eq_Inr split: option.splits prod.splits)

function skip_loop :: "sodium \<Rightarrow> nat \<Rightarrow> (SessionState, unit) effect" where
  "skip_loop S until st =
     (if receiveCount st < until
      then (case skip_step S st of (st', Inl e) \<Rightarrow> (st', Inl e) | (st', Inr _) \<Rightarrow> skip_loop S until st')
      else (st, Inr ()))"
  by pat_completeness auto

termination skip_loop
  by (relation "measure (\<lambda>(S, until, st). until - receiveCount st)") (auto dest: skip_step_count [OF sym])

declare skip_loop.simps [simp del]

definition skipMessageKeys :: "sodium \<Rightarrow> nat \<Rightarrow> (SessionState, unit) effect" where
  "skipMessageKeys S until =
     (\<lambda>st. if receivingChainKey st = None then (st, Inr ())
           else if int until - int (receiveCount st) > int MAX_SKIPPED_KEYS
           then (st, Inl (RatchetError ''too many skipped messages''))
           else skip_loop S until st)"

definition dhRatchet :: "sodium \<Rightarrow> KeyPair \<Rightarrow> bytes \<Rightarrow> (SessionState, unit) effect" where
  "dhRatchet S fresh their =
     sbind (smodify (\<lambda>st. st\<lparr>previousChainLength := sendCount st, sendCount := 0, receiveCount := 0,
                            theirRatchetKey := Some their\<rparr>)) (\<lambda>_.
     sbind (sget (\<lambda>st. (privateKey (ourRatchetKey st), rootKey st))) (\<lambda>(priv, rk).
     sbind (slift (of_option SodiumError (scalarmult S priv their))) (\<lambda>receiveDh.
     sbind (slift (advanceRootKey S rk receiveDh)) (\<lambda>(rk1, receiving).
     sbind (smodify (\<lambda>st. st\<lparr>rootKey := rk1, receivingChainKey := Some receiving,
                            ourRatchetKey := fresh\<rparr>)) (\<lambda>_.
     sbind (slift (of_option SodiumError (scalarmult S (privateKey fresh) their))) (\<lambda>sendDh.
     sbind (slift (advanceRootKey S rk1 sendDh)) (\<lambda>(rk2, sending).
     smodify (\<lambda>st. st\<lparr>rootKey := rk2, sendingChainKey := Some sending\<rparr>))))))))"

text \<open>\<open>bytesEqual\<close>, and whether a header carries a ratchet key other than the current one.\<close>

fun bytesEqual :: "bytes \<Rightarrow> bytes \<Rightarrow> bool" where
  "bytesEqual [] [] = True"
| "bytesEqual (a # as) (b # bs) = (a = b \<and> bytesEqual as bs)"
| "bytesEqual _ _ = False"

definition isNewRatchetKey :: "SessionState \<Rightarrow> MessageHeader \<Rightarrow> bool" where
  "isNewRatchetKey st hdr =
     (case theirRatchetKey st of None \<Rightarrow> True | Some k \<Rightarrow> \<not> bytesEqual k (dhPublicKey hdr))"

text \<open>The last part of a receipt: the next key of the receiving chain opens the message.\<close>

definition receive_next :: "sodium \<Rightarrow> RatchetMessage \<Rightarrow> (SessionState, bytes) effect" where
  "receive_next S msg =
     sbind (sget receivingChainKey) (\<lambda>ck. case ck of
       None \<Rightarrow> sthrow (RatchetError ''no receiving chain for this message'')
     | Some ck \<Rightarrow>
       sbind (slift (advanceChainKey S ck)) (\<lambda>(chainKey, messageKey).
       sbind (smodify (\<lambda>st. st\<lparr>receivingChainKey := Some chainKey, receiveCount := receiveCount st + 1\<rparr>)) (\<lambda>_.
       sbind (sget (\<lambda>st. decryptWithMessageKey S st messageKey (header msg) (ciphertext msg))) (\<lambda>p.
       slift p))))"

text \<open>The part of \<open>decryptMessage\<close> that runs on the working copy.\<close>

definition decrypt_working :: "sodium \<Rightarrow> KeyPair \<Rightarrow> RatchetMessage \<Rightarrow> (SessionState, bytes) effect" where
  "decrypt_working S fresh msg =
     sbind (sget (\<lambda>st. isNewRatchetKey st (header msg))) (\<lambda>isNew.
     sbind (if isNew
            then sbind (skipMessageKeys S (h_previousChainLength (header msg))) (\<lambda>_.
                 dhRatchet S fresh (dhPublicKey (header msg)))
            else sreturn ()) (\<lambda>_.
     sbind (skipMessageKeys S (messageNumber (header msg))) (\<lambda>_.
     receive_next S msg)))"

definition cloneState :: "SessionState \<Rightarrow> SessionState" where
  "cloneState st =
     \<lparr>rootKey = rootKey st,
      ourRatchetKey = \<lparr>publicKey = publicKey (ourRatchetKey st), privateKey = privateKey (ourRatchetKey st),
                       keyType = keyType (ourRatchetKey st)\<rparr>,
      theirRatchetKey = theirRatchetKey st, sendingChainKey = sendingChainKey st,
      receivingChainKey = receivingChainKey st, sendCount = sendCount st, receiveCount = receiveCount st,
      previousChainLength = previousChainLength st,
      skippedKeys = map (\<lambda>(keyId, key). (keyId, key)) (skippedKeys st),
      st_associatedData = st_associatedData st\<rparr>"

definition commitState :: "SessionState \<Rightarrow> SessionState \<Rightarrow> SessionState" where
  "commitState target source =
     target\<lparr>rootKey := rootKey source, ourRatchetKey := ourRatchetKey source,
            theirRatchetKey := theirRatchetKey source, sendingChainKey := sendingChainKey source,
            receivingChainKey := receivingChainKey source, sendCount := sendCount source,
            receiveCount := receiveCount source, previousChainLength := previousChainLength source,
            skippedKeys := skippedKeys source\<rparr>"

definition decryptMessage :: "sodium \<Rightarrow> KeyPair \<Rightarrow> RatchetMessage \<Rightarrow> (SessionState, bytes) effect" where
  "decryptMessage S fresh msg = (\<lambda>state.
     if length (dhPublicKey (header msg)) \<noteq> R_KEY_LENGTH
     then (state, Inl (RatchetError ''malformed header ratchet key''))
     else let cachedId = skippedKeyId (dhPublicKey (header msg)) (messageNumber (header msg))
          in case map_of (skippedKeys state) cachedId of
               Some cached \<Rightarrow>
                 (case decryptWithMessageKey S state cached (header msg) (ciphertext msg) of
                    Inl e \<Rightarrow> (state, Inl e)
                  | Inr p \<Rightarrow> (state\<lparr>skippedKeys := AList.delete cachedId (skippedKeys state)\<rparr>, Inr p))
             | None \<Rightarrow>
                 (case decrypt_working S fresh msg (cloneState state) of
                    (_, Inl e) \<Rightarrow> (state, Inl e)
                  | (working, Inr p) \<Rightarrow> (commitState state working, Inr p)))"

subsection \<open>Characteristic equations\<close>

lemma bytesEqual_iff [simp]: "bytesEqual a b \<longleftrightarrow> a = b"
  by (induction a b rule: bytesEqual.induct) auto

lemma cloneState_id [simp]: "cloneState st = st"
  by (simp add: cloneState_def case_prod_unfold)

lemma encryptMessage_eq:
  assumes "sendingChainKey st = Some ck" "advanceChainKey S ck = Inr (ck', mk)"
  shows "encryptMessage S p st =
    (st\<lparr>sendingChainKey := Some ck', sendCount := sendCount st + 1\<rparr>,
     rbind (messageKeyMaterial S mk) (\<lambda>(key, nonce).
     rbind (messageAssociatedData st (current_header st)) (\<lambda>ad.
     rbind (of_option SodiumError (aead_encrypt S p ad nonce key)) (\<lambda>c.
     Inr \<lparr>header = current_header st, ciphertext = c\<rparr>))))"
proof -
  have "messageAssociatedData (st\<lparr>sendingChainKey := x, sendCount := y\<rparr>) h = messageAssociatedData st h" for x y h
    by (simp add: messageAssociatedData_def)
  then show ?thesis
    using assms by (cases "messageKeyMaterial S mk")
      (simp_all add: encryptMessage_def sbind_def current_header_def split: prod.split)
qed

lemma skip_step_eq:
  assumes "receivingChainKey st = Some ck" "advanceChainKey S ck = Inr (ck', mk)"
    "theirRatchetKey st = Some pub"
  shows "skip_step S st =
    (evictSkippedKeys
      (st\<lparr>receivingChainKey := Some ck',
          skippedKeys := AList.update (skippedKeyId pub (receiveCount st)) mk (skippedKeys st),
          receiveCount := receiveCount st + 1\<rparr>), Inr ())"
  using assms by (simp add: skip_step_def sbind_def)

lemma skip_step_success:
  assumes "skip_step S st = (st', Inr u)"
  obtains ck ck' mk pub where "receivingChainKey st = Some ck" "advanceChainKey S ck = Inr (ck', mk)"
    "theirRatchetKey st = Some pub"
proof -
  from assms obtain ck where ck: "receivingChainKey st = Some ck"
    by (cases "receivingChainKey st") (simp_all add: skip_step_def sbind_def)
  from assms ck obtain y where y: "advanceChainKey S ck = Inr y"
    by (cases "advanceChainKey S ck") (simp_all add: skip_step_def sbind_def)
  from assms ck y obtain pub where "theirRatchetKey st = Some pub"
    by (cases "theirRatchetKey st") (simp_all add: skip_step_def sbind_def split: prod.splits)
  then show thesis using that ck y by (cases y) auto
qed

lemma skip_loop_stop: "until \<le> receiveCount st \<Longrightarrow> skip_loop S until st = (st, Inr ())"
  by (subst skip_loop.simps) simp

lemma skip_loop_step:
  "receiveCount st < until \<Longrightarrow> skip_step S st = (st', Inr u) \<Longrightarrow> skip_loop S until st = skip_loop S until st'"
  by (subst skip_loop.simps) simp

lemma skip_loop_fail:
  "receiveCount st < until \<Longrightarrow> skip_step S st = (st', Inl e) \<Longrightarrow> skip_loop S until st = (st', Inl e)"
  by (subst skip_loop.simps) simp

text \<open>An invariant of one turn is an invariant of the loop.\<close>

lemma skip_loop_invariant:
  assumes "P st" "skip_loop S until st = (st', Inr u)"
    and "\<And>s s' u. P s \<Longrightarrow> receiveCount s < until \<Longrightarrow> skip_step S s = (s', Inr u) \<Longrightarrow> P s'"
  shows "P st' \<and> until \<le> receiveCount st'"
  using assms(1,2)
proof (induction "until - receiveCount st" arbitrary: st)
  case 0
  then show ?case by (simp add: skip_loop_stop)
next
  case (Suc n)
  then have less: "receiveCount st < until" by simp
  obtain t r where step: "skip_step S st = (t, r)" by (cases "skip_step S st")
  show ?case
  proof (cases r)
    case (Inl e)
    then show ?thesis using Suc.prems step less by (simp add: skip_loop_fail)
  next
    case (Inr v)
    have "n = until - receiveCount t" using skip_step_count [of S st t v] step Inr Suc.hyps(2) by simp
    moreover have "skip_loop S until t = (st', Inr u)"
      using Suc.prems(2) step Inr less by (simp add: skip_loop_step)
    ultimately show ?thesis
      using Suc.hyps(1) [of t] assms(3) [OF Suc.prems(1) less, of t v] step Inr by simp
  qed
qed

lemma dhRatchet_eq:
  assumes "scalarmult S (privateKey (ourRatchetKey st)) their = Some d1"
    "advanceRootKey S (rootKey st) d1 = Inr (rk1, receiving)"
    "scalarmult S (privateKey fresh) their = Some d2" "advanceRootKey S rk1 d2 = Inr (rk2, sending)"
  shows "dhRatchet S fresh their st =
    (st\<lparr>rootKey := rk2, ourRatchetKey := fresh, theirRatchetKey := Some their,
        sendingChainKey := Some sending, receivingChainKey := Some receiving,
        sendCount := 0, receiveCount := 0, previousChainLength := sendCount st\<rparr>, Inr ())"
  using assms by (simp add: dhRatchet_def sbind_def)

lemma dhRatchet_success:
  assumes "dhRatchet S fresh their st = (st', Inr u)"
  obtains d1 rk1 receiving d2 rk2 sending where
    "scalarmult S (privateKey (ourRatchetKey st)) their = Some d1"
    "advanceRootKey S (rootKey st) d1 = Inr (rk1, receiving)"
    "scalarmult S (privateKey fresh) their = Some d2" "advanceRootKey S rk1 d2 = Inr (rk2, sending)"
proof -
  from assms obtain d1 where 1: "scalarmult S (privateKey (ourRatchetKey st)) their = Some d1"
    by (cases "scalarmult S (privateKey (ourRatchetKey st)) their") (simp_all add: dhRatchet_def sbind_def)
  from assms 1 obtain y where 2: "advanceRootKey S (rootKey st) d1 = Inr y"
    by (cases "advanceRootKey S (rootKey st) d1") (simp_all add: dhRatchet_def sbind_def)
  from assms 1 2 obtain d2 where 3: "scalarmult S (privateKey fresh) their = Some d2"
    by (cases "scalarmult S (privateKey fresh) their"; cases y) (simp_all add: dhRatchet_def sbind_def)
  from assms 1 2 3 obtain z where 4: "advanceRootKey S (fst y) d2 = Inr z"
    by (cases "advanceRootKey S (fst y) d2"; cases y) (simp_all add: dhRatchet_def sbind_def)
  show thesis using that 1 2 3 4 by (cases y; cases z) auto
qed

lemma receive_next_eq:
  assumes "receivingChainKey st = Some ck" "advanceChainKey S ck = Inr (ck', mk)"
  shows "receive_next S msg st =
    (st\<lparr>receivingChainKey := Some ck', receiveCount := receiveCount st + 1\<rparr>,
     decryptWithMessageKey S st mk (header msg) (ciphertext msg))"
proof -
  have "decryptWithMessageKey S (st\<lparr>receivingChainKey := x, receiveCount := y\<rparr>) k h c
      = decryptWithMessageKey S st k h c" for x y k h c
    by (simp add: decryptWithMessageKey_def messageAssociatedData_def)
  then show ?thesis using assms by (simp add: receive_next_def sbind_def)
qed

lemma receive_next_success:
  assumes "receive_next S msg st = (st', Inr p)"
  obtains ck ck' mk where "receivingChainKey st = Some ck" "advanceChainKey S ck = Inr (ck', mk)"
    "decryptWithMessageKey S st mk (header msg) (ciphertext msg) = Inr p"
    "st' = st\<lparr>receivingChainKey := Some ck', receiveCount := receiveCount st + 1\<rparr>"
proof -
  from assms obtain ck where ck: "receivingChainKey st = Some ck"
    by (cases "receivingChainKey st") (simp_all add: receive_next_def sbind_def)
  from assms ck obtain y where y: "advanceChainKey S ck = Inr y"
    by (cases "advanceChainKey S ck") (simp_all add: receive_next_def sbind_def)
  then show thesis
    using that ck assms receive_next_eq [OF ck, of S "fst y" "snd y" msg] by (cases y) auto
qed

text \<open>The two shapes of a receipt on the working copy.\<close>

lemma decrypt_working_same:
  assumes "theirRatchetKey st = Some (dhPublicKey (header msg))"
  shows "decrypt_working S fresh msg st =
    sbind (skipMessageKeys S (messageNumber (header msg))) (\<lambda>_. receive_next S msg) st"
  using assms by (simp add: decrypt_working_def receive_next_def sbind_def isNewRatchetKey_def)

lemma decrypt_working_new:
  assumes "theirRatchetKey st \<noteq> Some (dhPublicKey (header msg))"
  shows "decrypt_working S fresh msg st =
    sbind (sbind (skipMessageKeys S (h_previousChainLength (header msg)))
             (\<lambda>_. dhRatchet S fresh (dhPublicKey (header msg)))) (\<lambda>_.
    sbind (skipMessageKeys S (messageNumber (header msg))) (\<lambda>_. receive_next S msg)) st"
proof -
  have "isNewRatchetKey st (header msg)"
    using assms by (auto simp: isNewRatchetKey_def split: option.split)
  then show ?thesis by (simp add: decrypt_working_def receive_next_def sbind_def)
qed

end
