(* ===== verification/Identity.thy ===== *)
theory Identity
  imports Sodium Base64
begin

section \<open>Identities and signed messages (\<open>crypto/identity.ts\<close>)\<close>

text \<open>
  Every signature an identity makes covers a byte string that starts with the domain of its
  purpose. The builders of those byte strings, the operations that sign and verify them, and the
  derivation of the account id are modelled one definition per function. Buffers that the code
  allocates to the exact size and fills from the left are concatenations.
\<close>

definition ACCOUNT_DOMAIN :: string where "ACCOUNT_DOMAIN = ''shatters-account-v1''"
definition SIGNED_PREKEY_DOMAIN :: string where "SIGNED_PREKEY_DOMAIN = ''shatters-spk-v1''"
definition AUTH_DOMAIN :: string where "AUTH_DOMAIN = ''shatters-auth-v1''"
definition IDENTITY_DH_DOMAIN :: string where "IDENTITY_DH_DOMAIN = ''shatters-idk-v1''"

record Identity =
  signing :: KeyPair
  dh :: KeyPair

record SignedPrekey =
  spk_id :: nat
  spk_publicKey :: bytes
  spk_signature :: bytes

text \<open>The two pairs the generators return are the arguments.\<close>

definition generateIdentity :: "KeyPair \<Rightarrow> KeyPair \<Rightarrow> Identity" where
  "generateIdentity signPair kxPair = \<lparr>signing = signPair, dh = kxPair\<rparr>"

definition accountId :: "sodium \<Rightarrow> bytes \<Rightarrow> string" where
  "accountId S identityPublicKey =
     toBase64Url (hash_sha256 S (utf8_encode ACCOUNT_DOMAIN @ identityPublicKey))"

definition signDetached :: "sodium \<Rightarrow> bytes \<Rightarrow> bytes \<Rightarrow> bytes result" where
  "signDetached S privKey message = of_option SodiumError (sign_detached S message privKey)"

definition authProofMessage :: "bytes \<Rightarrow> bytes" where
  "authProofMessage nonce = utf8_encode AUTH_DOMAIN @ nonce"

definition createAuthProof :: "sodium \<Rightarrow> bytes \<Rightarrow> bytes \<Rightarrow> bytes result" where
  "createAuthProof S signingPrivateKey nonce = signDetached S signingPrivateKey (authProofMessage nonce)"

definition identityDhMessage :: "bytes \<Rightarrow> bytes" where
  "identityDhMessage dhPublicKey = utf8_encode IDENTITY_DH_DOMAIN @ dhPublicKey"

definition signIdentityDhKey :: "sodium \<Rightarrow> Identity \<Rightarrow> bytes result" where
  "signIdentityDhKey S identity =
     signDetached S (privateKey (signing identity)) (identityDhMessage (publicKey (dh identity)))"

definition verifyIdentityDhKey :: "sodium \<Rightarrow> bytes \<Rightarrow> bytes \<Rightarrow> bytes \<Rightarrow> bool result" where
  "verifyIdentityDhKey S identityKey dhKey signature =
     of_option SodiumError (sign_verify S signature (identityDhMessage dhKey) identityKey)"

definition signedPrekeyMessage :: "bytes \<Rightarrow> nat \<Rightarrow> bytes" where
  "signedPrekeyMessage pubKey keyId = utf8_encode SIGNED_PREKEY_DOMAIN @ pubKey @ u32be keyId"

definition createSignedPrekey :: "sodium \<Rightarrow> bytes \<Rightarrow> nat \<Rightarrow> KeyPair \<Rightarrow> SignedPrekey result" where
  "createSignedPrekey S signingPrivateKey keyId spk =
     rbind (signDetached S signingPrivateKey (signedPrekeyMessage (publicKey spk) keyId)) (\<lambda>signature.
     Inr \<lparr>spk_id = keyId, spk_publicKey = publicKey spk, spk_signature = signature\<rparr>)"

definition verifySignedPrekey :: "sodium \<Rightarrow> bytes \<Rightarrow> SignedPrekey \<Rightarrow> bool result" where
  "verifySignedPrekey S identityKey prekey =
     of_option SodiumError
       (sign_verify S (spk_signature prekey)
          (signedPrekeyMessage (spk_publicKey prekey) (spk_id prekey)) identityKey)"

lemmas domain_defs = ACCOUNT_DOMAIN_def SIGNED_PREKEY_DOMAIN_def AUTH_DOMAIN_def IDENTITY_DH_DOMAIN_def

lemmas signed_message_defs = authProofMessage_def identityDhMessage_def signedPrekeyMessage_def

text \<open>An identity as \<open>generateIdentity\<close> makes it.\<close>

definition identity_ok :: "sodium \<Rightarrow> Identity \<Rightarrow> bool" where
  "identity_ok S i \<longleftrightarrow> sign_pair S (signing i) \<and> kx_pair S (dh i)"

subsection \<open>What a signature covers\<close>

text \<open>
  The three domains are ASCII and no one is a prefix of another, so the byte strings of two
  purposes differ at a position both reach.
\<close>

lemma take_utf8_append: "take (length d) (utf8_encode d @ x) = utf8_encode d"
  by simp

lemma domain_bytes:
  "utf8_encode AUTH_DOMAIN = [115,104,97,116,116,101,114,115,45,97,117,116,104,45,118,49]"
  "utf8_encode SIGNED_PREKEY_DOMAIN = [115,104,97,116,116,101,114,115,45,115,112,107,45,118,49]"
  "utf8_encode IDENTITY_DH_DOMAIN = [115,104,97,116,116,101,114,115,45,105,100,107,45,118,49]"
  by (simp_all add: domain_defs utf8_encode_def)

lemma auth_neq_prekey: "authProofMessage nonce \<noteq> signedPrekeyMessage pk keyId"
  by (simp add: signed_message_defs domain_bytes)

lemma auth_neq_identityDh: "authProofMessage nonce \<noteq> identityDhMessage k"
  by (simp add: signed_message_defs domain_bytes)

lemma prekey_neq_identityDh: "signedPrekeyMessage pk keyId \<noteq> identityDhMessage k"
  by (simp add: signed_message_defs domain_bytes)

lemma signedPrekeyMessage_inject:
  assumes "keyId < 2 ^ 32" "keyId2 < 2 ^ 32"
  shows "signedPrekeyMessage pk keyId = signedPrekeyMessage pk' keyId2 \<longleftrightarrow> pk = pk' \<and> keyId = keyId2"
  using u32be_eq_iff [OF assms] by (auto simp: signedPrekeyMessage_def)

lemma createSignedPrekey_verifies:
  assumes "sign_law S" "sign_pair S kp"
  obtains spk where "createSignedPrekey S (privateKey kp) keyId fresh = Inr spk"
    "spk_id spk = keyId" "spk_publicKey spk = publicKey fresh"
    "verifySignedPrekey S (publicKey kp) spk = Inr True"
proof -
  obtain s where s: "sign_detached S (signedPrekeyMessage (publicKey fresh) keyId) (privateKey kp) = Some s"
    "sign_verify S s (signedPrekeyMessage (publicKey fresh) keyId) (publicKey kp) = Some True"
    using sign_lawD [OF assms] by metis
  show thesis
    by (rule that [of "\<lparr>spk_id = keyId, spk_publicKey = publicKey fresh, spk_signature = s\<rparr>"])
      (simp_all add: createSignedPrekey_def signDetached_def verifySignedPrekey_def s)
qed

lemma signIdentityDhKey_verifies:
  assumes "sign_law S" "identity_ok S i"
  obtains s where "signIdentityDhKey S i = Inr s"
    "verifyIdentityDhKey S (publicKey (signing i)) (publicKey (dh i)) s = Inr True"
  using assms sign_lawD [OF assms(1), of "signing i"]
  by (metis identity_ok_def of_option_simps(2) signDetached_def signIdentityDhKey_def verifyIdentityDhKey_def)

lemma length_accountId: "sha256_law S \<Longrightarrow> length (accountId S k) = 43"
  by (simp add: accountId_def length_toBase64Url sha256_law_def)

lemma accountId_chars: "list_all is_account_char (accountId S k)"
  by (simp add: accountId_def toBase64Url_chars)

definition demo_identity :: "byte \<Rightarrow> Identity" where
  "demo_identity b = generateIdentity (demo_sign_pair b) (demo_pair b)"

lemma demo_identity_ok [simp]: "identity_ok demo_sodium (demo_identity b)"
  by (simp add: identity_ok_def demo_identity_def generateIdentity_def)

subsection \<open>Properties\<close>

text \<open>
  Domain separation: no byte string an identity signs for one purpose (login challenge,
  signed prekey, identity DH key) is a byte string it signs for another, so a signature obtained
  for one cannot be presented as another. Within the prekey purpose the signed bytes determine
  both the key and its 32-bit id.
\<close>

theorem signature_domains_disjoint:
  "authProofMessage nonce \<noteq> signedPrekeyMessage pk keyId \<and>
   authProofMessage nonce \<noteq> identityDhMessage k \<and>
   signedPrekeyMessage pk keyId \<noteq> identityDhMessage k \<and>
   (keyId < 2 ^ 32 \<and> keyId2 < 2 ^ 32 \<and> signedPrekeyMessage pk keyId = signedPrekeyMessage pk2 keyId2
      \<longrightarrow> pk = pk2 \<and> keyId = keyId2)"
  using auth_neq_prekey auth_neq_identityDh prekey_neq_identityDh signedPrekeyMessage_inject by blast

theorem signature_domains_disjoint_witness:
  "authProofMessage [1] \<noteq> signedPrekeyMessage [2] 3 \<and> signedPrekeyMessage [2] 3 \<noteq> signedPrekeyMessage [2] 4"
  using signature_domains_disjoint [of "[1]" "[2]" 3 "[]" 4 "[2]"] by auto

text \<open>
  Claim C31. An account id is 43 characters of the URL-safe base64 alphabet for every identity key,
  so it can be put into a path or used as a record name without escaping.
\<close>

theorem accountId_wellformed:
  "sha256_law S \<Longrightarrow> length (accountId S k) = 43 \<and> list_all is_account_char (accountId S k)"
  by (simp add: length_accountId accountId_chars)

theorem accountId_wellformed_witness:
  "length (accountId demo_sodium [5]) = 43 \<and> list_all is_account_char (accountId demo_sodium [5])"
  using accountId_wellformed [OF demo_sha256_law] by blast

end
