(* ===== verification/X3DH.thy ===== *)
theory X3DH
  imports Identity Kdf
begin

section \<open>X3DH key agreement (\<open>crypto/x3dh.ts\<close>)\<close>

text \<open>
  Both halves of the handshake. The initiator checks the sizes of the bundle's keys, then both
  signatures, then runs three or four Diffie-Hellman steps with a fresh ephemeral pair (an
  argument here). The responder checks sizes and that the header and the supplied prekeys agree
  about the one-time prekey, then runs the mirrored steps. Every early exit of the source is a
  branch with its message.
\<close>

definition X3DH_DOMAIN :: string where "X3DH_DOMAIN = ''shatters-x3dh-v1''"

definition KEY_LENGTH :: nat where "KEY_LENGTH = 32"

record PrekeyBundle =
  bundle_identityKey :: bytes
  bundle_identityDhKey :: bytes
  bundle_identityDhSignature :: bytes
  bundle_signedPrekey :: SignedPrekey
  bundle_oneTimePrekey :: "(nat \<times> bytes) option"

record InitialMessageHeader =
  h_identityKey :: bytes
  h_identityDhKey :: bytes
  h_ephemeralKey :: bytes
  h_signedPrekeyId :: nat
  h_oneTimePrekeyId :: "nat option"

record InitiatorSession =
  is_sharedSecret :: bytes
  is_header :: InitialMessageHeader
  is_associatedData :: bytes

record ResponderSession =
  rs_sharedSecret :: bytes
  rs_associatedData :: bytes

record ResponderPrekeys =
  signedPrekeyPrivate :: bytes
  oneTimePrekeyPrivate :: "bytes option"

definition x3dh_assertKey :: "string \<Rightarrow> bytes \<Rightarrow> unit result" where
  "x3dh_assertKey name key =
     require (length key = KEY_LENGTH)
       (X3DHError (name @ '': expected 32 bytes, got '' @ show_nat (length key)))"

definition associatedData :: "bytes \<Rightarrow> bytes \<Rightarrow> bytes" where
  "associatedData initiatorIdentityKey responderIdentityKey = initiatorIdentityKey @ responderIdentityKey"

text \<open>
  \<open>F || DH1 || ...\<close>: the \<open>i\<close>-th output is written at \<open>32 + 32 * i\<close> of a buffer with room for
  32 bytes each, so an output of another size is a \<open>RangeError\<close> or leaves a gap; the writes are
  kept as writes.
\<close>

fun ikm_fill :: "bytes \<Rightarrow> nat \<Rightarrow> bytes list \<Rightarrow> bytes result" where
  "ikm_fill ikm i [] = Inr ikm"
| "ikm_fill ikm i (d # ds) =
     rbind (u8_set ikm d (KEY_LENGTH + i * KEY_LENGTH)) (\<lambda>ikm'. ikm_fill ikm' (Suc i) ds)"

definition deriveSecret :: "sodium \<Rightarrow> bytes list \<Rightarrow> bytes result" where
  "deriveSecret S dhs =
     rbind (ikm_fill (replicate KEY_LENGTH 255 @ replicate (length dhs * KEY_LENGTH) 0) 0 dhs) (\<lambda>ikm.
     hkdfSha256 S ikm (replicate HASH_LENGTH 0) X3DH_DOMAIN KEY_LENGTH)"

definition x3dh_dh :: "sodium \<Rightarrow> bytes \<Rightarrow> bytes \<Rightarrow> bytes result" where
  "x3dh_dh S priv pub = of_option SodiumError (scalarmult S priv pub)"

definition initiateX3DH ::
  "sodium \<Rightarrow> Identity \<Rightarrow> PrekeyBundle \<Rightarrow> KeyPair \<Rightarrow> InitiatorSession result" where
  "initiateX3DH S ourIdentity bundle ephemeral =
     rbind (x3dh_assertKey ''bundle.identityKey'' (bundle_identityKey bundle)) (\<lambda>_.
     rbind (x3dh_assertKey ''bundle.identityDhKey'' (bundle_identityDhKey bundle)) (\<lambda>_.
     rbind (x3dh_assertKey ''bundle.signedPrekey.publicKey'' (spk_publicKey (bundle_signedPrekey bundle))) (\<lambda>_.
     rbind (case bundle_oneTimePrekey bundle of None \<Rightarrow> Inr ()
            | Some (_, pub) \<Rightarrow> x3dh_assertKey ''bundle.oneTimePrekey.publicKey'' pub) (\<lambda>_.
     rbind (verifySignedPrekey S (bundle_identityKey bundle) (bundle_signedPrekey bundle)) (\<lambda>spkOk.
     rbind (require spkOk (X3DHError ''bundle signed prekey signature does not verify'')) (\<lambda>_.
     rbind (verifyIdentityDhKey S (bundle_identityKey bundle) (bundle_identityDhKey bundle)
              (bundle_identityDhSignature bundle)) (\<lambda>idkOk.
     rbind (require idkOk (X3DHError ''bundle identity DH key signature does not verify'')) (\<lambda>_.
     rbind (x3dh_dh S (privateKey (dh ourIdentity)) (spk_publicKey (bundle_signedPrekey bundle))) (\<lambda>dh1.
     rbind (x3dh_dh S (privateKey ephemeral) (bundle_identityDhKey bundle)) (\<lambda>dh2.
     rbind (x3dh_dh S (privateKey ephemeral) (spk_publicKey (bundle_signedPrekey bundle))) (\<lambda>dh3.
     rbind (case bundle_oneTimePrekey bundle of None \<Rightarrow> Inr []
            | Some (_, pub) \<Rightarrow> rbind (x3dh_dh S (privateKey ephemeral) pub) (\<lambda>dh4. Inr [dh4])) (\<lambda>dh4s.
     rbind (deriveSecret S ([dh1, dh2, dh3] @ dh4s)) (\<lambda>secret.
     Inr \<lparr>is_sharedSecret = secret,
          is_header = \<lparr>h_identityKey = publicKey (signing ourIdentity),
                       h_identityDhKey = publicKey (dh ourIdentity),
                       h_ephemeralKey = publicKey ephemeral,
                       h_signedPrekeyId = spk_id (bundle_signedPrekey bundle),
                       h_oneTimePrekeyId = map_option fst (bundle_oneTimePrekey bundle)\<rparr>,
          is_associatedData = associatedData (publicKey (signing ourIdentity)) (bundle_identityKey bundle)\<rparr>
     )))))))))))))"

definition respondX3DH ::
  "sodium \<Rightarrow> Identity \<Rightarrow> ResponderPrekeys \<Rightarrow> InitialMessageHeader \<Rightarrow> ResponderSession result" where
  "respondX3DH S ourIdentity prekeys header =
     rbind (x3dh_assertKey ''header.identityKey'' (h_identityKey header)) (\<lambda>_.
     rbind (x3dh_assertKey ''header.identityDhKey'' (h_identityDhKey header)) (\<lambda>_.
     rbind (x3dh_assertKey ''header.ephemeralKey'' (h_ephemeralKey header)) (\<lambda>_.
     rbind (x3dh_assertKey ''prekeys.signedPrekeyPrivate'' (signedPrekeyPrivate prekeys)) (\<lambda>_.
     rbind (require ((h_oneTimePrekeyId header \<noteq> None) = (oneTimePrekeyPrivate prekeys \<noteq> None))
              (X3DHError ''one-time prekey mismatch between message header and supplied prekeys'')) (\<lambda>_.
     rbind (case oneTimePrekeyPrivate prekeys of None \<Rightarrow> Inr ()
            | Some priv \<Rightarrow> x3dh_assertKey ''prekeys.oneTimePrekeyPrivate'' priv) (\<lambda>_.
     rbind (x3dh_dh S (signedPrekeyPrivate prekeys) (h_identityDhKey header)) (\<lambda>dh1.
     rbind (x3dh_dh S (privateKey (dh ourIdentity)) (h_ephemeralKey header)) (\<lambda>dh2.
     rbind (x3dh_dh S (signedPrekeyPrivate prekeys) (h_ephemeralKey header)) (\<lambda>dh3.
     rbind (case oneTimePrekeyPrivate prekeys of None \<Rightarrow> Inr []
            | Some priv \<Rightarrow> rbind (x3dh_dh S priv (h_ephemeralKey header)) (\<lambda>dh4. Inr [dh4])) (\<lambda>dh4s.
     rbind (deriveSecret S ([dh1, dh2, dh3] @ dh4s)) (\<lambda>secret.
     Inr \<lparr>rs_sharedSecret = secret,
          rs_associatedData = associatedData (h_identityKey header) (publicKey (signing ourIdentity))\<rparr>
     )))))))))))"

subsection \<open>The input keying material\<close>

lemma ikm_fill_correct:
  assumes "\<forall>d\<in>set ds. length d = 32" "length w = 32 + i * 32"
  shows "ikm_fill (w @ replicate (length ds * 32) 0) i ds = Inr (w @ concat ds)"
  using assms
proof (induction ds arbitrary: i w)
  case (Cons d ds)
  have "u8_set (w @ replicate (32 + length ds * 32) 0) d (32 + i * 32) = Inr (w @ d @ replicate (length ds * 32) 0)"
    by (rule u8_set_next) (use Cons.prems in auto)
  then show ?case
    using Cons.IH [of "w @ d" "Suc i"] Cons.prems by (simp add: KEY_LENGTH_def)
qed simp

lemma deriveSecret_hkdf:
  assumes "\<forall>d\<in>set dhs. length d = 32"
  shows "deriveSecret S dhs = hkdfSha256 S (replicate 32 255 @ concat dhs) (replicate 32 0) X3DH_DOMAIN 32"
  using ikm_fill_correct [OF assms, of "replicate 32 255" 0]
  by (simp add: deriveSecret_def KEY_LENGTH_def HASH_LENGTH_def)

lemma deriveSecret_ok:
  assumes "hmac_law S" "\<forall>d\<in>set dhs. length d = 32"
  obtains sk where "deriveSecret S dhs = Inr sk" "length sk = 32"
proof -
  obtain out where "hkdfSha256 S (replicate 32 255 @ concat dhs) (replicate 32 0) X3DH_DOMAIN 32 = Inr out"
    "length out = 32"
    by (rule hkdfSha256_ok [OF assms(1), of "replicate 32 0" 32]) auto
  then show thesis using that deriveSecret_hkdf [OF assms(2)] by metis
qed

subsection \<open>Agreement\<close>

text \<open>The bundle an honest responder publishes, and the private halves it keeps.\<close>

definition honest_bundle ::
  "sodium \<Rightarrow> Identity \<Rightarrow> nat \<Rightarrow> KeyPair \<Rightarrow> (nat \<times> KeyPair) option \<Rightarrow> PrekeyBundle \<Rightarrow> bool" where
  "honest_bundle S who spkId spk opk bundle \<longleftrightarrow>
     bundle_identityKey bundle = publicKey (signing who) \<and>
     bundle_identityDhKey bundle = publicKey (dh who) \<and>
     signIdentityDhKey S who = Inr (bundle_identityDhSignature bundle) \<and>
     createSignedPrekey S (privateKey (signing who)) spkId spk = Inr (bundle_signedPrekey bundle) \<and>
     bundle_oneTimePrekey bundle = map_option (\<lambda>(i, kp). (i, publicKey kp)) opk"

definition prekeys_of :: "KeyPair \<Rightarrow> (nat \<times> KeyPair) option \<Rightarrow> ResponderPrekeys" where
  "prekeys_of spk opk =
     \<lparr>signedPrekeyPrivate = privateKey spk, oneTimePrekeyPrivate = map_option (\<lambda>(i, kp). privateKey kp) opk\<rparr>"

definition crypto_laws :: "sodium \<Rightarrow> bool" where
  "crypto_laws S \<longleftrightarrow> hmac_law S \<and> sha256_law S \<and> dh_law S \<and> aead_law S \<and> sign_law S"

lemma crypto_lawsD:
  assumes "crypto_laws S"
  shows "hmac_law S" "sha256_law S" "dh_law S" "aead_law S" "sign_law S"
  using assms by (simp_all add: crypto_laws_def)

lemma demo_crypto_laws: "crypto_laws demo_sodium"
  by (simp add: crypto_laws_def demo_laws)

text \<open>An honest bundle passes every check of the initiator.\<close>

lemma honest_bundle_checks:
  assumes laws: "crypto_laws S" and who: "identity_ok S who" and spk: "kx_pair S spk"
    and opk: "\<And>i kp. opk = Some (i, kp) \<Longrightarrow> kx_pair S kp"
    and b: "honest_bundle S who spkId spk opk bundle"
  shows "length (bundle_identityKey bundle) = 32" "length (bundle_identityDhKey bundle) = 32"
    "spk_publicKey (bundle_signedPrekey bundle) = publicKey spk" "length (publicKey spk) = 32"
    "spk_id (bundle_signedPrekey bundle) = spkId"
    "verifySignedPrekey S (bundle_identityKey bundle) (bundle_signedPrekey bundle) = Inr True"
    "verifyIdentityDhKey S (bundle_identityKey bundle) (bundle_identityDhKey bundle)
       (bundle_identityDhSignature bundle) = Inr True"
    "\<And>i pub. bundle_oneTimePrekey bundle = Some (i, pub) \<Longrightarrow> length pub = 32"
proof -
  note L = crypto_lawsD [OF laws]
  have sp: "sign_pair S (signing who)" and kp: "kx_pair S (dh who)"
    using who by (simp_all add: identity_ok_def)
  show "length (bundle_identityKey bundle) = 32"
    using sign_lawD [OF L(5) sp] b unfolding honest_bundle_def by metis
  show "length (bundle_identityDhKey bundle) = 32"
    using kx_pair_public_length [OF L(3) kp] b by (simp add: honest_bundle_def)
  show "length (publicKey spk) = 32" by (rule kx_pair_public_length [OF L(3) spk])
  obtain q where q: "createSignedPrekey S (privateKey (signing who)) spkId spk = Inr q" "spk_id q = spkId"
    "spk_publicKey q = publicKey spk" "verifySignedPrekey S (publicKey (signing who)) q = Inr True"
    using createSignedPrekey_verifies [OF L(5) sp, of spkId spk] by metis
  then have "q = bundle_signedPrekey bundle" using b by (simp add: honest_bundle_def)
  with q b show "spk_publicKey (bundle_signedPrekey bundle) = publicKey spk"
    "spk_id (bundle_signedPrekey bundle) = spkId"
    "verifySignedPrekey S (bundle_identityKey bundle) (bundle_signedPrekey bundle) = Inr True"
    by (simp_all add: honest_bundle_def)
  show "verifyIdentityDhKey S (bundle_identityKey bundle) (bundle_identityDhKey bundle)
       (bundle_identityDhSignature bundle) = Inr True"
    using signIdentityDhKey_verifies [OF L(5) who] b unfolding honest_bundle_def by (metis sum.inject(2))
  show "length pub = 32" if otk: "bundle_oneTimePrekey bundle = Some (i, pub)" for i pub
  proof -
    obtain kp where "opk = Some (i, kp)" "pub = publicKey kp"
      using otk b by (cases opk) (auto simp: honest_bundle_def)
    then show ?thesis using opk kx_pair_public_length [OF L(3)] by simp
  qed
qed

text \<open>The optional fourth step comes out the same on both sides.\<close>

lemma dh4_agree:
  assumes dh: "dh_law S" and eph: "kx_pair S eph"
    and opk: "\<And>i kp. opk = Some (i, kp) \<Longrightarrow> kx_pair S kp"
  obtains z4 where "\<forall>d\<in>set z4. length d = 32"
    "(case map_option (\<lambda>(i, kp). (i, publicKey kp)) opk of None \<Rightarrow> Inr []
      | Some (i, pub) \<Rightarrow> rbind (x3dh_dh S (privateKey eph) pub) (\<lambda>d. Inr [d])) = Inr z4"
    "(case map_option (\<lambda>(i, kp). privateKey kp) opk of None \<Rightarrow> Inr []
      | Some priv \<Rightarrow> rbind (x3dh_dh S priv (publicKey eph)) (\<lambda>d. Inr [d])) = Inr z4"
    "(case map_option (\<lambda>(i, kp). privateKey kp) opk of None \<Rightarrow> Inr ()
      | Some priv \<Rightarrow> x3dh_assertKey ''prekeys.oneTimePrekeyPrivate'' priv) = Inr ()"
proof (cases opk)
  case None
  then show ?thesis using that [of "[]"] by simp
next
  case (Some p)
  obtain i kp where p: "p = (i, kp)" by (cases p)
  have kp: "kx_pair S kp" using opk Some p by simp
  obtain z where "scalarmult S (privateKey kp) (publicKey eph) = Some z"
    "scalarmult S (privateKey eph) (publicKey kp) = Some z" "length z = 32"
    using dh_lawD [OF dh kp eph] .
  then show ?thesis
    using that [of "[z]"] kp by (simp add: Some p x3dh_dh_def x3dh_assertKey_def KEY_LENGTH_def kx_pair_def)
qed

lemma x3dh_agreement_lemma:
  assumes laws: "crypto_laws S" and a: "identity_ok S alice" and bo: "identity_ok S bob"
    and spk: "kx_pair S spk" and eph: "kx_pair S eph"
    and opk: "\<And>i kp. opk = Some (i, kp) \<Longrightarrow> kx_pair S kp"
    and b: "honest_bundle S bob spkId spk opk bundle"
  obtains ses rs where "initiateX3DH S alice bundle eph = Inr ses"
    "respondX3DH S bob (prekeys_of spk opk) (is_header ses) = Inr rs"
    "rs_sharedSecret rs = is_sharedSecret ses" "rs_associatedData rs = is_associatedData ses"
    "length (is_sharedSecret ses) = 32"
    "is_header ses = \<lparr>h_identityKey = publicKey (signing alice), h_identityDhKey = publicKey (dh alice),
       h_ephemeralKey = publicKey eph, h_signedPrekeyId = spkId, h_oneTimePrekeyId = map_option fst opk\<rparr>"
proof -
  note L = crypto_lawsD [OF laws] and H = honest_bundle_checks [OF laws bo spk opk b]
  have akp: "kx_pair S (dh alice)" "sign_pair S (signing alice)" and bkp: "kx_pair S (dh bob)"
    using a bo by (simp_all add: identity_ok_def)
  obtain z1 where z1: "scalarmult S (privateKey (dh alice)) (publicKey spk) = Some z1"
    "scalarmult S (privateKey spk) (publicKey (dh alice)) = Some z1" "length z1 = 32"
    using dh_lawD [OF L(3) akp(1) spk] .
  obtain z2 where z2: "scalarmult S (privateKey eph) (publicKey (dh bob)) = Some z2"
    "scalarmult S (privateKey (dh bob)) (publicKey eph) = Some z2" "length z2 = 32"
    using dh_lawD [OF L(3) eph bkp] .
  obtain z3 where z3: "scalarmult S (privateKey eph) (publicKey spk) = Some z3"
    "scalarmult S (privateKey spk) (publicKey eph) = Some z3" "length z3 = 32"
    using dh_lawD [OF L(3) eph spk] .
  have lens: "length (publicKey (signing alice)) = 32" "length (publicKey (dh alice)) = 32"
    "length (publicKey eph) = 32" "length (privateKey spk) = 32"
    using sign_lawD [OF L(5) akp(2)] kx_pair_public_length [OF L(3)] akp eph spk
    by (metis, simp_all add: kx_pair_def)
  have ids: "bundle_identityKey bundle = publicKey (signing bob)" "bundle_identityDhKey bundle = publicKey (dh bob)"
    "bundle_oneTimePrekey bundle = map_option (\<lambda>(i, kp). (i, publicKey kp)) opk"
    using b by (simp_all add: honest_bundle_def)
  obtain z4 where z4: "\<forall>d\<in>set z4. length d = 32"
    "(case map_option (\<lambda>(i, kp). (i, publicKey kp)) opk of None \<Rightarrow> Inr []
      | Some (i, pub) \<Rightarrow> rbind (x3dh_dh S (privateKey eph) pub) (\<lambda>d. Inr [d])) = Inr z4"
    "(case map_option (\<lambda>(i, kp). privateKey kp) opk of None \<Rightarrow> Inr []
      | Some priv \<Rightarrow> rbind (x3dh_dh S priv (publicKey eph)) (\<lambda>d. Inr [d])) = Inr z4"
    "(case map_option (\<lambda>(i, kp). privateKey kp) opk of None \<Rightarrow> Inr ()
      | Some priv \<Rightarrow> x3dh_assertKey ''prekeys.oneTimePrekeyPrivate'' priv) = Inr ()"
    using dh4_agree [OF L(3) eph opk] .
  have size: "(case bundle_oneTimePrekey bundle of None \<Rightarrow> Inr ()
      | Some (i, pub) \<Rightarrow> x3dh_assertKey ''bundle.oneTimePrekey.publicKey'' pub) = Inr ()"
    using H(8) by (auto simp: x3dh_assertKey_def KEY_LENGTH_def split: option.split)
  obtain sk where sk: "deriveSecret S ([z1, z2, z3] @ z4) = Inr sk" "length sk = 32"
    by (rule deriveSecret_ok [OF L(1), of "[z1, z2, z3] @ z4"]) (use z1(3) z2(3) z3(3) z4(1) in auto)
  let ?h = "\<lparr>h_identityKey = publicKey (signing alice), h_identityDhKey = publicKey (dh alice),
       h_ephemeralKey = publicKey eph, h_signedPrekeyId = spkId, h_oneTimePrekeyId = map_option fst opk\<rparr>"
  let ?ad = "associatedData (publicKey (signing alice)) (publicKey (signing bob))"
  have header: "map_option fst (map_option (\<lambda>(i, kp). (i, publicKey kp)) opk) = map_option fst opk"
    by (cases opk) auto
  have "initiateX3DH S alice bundle eph = Inr \<lparr>is_sharedSecret = sk, is_header = ?h, is_associatedData = ?ad\<rparr>"
    unfolding initiateX3DH_def size unfolding ids(3) z4(2)
    using H(1-7) z1(1) z2(1) z3(1) sk(1) header
    by (simp add: x3dh_assertKey_def KEY_LENGTH_def x3dh_dh_def ids(1,2))
  moreover have "respondX3DH S bob (prekeys_of spk opk) ?h
      = Inr \<lparr>rs_sharedSecret = sk, rs_associatedData = ?ad\<rparr>"
    unfolding respondX3DH_def prekeys_of_def ResponderPrekeys.select_convs
      InitialMessageHeader.select_convs z4(3,4)
    using lens z1(2) z2(2) z3(2) sk(1) by (simp add: x3dh_assertKey_def KEY_LENGTH_def x3dh_dh_def)
  ultimately show thesis using that sk(2) by simp
qed

subsection \<open>What a successful initiation has checked\<close>

lemma initiateX3DH_checks:
  assumes "initiateX3DH S me bundle eph = Inr ses"
  shows "verifySignedPrekey S (bundle_identityKey bundle) (bundle_signedPrekey bundle) = Inr True"
    "verifyIdentityDhKey S (bundle_identityKey bundle) (bundle_identityDhKey bundle)
       (bundle_identityDhSignature bundle) = Inr True"
    "length (bundle_identityKey bundle) = 32" "length (bundle_identityDhKey bundle) = 32"
  using assms by (auto simp: initiateX3DH_def rbind_eq_Inr x3dh_assertKey_def KEY_LENGTH_def)

definition opk_ok :: "sodium \<Rightarrow> (nat \<times> KeyPair) option \<Rightarrow> bool" where
  "opk_ok S opk \<longleftrightarrow> (case opk of None \<Rightarrow> True | Some (_, kp) \<Rightarrow> kx_pair S kp)"

text \<open>A concrete bundle, as its owner would publish it.\<close>

definition demo_bundle :: PrekeyBundle where
  "demo_bundle =
     \<lparr>bundle_identityKey = replicate 32 2, bundle_identityDhKey = replicate 32 2,
      bundle_identityDhSignature = replicate 32 2 @ replicate 32 (sum_bytes (identityDhMessage (replicate 32 2))),
      bundle_signedPrekey =
        \<lparr>spk_id = 1, spk_publicKey = replicate 32 4,
         spk_signature = replicate 32 2 @ replicate 32 (sum_bytes (signedPrekeyMessage (replicate 32 4) 1))\<rparr>,
      bundle_oneTimePrekey = Some (7, replicate 32 8)\<rparr>"

lemma demo_bundle_honest:
  "honest_bundle demo_sodium (demo_identity 2) 1 (demo_pair 4) (Some (7, demo_pair 8)) demo_bundle"
  by (simp add: honest_bundle_def demo_bundle_def demo_identity_def generateIdentity_def demo_sign_pair_def
      demo_pair_def signIdentityDhKey_def createSignedPrekey_def signDetached_def demo_sodium_def demo_sign_def)

subsection \<open>Properties\<close>

text \<open>
  X3DH agreement: against a bundle its owner published, with or without a one-time
  prekey, the initiator never fails, and the responder that reads the initiator's header derives
  the same 32-byte secret and the same associated data.
\<close>

theorem x3dh_agreement:
  assumes "crypto_laws S" "identity_ok S alice" "identity_ok S bob" "kx_pair S spk" "kx_pair S eph"
    "opk_ok S opk" "honest_bundle S bob spkId spk opk bundle"
  shows "\<exists>ses rs. initiateX3DH S alice bundle eph = Inr ses \<and>
     respondX3DH S bob (prekeys_of spk opk) (is_header ses) = Inr rs \<and>
     rs_sharedSecret rs = is_sharedSecret ses \<and> rs_associatedData rs = is_associatedData ses \<and>
     length (is_sharedSecret ses) = 32"
proof -
  have opk: "\<And>i kp. opk = Some (i, kp) \<Longrightarrow> kx_pair S kp" using assms(6) by (simp add: opk_ok_def)
  show ?thesis by (rule x3dh_agreement_lemma [OF assms(1-5) _ assms(7)]) (use opk in auto)
qed

theorem x3dh_agreement_witness:
  "\<exists>ses rs. initiateX3DH demo_sodium (demo_identity 1) demo_bundle (demo_pair 3) = Inr ses \<and>
     respondX3DH demo_sodium (demo_identity 2) (prekeys_of (demo_pair 4) (Some (7, demo_pair 8))) (is_header ses)
       = Inr rs \<and> rs_sharedSecret rs = is_sharedSecret ses"
  using x3dh_agreement [OF demo_crypto_laws, of "demo_identity 1" "demo_identity 2" "demo_pair 4" "demo_pair 3"
      "Some (7, demo_pair 8)" 1 demo_bundle] demo_bundle_honest
  by (auto simp: opk_ok_def)

text \<open>
  Claim C16. A bundle is used only after both of its signatures have verified under its identity
  key: a secret is never derived from a prekey or a DH key the identity has not signed.
\<close>

theorem x3dh_initiation_authenticated:
  assumes "initiateX3DH S me bundle eph = Inr ses"
  shows "sign_verify S (spk_signature (bundle_signedPrekey bundle))
           (signedPrekeyMessage (spk_publicKey (bundle_signedPrekey bundle)) (spk_id (bundle_signedPrekey bundle)))
           (bundle_identityKey bundle) = Some True \<and>
         sign_verify S (bundle_identityDhSignature bundle) (identityDhMessage (bundle_identityDhKey bundle))
           (bundle_identityKey bundle) = Some True \<and>
         is_associatedData ses = publicKey (signing me) @ bundle_identityKey bundle"
  using initiateX3DH_checks [OF assms] assms
  by (auto simp: verifySignedPrekey_def verifyIdentityDhKey_def of_option_eq_Inr initiateX3DH_def rbind_eq_Inr
      associatedData_def)

theorem x3dh_initiation_authenticated_witness:
  "\<exists>ses. initiateX3DH demo_sodium (demo_identity 1) demo_bundle (demo_pair 3) = Inr ses \<and>
     is_associatedData ses = replicate 32 1 @ replicate 32 2"
proof -
  obtain ses where s: "initiateX3DH demo_sodium (demo_identity 1) demo_bundle (demo_pair 3) = Inr ses"
    by (rule x3dh_agreement_lemma [OF demo_crypto_laws, of "demo_identity 1" "demo_identity 2" "demo_pair 4"
          "demo_pair 3" "Some (7, demo_pair 8)" 1 demo_bundle])
       (use demo_bundle_honest in auto)
  then show ?thesis
    using x3dh_initiation_authenticated [OF s]
    by (simp add: demo_identity_def generateIdentity_def demo_sign_pair_def demo_bundle_def)
qed

end
