(* ===== verification/Envelope.thy ===== *)
theory Envelope
  imports Ratchet X3DH
begin

section \<open>Inner message wire format (\<open>crypto/envelope.ts\<close>)\<close>

text \<open>
  The sequential \<open>Writer\<close> and \<open>Reader\<close>, the two encoders and the decoder. The reader is an
  effect on its buffer and offset, so a read past the end is a thrown \<open>EnvelopeError\<close> that
  leaves the offset where it was.
\<close>

definition ENVELOPE_VERSION :: nat where "ENVELOPE_VERSION = 1"
definition MT_Initial :: nat where "MT_Initial = 1"
definition MT_Normal :: nat where "MT_Normal = 2"
definition E_KEY_LENGTH :: nat where "E_KEY_LENGTH = 32"

lemmas envelope_consts = ENVELOPE_VERSION_def MT_Initial_def MT_Normal_def E_KEY_LENGTH_def

record InnerMessage =
  im_type :: nat
  im_x3dh :: "InitialMessageHeader option"
  im_ratchet :: RatchetMessage

subsection \<open>Writer\<close>

type_synonym Writer = "bytes list"

definition w_u8 :: "nat \<Rightarrow> Writer \<Rightarrow> Writer" where
  "w_u8 v parts = parts @ [[of_nat v]]"

definition w_u32 :: "nat \<Rightarrow> Writer \<Rightarrow> Writer" where
  "w_u32 v parts = parts @ [u32be v]"

definition w_bytes :: "bytes \<Rightarrow> Writer \<Rightarrow> Writer" where
  "w_bytes b parts = parts @ [b]"

fun finish_loop :: "bytes \<Rightarrow> nat \<Rightarrow> bytes list \<Rightarrow> bytes result" where
  "finish_loop out offset [] = Inr out"
| "finish_loop out offset (part # parts) =
     rbind (u8_set out part offset) (\<lambda>out'. finish_loop out' (offset + length part) parts)"

definition w_finish :: "Writer \<Rightarrow> bytes result" where
  "w_finish parts = finish_loop (replicate (sum_list (map length parts)) 0) 0 parts"

subsection \<open>Reader\<close>

record Reader =
  r_buf :: bytes
  r_offset :: nat

definition r_require :: "nat \<Rightarrow> (Reader, unit) effect" where
  "r_require n = (\<lambda>r. if r_offset r + n > length (r_buf r)
                     then (r, Inl (EnvelopeError ''truncated message'')) else (r, Inr ()))"

definition r_u8 :: "(Reader, nat) effect" where
  "r_u8 = sbind (r_require 1) (\<lambda>_.
          sbind (sget (\<lambda>r. unat (r_buf r ! r_offset r))) (\<lambda>v.
          sbind (smodify (\<lambda>r. r\<lparr>r_offset := r_offset r + 1\<rparr>)) (\<lambda>_. sreturn v)))"

definition r_u32 :: "(Reader, nat) effect" where
  "r_u32 = sbind (r_require 4) (\<lambda>_.
           sbind (sget (\<lambda>r. u32_of (r_buf r ! r_offset r) (r_buf r ! (r_offset r + 1))
                              (r_buf r ! (r_offset r + 2)) (r_buf r ! (r_offset r + 3)))) (\<lambda>v.
           sbind (smodify (\<lambda>r. r\<lparr>r_offset := r_offset r + 4\<rparr>)) (\<lambda>_. sreturn v)))"

definition r_bytes :: "nat \<Rightarrow> (Reader, bytes) effect" where
  "r_bytes n = sbind (r_require n) (\<lambda>_.
               sbind (sget (\<lambda>r. take n (drop (r_offset r) (r_buf r)))) (\<lambda>v.
               sbind (smodify (\<lambda>r. r\<lparr>r_offset := r_offset r + n\<rparr>)) (\<lambda>_. sreturn v)))"

definition r_rest :: "(Reader, bytes) effect" where
  "r_rest = sbind (sget (\<lambda>r. drop (r_offset r) (r_buf r))) (\<lambda>v.
            sbind (smodify (\<lambda>r. r\<lparr>r_offset := length (r_buf r)\<rparr>)) (\<lambda>_. sreturn v))"

subsection \<open>Encoders\<close>

definition env_assertKey :: "string \<Rightarrow> bytes \<Rightarrow> unit result" where
  "env_assertKey name key =
     require (length key = E_KEY_LENGTH) (EnvelopeError (name @ '': expected 32 bytes''))"

definition writeRatchetHeader :: "Writer \<Rightarrow> MessageHeader \<Rightarrow> Writer result" where
  "writeRatchetHeader w h =
     rbind (env_assertKey ''ratchet header dhPublicKey'' (dhPublicKey h)) (\<lambda>_.
     Inr (w_u32 (messageNumber h) (w_u32 (h_previousChainLength h) (w_bytes (dhPublicKey h) w))))"

definition encodeInitialMessage :: "InitialMessageHeader \<Rightarrow> RatchetMessage \<Rightarrow> bytes result" where
  "encodeInitialMessage x3dh ratchet =
     rbind (env_assertKey ''identityKey'' (h_identityKey x3dh)) (\<lambda>_.
     rbind (env_assertKey ''identityDhKey'' (h_identityDhKey x3dh)) (\<lambda>_.
     rbind (env_assertKey ''ephemeralKey'' (h_ephemeralKey x3dh)) (\<lambda>_.
     let w = w_u8 (if h_oneTimePrekeyId x3dh = None then 0 else 1)
               (w_u32 (h_signedPrekeyId x3dh)
               (w_bytes (h_ephemeralKey x3dh)
               (w_bytes (h_identityDhKey x3dh)
               (w_bytes (h_identityKey x3dh)
               (w_u8 MT_Initial (w_u8 ENVELOPE_VERSION []))))));
         w = (case h_oneTimePrekeyId x3dh of None \<Rightarrow> w | Some otk \<Rightarrow> w_u32 otk w)
     in rbind (writeRatchetHeader w (header ratchet)) (\<lambda>w.
        w_finish (w_bytes (ciphertext ratchet) w)))))"

definition encodeNormalMessage :: "RatchetMessage \<Rightarrow> bytes result" where
  "encodeNormalMessage ratchet =
     rbind (writeRatchetHeader (w_u8 MT_Normal (w_u8 ENVELOPE_VERSION [])) (header ratchet)) (\<lambda>w.
     w_finish (w_bytes (ciphertext ratchet) w))"

subsection \<open>Decoder\<close>

definition read_x3dh :: "(Reader, InitialMessageHeader) effect" where
  "read_x3dh =
     sbind (r_bytes E_KEY_LENGTH) (\<lambda>identityKey.
     sbind (r_bytes E_KEY_LENGTH) (\<lambda>identityDhKey.
     sbind (r_bytes E_KEY_LENGTH) (\<lambda>ephemeralKey.
     sbind r_u32 (\<lambda>signedPrekeyId.
     sbind r_u8 (\<lambda>hasOneTimePrekey.
     sbind (slift (require (\<not> hasOneTimePrekey > 1) (EnvelopeError ''malformed one-time prekey flag''))) (\<lambda>_.
     sbind (if hasOneTimePrekey = 1 then sbind r_u32 (\<lambda>v. sreturn (Some v)) else sreturn None) (\<lambda>otk.
     sreturn \<lparr>h_identityKey = identityKey, h_identityDhKey = identityDhKey, h_ephemeralKey = ephemeralKey,
              h_signedPrekeyId = signedPrekeyId, h_oneTimePrekeyId = otk\<rparr>)))))))"

definition read_message :: "(Reader, InnerMessage) effect" where
  "read_message =
     sbind r_u8 (\<lambda>version.
     sbind (slift (require (version = ENVELOPE_VERSION)
              (EnvelopeError (''unsupported envelope version '' @ show_nat version)))) (\<lambda>_.
     sbind r_u8 (\<lambda>type.
     sbind (slift (require (\<not> (type \<noteq> MT_Initial \<and> type \<noteq> MT_Normal))
              (EnvelopeError (''unknown message type '' @ show_nat type)))) (\<lambda>_.
     sbind (if type = MT_Initial then sbind read_x3dh (\<lambda>h. sreturn (Some h)) else sreturn None) (\<lambda>x3dh.
     sbind (r_bytes E_KEY_LENGTH) (\<lambda>dhPub.
     sbind r_u32 (\<lambda>pn.
     sbind r_u32 (\<lambda>n.
     sbind r_rest (\<lambda>ct.
     sbind (slift (require (length ct \<noteq> 0) (EnvelopeError ''missing ciphertext''))) (\<lambda>_.
     sreturn \<lparr>im_type = type, im_x3dh = x3dh,
              im_ratchet = \<lparr>header = \<lparr>dhPublicKey = dhPub, h_previousChainLength = pn, messageNumber = n\<rparr>,
                            ciphertext = ct\<rparr>\<rparr>))))))))))"

definition decodeMessage :: "bytes \<Rightarrow> InnerMessage result" where
  "decodeMessage raw = snd (read_message \<lparr>r_buf = raw, r_offset = 0\<rparr>)"

subsection \<open>The writer concatenates\<close>

lemma finish_loop_concat:
  "length w = off \<Longrightarrow>
   finish_loop (w @ replicate (sum_list (map length parts)) 0) off parts = Inr (w @ concat parts)"
proof (induction parts arbitrary: w off)
  case (Cons part parts)
  then show ?case
    using u8_set_next [of w off part "length part" "sum_list (map length parts)"]
      Cons.IH [of "w @ part" "off + length part"] by simp
qed simp

lemma w_finish_concat [simp]: "w_finish parts = Inr (concat parts)"
  using finish_loop_concat [of "[]" 0 parts] by (simp add: w_finish_def)

lemmas writer_defs = w_u8_def w_u32_def w_bytes_def writeRatchetHeader_def env_assertKey_def

subsection \<open>The reader splits\<close>

text \<open>A reader that has consumed \<open>done\<close> and has \<open>rest\<close> in front of it.\<close>

definition reader_at :: "bytes \<Rightarrow> bytes \<Rightarrow> Reader" where
  "reader_at consumed rest = \<lparr>r_buf = consumed @ rest, r_offset = length consumed\<rparr>"

lemma reader_start: "\<lparr>r_buf = raw, r_offset = 0\<rparr> = reader_at [] raw"
  by (simp add: reader_at_def)

lemma r_u8_at [effect_simps]: "r_u8 (reader_at c (b # rest)) = (reader_at (c @ [b]) rest, Inr (unat b))"
  by (simp add: r_u8_def r_require_def reader_at_def sbind_def)

lemma r_bytes_at [effect_simps]:
  "length x = n \<Longrightarrow> r_bytes n (reader_at c (x @ rest)) = (reader_at (c @ x) rest, Inr x)"
  by (simp add: r_bytes_def r_require_def reader_at_def sbind_def)

lemma r_u32_at4:
  "r_u32 (reader_at c (w # x # y # z # rest)) = (reader_at (c @ [w, x, y, z]) rest, Inr (u32_of w x y z))"
  by (simp add: r_u32_def r_require_def reader_at_def sbind_def nth_append)

lemma r_u32_at [effect_simps]:
  "r_u32 (reader_at c (u32be v @ rest)) = (reader_at (c @ u32be v) rest, Inr (v mod 2 ^ 32))"
  using r_u32_at4 [of c "of_nat (v div 2 ^ 24)" "of_nat (v div 2 ^ 16)" "of_nat (v div 2 ^ 8)" "of_nat v" rest]
  by (simp only: u32be_def append_Cons append_Nil u32_of_bytes)

lemma r_rest_at [effect_simps]: "r_rest (reader_at c rest) = (reader_at (c @ rest) [], Inr rest)"
  by (simp add: r_rest_def reader_at_def sbind_def)

lemma r_u8_Inr:
  assumes "r_u8 (reader_at c rest) = (r', Inr v)"
  obtains rest' where "rest = of_nat v # rest'" "r' = reader_at (c @ [of_nat v]) rest'" "v < 256"
proof (cases rest)
  case Nil
  then show thesis using assms by (simp add: r_u8_def r_require_def reader_at_def sbind_def)
next
  case (Cons b rest')
  then have "v = unat b" "r' = reader_at (c @ [b]) rest'" using assms r_u8_at [of c b rest'] by simp_all
  then show thesis using that [of rest'] Cons unat_byte_less [of b] by simp
qed

lemma r_bytes_Inr:
  assumes "r_bytes n (reader_at c rest) = (r', Inr x)"
  obtains rest' where "rest = x @ rest'" "r' = reader_at (c @ x) rest'" "length x = n"
proof (cases "n \<le> length rest")
  case True
  then have "r_bytes n (reader_at c (take n rest @ drop n rest)) = (reader_at (c @ take n rest) (drop n rest), Inr (take n rest))"
    by (intro r_bytes_at) simp
  then have "x = take n rest" "r' = reader_at (c @ x) (drop n rest)" using assms by auto
  then show thesis using that [of "drop n rest"] True by simp
next
  case False
  then show thesis using assms by (simp add: r_bytes_def r_require_def reader_at_def sbind_def)
qed

lemma r_u32_Inr:
  assumes "r_u32 (reader_at c rest) = (r', Inr v)"
  obtains rest' where "rest = u32be v @ rest'" "r' = reader_at (c @ u32be v) rest'" "v < 2 ^ 32"
proof (cases "4 \<le> length rest")
  case True
  then obtain w x y z rest' where rest: "rest = w # x # y # z # rest'"
    by (auto simp: numeral_eq_Suc Suc_le_length_iff)
  then have "v = u32_of w x y z" "r' = reader_at (c @ [w, x, y, z]) rest'"
    using assms r_u32_at4 [of c w x y z rest'] by simp_all
  then show thesis using that [of rest'] rest u32be_u32_of u32_of_less by simp
next
  case False
  then show thesis using assms by (simp add: r_u32_def r_require_def reader_at_def sbind_def)
qed

subsection \<open>Well-formed messages\<close>

text \<open>
  The messages the encoders accept and whose numbers fit their fields: keys of 32 bytes,
  32-bit numbers, a non-empty ciphertext, and an X3DH header exactly on an initial message.
\<close>

definition x3dh_header_ok :: "InitialMessageHeader \<Rightarrow> bool" where
  "x3dh_header_ok h \<longleftrightarrow>
     length (h_identityKey h) = 32 \<and> length (h_identityDhKey h) = 32 \<and> length (h_ephemeralKey h) = 32
     \<and> h_signedPrekeyId h < 2 ^ 32 \<and> (case h_oneTimePrekeyId h of None \<Rightarrow> True | Some k \<Rightarrow> k < 2 ^ 32)"

definition ratchet_message_ok :: "RatchetMessage \<Rightarrow> bool" where
  "ratchet_message_ok m \<longleftrightarrow>
     length (dhPublicKey (header m)) = 32 \<and> h_previousChainLength (header m) < 2 ^ 32
     \<and> messageNumber (header m) < 2 ^ 32 \<and> ciphertext m \<noteq> []"

definition inner_ok :: "InnerMessage \<Rightarrow> bool" where
  "inner_ok m \<longleftrightarrow> ratchet_message_ok (im_ratchet m) \<and>
     (case im_x3dh m of None \<Rightarrow> im_type m = MT_Normal
      | Some h \<Rightarrow> im_type m = MT_Initial \<and> x3dh_header_ok h)"

definition encodeInner :: "InnerMessage \<Rightarrow> bytes result" where
  "encodeInner m = (case im_x3dh m of None \<Rightarrow> encodeNormalMessage (im_ratchet m)
                    | Some h \<Rightarrow> encodeInitialMessage h (im_ratchet m))"

definition otk_bytes :: "nat option \<Rightarrow> bytes" where
  "otk_bytes k = (case k of None \<Rightarrow> [0] | Some n \<Rightarrow> 1 # u32be n)"

definition x3dh_bytes :: "InitialMessageHeader \<Rightarrow> bytes" where
  "x3dh_bytes h = h_identityKey h @ h_identityDhKey h @ h_ephemeralKey h
                  @ u32be (h_signedPrekeyId h) @ otk_bytes (h_oneTimePrekeyId h)"

definition ratchet_bytes :: "RatchetMessage \<Rightarrow> bytes" where
  "ratchet_bytes m = dhPublicKey (header m) @ u32be (h_previousChainLength (header m))
                     @ u32be (messageNumber (header m)) @ ciphertext m"

lemma encodeNormalMessage_bytes:
  "length (dhPublicKey (header m)) = 32 \<Longrightarrow> encodeNormalMessage m = Inr (1 # 2 # ratchet_bytes m)"
  by (simp add: encodeNormalMessage_def writer_defs envelope_consts ratchet_bytes_def)

lemma encodeInitialMessage_bytes:
  assumes "x3dh_header_ok h" "length (dhPublicKey (header m)) = 32"
  shows "encodeInitialMessage h m = Inr (1 # 1 # x3dh_bytes h @ ratchet_bytes m)"
  using assms
  by (cases "h_oneTimePrekeyId h")
     (simp_all add: encodeInitialMessage_def writer_defs envelope_consts ratchet_bytes_def x3dh_bytes_def
        otk_bytes_def x3dh_header_ok_def)

lemma read_otk_at:
  assumes "case k of None \<Rightarrow> True | Some n \<Rightarrow> n < 2 ^ 32"
  shows "sbind r_u8 (\<lambda>flag.
     sbind (slift (require (\<not> flag > 1) e)) (\<lambda>_.
     sbind (if flag = 1 then sbind r_u32 (\<lambda>v. sreturn (Some v)) else sreturn None) f))
       (reader_at c (otk_bytes k @ rest)) = f k (reader_at (c @ otk_bytes k) rest)"
  using assms by (cases k) (simp_all add: otk_bytes_def effect_simps)

lemma read_x3dh_at [effect_simps]:
  assumes "x3dh_header_ok h"
  shows "read_x3dh (reader_at c (x3dh_bytes h @ rest)) = (reader_at (c @ x3dh_bytes h) rest, Inr h)"
proof -
  have k: "case h_oneTimePrekeyId h of None \<Rightarrow> True | Some n \<Rightarrow> n < 2 ^ 32"
    using assms by (simp add: x3dh_header_ok_def)
  show ?thesis
    using assms
    by (simp add: read_x3dh_def x3dh_bytes_def x3dh_header_ok_def envelope_consts effect_simps
          read_otk_at [OF k] del: One_nat_def)
qed

lemma decode_encodeInner:
  assumes "inner_ok m" "encodeInner m = Inr raw"
  shows "decodeMessage raw = Inr m"
proof (cases "im_x3dh m")
  case None
  then have raw: "raw = 1 # 2 # ratchet_bytes (im_ratchet m)"
    and ok: "ratchet_message_ok (im_ratchet m)" "im_type m = MT_Normal"
    using assms by (simp_all add: inner_ok_def encodeInner_def encodeNormalMessage_bytes ratchet_message_ok_def)
  then show ?thesis using None
    by (simp add: decodeMessage_def reader_start read_message_def effect_simps envelope_consts
          ratchet_message_ok_def ratchet_bytes_def)
next
  case (Some h)
  then have raw: "raw = 1 # 1 # x3dh_bytes h @ ratchet_bytes (im_ratchet m)"
    and ok: "ratchet_message_ok (im_ratchet m)" "x3dh_header_ok h" "im_type m = MT_Initial"
    using assms by (simp_all add: inner_ok_def encodeInner_def encodeInitialMessage_bytes ratchet_message_ok_def)
  then show ?thesis using Some
    by (simp add: decodeMessage_def reader_start read_message_def effect_simps envelope_consts
          ratchet_message_ok_def ratchet_bytes_def)
qed

lemma r_rest_Inr:
  "r_rest (reader_at c rest) = (r', Inr v) \<longleftrightarrow> v = rest \<and> r' = reader_at (c @ rest) []"
  by (auto simp: r_rest_at)

lemma read_x3dh_Inr:
  assumes "read_x3dh (reader_at c rest) = (r', Inr h)"
  obtains rest' where "rest = x3dh_bytes h @ rest'" "r' = reader_at (c @ x3dh_bytes h) rest'" "x3dh_header_ok h"
proof -
  obtain ik r1 idk r2 ek r3 spk r4 flag r5 otk r6 where
    1: "r_bytes 32 (reader_at c rest) = (r1, Inr ik)" and 2: "r_bytes 32 r1 = (r2, Inr idk)"
    and 3: "r_bytes 32 r2 = (r3, Inr ek)" and 4: "r_u32 r3 = (r4, Inr spk)"
    and 5: "r_u8 r4 = (r5, Inr flag)" and flag: "\<not> flag > 1"
    and 6: "(if flag = 1 then sbind r_u32 (\<lambda>v. sreturn (Some v)) else sreturn None) r5 = (r6, Inr otk)"
    and h: "h = \<lparr>h_identityKey = ik, h_identityDhKey = idk, h_ephemeralKey = ek,
                 h_signedPrekeyId = spk, h_oneTimePrekeyId = otk\<rparr>" "r' = r6"
    using assms unfolding read_x3dh_def E_KEY_LENGTH_def
    by (simp only: sbind_eq_Inr slift_apply prod.inject sreturn_apply require_eq_Inr sum.inject) blast
  obtain s1 where s1: "rest = ik @ s1" "r1 = reader_at (c @ ik) s1" "length ik = 32"
    using r_bytes_Inr [OF 1] .
  obtain s2 where s2: "s1 = idk @ s2" "r2 = reader_at ((c @ ik) @ idk) s2" "length idk = 32"
    using r_bytes_Inr [OF 2 [unfolded s1(2)]] .
  obtain s3 where s3: "s2 = ek @ s3" "r3 = reader_at (((c @ ik) @ idk) @ ek) s3" "length ek = 32"
    using r_bytes_Inr [OF 3 [unfolded s2(2)]] .
  obtain s4 where s4: "s3 = u32be spk @ s4" "r4 = reader_at ((((c @ ik) @ idk) @ ek) @ u32be spk) s4" "spk < 2 ^ 32"
    using r_u32_Inr [OF 4 [unfolded s3(2)]] .
  let ?c4 = "(((c @ ik) @ idk) @ ek) @ u32be spk"
  obtain s5 where s5: "s4 = of_nat flag # s5" "r5 = reader_at (?c4 @ [of_nat flag]) s5" "flag < 256"
    using r_u8_Inr [OF 5 [unfolded s4(2)]] .
  obtain s6 where s6: "s4 = otk_bytes otk @ s6" "r6 = reader_at (?c4 @ otk_bytes otk) s6"
    "case otk of None \<Rightarrow> True | Some n \<Rightarrow> n < 2 ^ 32"
  proof (cases "flag = 1")
    case True
    then obtain n where n: "r_u32 r5 = (r6, Inr n)" "otk = Some n"
      using 6 by (auto simp: sbind_eq_Inr)
    obtain s6 where "s5 = u32be n @ s6" "r6 = reader_at ((?c4 @ [of_nat flag]) @ u32be n) s6" "n < 2 ^ 32"
      using r_u32_Inr [OF n(1) [unfolded s5(2)]] .
    then show thesis using that [of s6] s5 n(2) True by (simp add: otk_bytes_def)
  next
    case False
    then have "flag = 0" "otk = None" "r6 = r5" using 6 flag by simp_all
    then show thesis using that [of s5] s5 by (simp add: otk_bytes_def)
  qed
  show thesis
    using that [of s6] s1 s2 s3 s4 s6 h by (simp add: x3dh_bytes_def x3dh_header_ok_def)
qed

lemma encode_decodeMessage:
  assumes "decodeMessage raw = Inr m"
  shows "inner_ok m" "encodeInner m = Inr raw"
proof -
  obtain r' where read: "read_message (reader_at [] raw) = (r', Inr m)"
    using assms by (cases "read_message (reader_at [] raw)") (simp add: decodeMessage_def reader_start)
  obtain ver r1 ty r2 x r3 dhp r4 pn r5 n r6 ct where
    1: "r_u8 (reader_at [] raw) = (r1, Inr ver)" and ver: "ver = ENVELOPE_VERSION"
    and 2: "r_u8 r1 = (r2, Inr ty)" and ty: "ty = MT_Initial \<or> ty = MT_Normal"
    and 3: "(if ty = MT_Initial then sbind read_x3dh (\<lambda>h. sreturn (Some h)) else sreturn None) r2 = (r3, Inr x)"
    and 4: "r_bytes 32 r3 = (r4, Inr dhp)" and 5: "r_u32 r4 = (r5, Inr pn)" and 6: "r_u32 r5 = (r6, Inr n)"
    and 7: "r_rest r6 = (r', Inr ct)" and ct: "length ct \<noteq> 0"
    and m: "m = \<lparr>im_type = ty, im_x3dh = x,
              im_ratchet = \<lparr>header = \<lparr>dhPublicKey = dhp, h_previousChainLength = pn, messageNumber = n\<rparr>,
                            ciphertext = ct\<rparr>\<rparr>"
    using read unfolding read_message_def E_KEY_LENGTH_def
    by (simp only: sbind_eq_Inr slift_apply prod.inject sreturn_apply require_eq_Inr sum.inject) blast
  obtain s1 where s1: "raw = of_nat ver # s1" "r1 = reader_at ([] @ [of_nat ver]) s1" "ver < 256"
    using r_u8_Inr [OF 1] .
  obtain s2 where s2: "s1 = of_nat ty # s2" "r2 = reader_at (([] @ [of_nat ver]) @ [of_nat ty]) s2" "ty < 256"
    using r_u8_Inr [OF 2 [unfolded s1(2)]] .
  obtain c3 s3 where s3: "r3 = reader_at c3 s3"
    "case x of None \<Rightarrow> ty = MT_Normal \<and> s2 = s3 | Some h \<Rightarrow> ty = MT_Initial \<and> s2 = x3dh_bytes h @ s3 \<and> x3dh_header_ok h"
  proof (cases "ty = MT_Initial")
    case True
    then obtain h where h: "read_x3dh r2 = (r3, Inr h)" "x = Some h" using 3 by (auto simp: sbind_eq_Inr)
    obtain s3 where "s2 = x3dh_bytes h @ s3" "r3 = reader_at ((([] @ [of_nat ver]) @ [of_nat ty]) @ x3dh_bytes h) s3"
      "x3dh_header_ok h"
      using read_x3dh_Inr [OF h(1) [unfolded s2(2)]] .
    then show thesis using that h(2) True by simp
  next
    case False
    then show thesis using that [of "[of_nat ver, of_nat ty]" s2] 3 ty s2(2) by simp
  qed
  obtain s4 where s4: "s3 = dhp @ s4" "r4 = reader_at (c3 @ dhp) s4" "length dhp = 32"
    using r_bytes_Inr [OF 4 [unfolded s3(1)]] .
  obtain s5 where s5: "s4 = u32be pn @ s5" "r5 = reader_at ((c3 @ dhp) @ u32be pn) s5" "pn < 2 ^ 32"
    using r_u32_Inr [OF 5 [unfolded s4(2)]] .
  obtain s6 where s6: "s5 = u32be n @ s6" "r6 = reader_at (((c3 @ dhp) @ u32be pn) @ u32be n) s6" "n < 2 ^ 32"
    using r_u32_Inr [OF 6 [unfolded s5(2)]] .
  have "ct = s6" using 7 s6(2) by (simp add: r_rest_at)
  then have tail: "s3 = ratchet_bytes (im_ratchet m)" "ratchet_message_ok (im_ratchet m)"
    using s4 s5 s6 ct m by (simp_all add: ratchet_bytes_def ratchet_message_ok_def)
  show "inner_ok m" using tail(2) s3(2) m by (cases x) (simp_all add: inner_ok_def)
  show "encodeInner m = Inr raw"
    using tail s3(2) m s1(1) s2(1) ver
    by (cases x) (simp_all add: encodeInner_def encodeNormalMessage_bytes encodeInitialMessage_bytes
          ratchet_message_ok_def envelope_consts)
qed

lemma encodeInner_ok:
  assumes "inner_ok m"
  shows "encodeInner m = Inr (1 # (case im_x3dh m of None \<Rightarrow> 2 # ratchet_bytes (im_ratchet m)
                              | Some h \<Rightarrow> 1 # x3dh_bytes h @ ratchet_bytes (im_ratchet m)))"
  using assms
  by (cases "im_x3dh m")
     (simp_all add: inner_ok_def encodeInner_def encodeNormalMessage_bytes encodeInitialMessage_bytes
        ratchet_message_ok_def)

text \<open>The two encoders and the decoder form a codec on well-formed messages.\<close>

definition result_get :: "'a result \<Rightarrow> 'a option" where
  "result_get r = (case r of Inl _ \<Rightarrow> None | Inr x \<Rightarrow> Some x)"

interpretation inner: codec encodeInner "\<lambda>r. case r of Inl _ \<Rightarrow> None | Inr raw \<Rightarrow> result_get (decodeMessage raw)" inner_ok
  by unfold_locales (simp add: encodeInner_ok decode_encodeInner result_get_def)

subsection \<open>Refusals\<close>

definition is_envelope_error :: "error \<Rightarrow> bool" where
  "is_envelope_error e \<longleftrightarrow> (\<exists>why. e = EnvelopeError why)"

lemma is_envelope_error [simp, intro]: "is_envelope_error (EnvelopeError why)"
  by (simp add: is_envelope_error_def)

lemma r_require_throws [throws_intros]: "throws_only is_envelope_error (r_require n)"
  by (auto simp: throws_only_def r_require_def)

lemma reader_throws [throws_intros]:
  "throws_only is_envelope_error r_u8" "throws_only is_envelope_error r_u32"
  "throws_only is_envelope_error (r_bytes n)" "throws_only is_envelope_error r_rest"
  unfolding r_u8_def r_u32_def r_bytes_def r_rest_def by (intro throws_intros)+

lemma read_message_throws: "throws_only is_envelope_error read_message"
  unfolding read_message_def read_x3dh_def by (intro throws_intros is_envelope_error)

lemma encodeInner_length:
  assumes "inner_ok m" "encodeInner m = Inr raw"
  shows "43 \<le> length raw"
proof -
  have "41 \<le> length (ratchet_bytes (im_ratchet m))"
    using assms(1) by (cases "ciphertext (im_ratchet m)")
      (simp_all add: inner_ok_def ratchet_message_ok_def ratchet_bytes_def)
  then show ?thesis using assms(2) unfolding encodeInner_ok [OF assms(1)]
    by (auto split: option.splits)
qed

subsection \<open>Properties\<close>

text \<open>
  Claim C18. The wire format is canonical: \<open>decodeMessage\<close> accepts a byte string exactly when it
  is what the encoders write for the well-formed message it returns. So encoding followed by
  decoding is the identity, two byte strings never decode to the same message, and everything
  else (bad version, unknown type, bad one-time prekey flag, truncation, empty ciphertext) is
  refused.
\<close>

theorem decodeMessage_canonical:
  "decodeMessage raw = Inr m \<longleftrightarrow> inner_ok m \<and> encodeInner m = Inr raw"
  using decode_encodeInner encode_decodeMessage by blast

text \<open>
  Every refusal of the decoder is an \<open>EnvelopeError\<close>, and a message shorter than the
  43 bytes of a version, a type, a ratchet header and one byte of ciphertext is always refused.
\<close>

theorem decodeMessage_refuses_short:
  "length raw < 43 \<Longrightarrow> \<exists>why. decodeMessage raw = Inl (EnvelopeError why)"
proof (cases "decodeMessage raw")
  case (Inl e)
  then have "is_envelope_error e"
    by (intro throws_onlyD [OF read_message_throws]) (simp add: decodeMessage_def)
  then show ?thesis using Inl by (auto simp: is_envelope_error_def)
next
  case (Inr m)
  then have "43 \<le> length raw" by (metis encode_decodeMessage encodeInner_length)
  moreover assume "length raw < 43"
  ultimately show ?thesis by simp
qed

theorem decodeMessage_refuses_short_witness:
  "\<exists>why. decodeMessage [1, 2, 7] = Inl (EnvelopeError why)"
  using decodeMessage_refuses_short [of "[1, 2, 7]"] by simp

end
