(* ===== verification/Ratchet_Bounds.thy ===== *)
theory Ratchet_Bounds
  imports Ratchet
begin

section \<open>The bounds of the skipped-key cache and the state invariant\<close>

text \<open>
  What the operations of \<open>Ratchet\<close> keep: key sizes, the shape of the cache identifiers, and the
  two bounds of the cache, whatever messages a peer sends.
\<close>

subsection \<open>Eviction\<close>

lemma evict_oldest_drop:
  "distinct_keys m \<Longrightarrow> evict_oldest m = drop (length m - MAX_SKIPPED_KEYS) m"
proof (induction m rule: evict_oldest.induct)
  case (1 m)
  show ?case
  proof (cases "length m > MAX_SKIPPED_KEYS")
    case True
    then obtain p m' where m: "m = p # m'" by (cases m) auto
    have del: "AList.delete (fst p) m' = m'"
      using "1.prems" m by (intro delete_id) auto
    have "evict_oldest m = drop (length m' - MAX_SKIPPED_KEYS) m'"
      using "1.IH" True "1.prems" m del by (subst evict_oldest.simps) simp
    then show ?thesis using True m by (simp add: Suc_diff_le)
  qed (subst evict_oldest.simps, simp)
qed

lemma length_evict_oldest: "distinct_keys m \<Longrightarrow> length (evict_oldest m) \<le> MAX_SKIPPED_KEYS"
  by (simp add: evict_oldest_drop)

lemma set_skip_chains: "set (skip_chains m) = chain_of ` fst ` set m"
  by (force simp: skip_chains_def)

lemma length_skip_chains: "length (skip_chains m) = card (chain_of ` fst ` set m)"
  unfolding skip_chains_def length_set_from by (rule arg_cong [where f = card]) force

lemma chain_of_split: "CHR '':'' \<notin> set t \<Longrightarrow> chain_of (s @ '':'' @ t) = s"
proof -
  assume "CHR '':'' \<notin> set t"
  then have "dropWhile (\<lambda>c. c \<noteq> CHR '':'') (rev t @ CHR '':'' # rev s) = CHR '':'' # rev s"
    by (subst dropWhile_append2) auto
  then show ?thesis by (simp add: chain_of_def)
qed

lemma chain_of_prefix:
  assumes "CHR '':'' \<in> set s"
  shows "prefix (chain_of s @ '':'') s"
proof -
  obtain a b where s: "s = a @ '':'' @ b" "CHR '':'' \<notin> set b"
    using split_list_last [OF assms] by auto
  then show ?thesis using chain_of_split [OF s(2)] by simp
qed

text \<open>Every identifier of a doomed chain goes, so the chains left are the newest ones.\<close>

lemma evict_chains_bound:
  assumes ids: "\<forall>k\<in>fst ` set m. CHR '':'' \<in> set k"
  shows "length (skip_chains (evict_chains m)) \<le> MAX_SKIP_CHAINS"
proof (cases "length (skip_chains m) \<le> MAX_SKIP_CHAINS")
  case True
  then show ?thesis by (simp add: evict_chains_def Let_def)
next
  case False
  define chains where "chains = skip_chains m"
  define doomed where "doomed = take (length chains - MAX_SKIP_CHAINS) chains"
  have dist: "distinct chains" by (simp add: chains_def skip_chains_def)
  have "chain_of ` fst ` set (evict_chains m) \<subseteq> set (drop (length chains - MAX_SKIP_CHAINS) chains)"
  proof
    fix c assume "c \<in> chain_of ` fst ` set (evict_chains m)"
    then obtain k v where kv: "(k, v) \<in> set (evict_chains m)" "c = chain_of k" by auto
    then have m: "(k, v) \<in> set m" and nd: "\<not> (\<exists>chain\<in>set doomed. prefix (chain @ '':'') k)"
      using False by (auto simp: evict_chains_def Let_def doomed_def chains_def)
    have "c \<notin> set doomed" using nd chain_of_prefix [of k] ids m kv(2) by force
    moreover have "c \<in> set chains" using m kv(2) by (force simp: chains_def set_skip_chains)
    ultimately show "c \<in> set (drop (length chains - MAX_SKIP_CHAINS) chains)"
      unfolding doomed_def by (metis Un_iff append_take_drop_id set_append)
  qed
  then have "card (chain_of ` fst ` set (evict_chains m)) \<le> length (drop (length chains - MAX_SKIP_CHAINS) chains)"
    by (meson List.finite_set card_length card_mono le_trans)
  then show ?thesis using False by (simp add: length_skip_chains chains_def)
qed

lemma evict_chains_filter: "\<exists>P. evict_chains m = filter P m"
  by (cases "length (skip_chains m) \<le> MAX_SKIP_CHAINS")
    (auto simp: evict_chains_def Let_def intro: exI [of _ "\<lambda>_. True"])

text \<open>The invariant of the cache.\<close>

definition skipped_ok :: "(string \<times> bytes) list \<Rightarrow> bool" where
  "skipped_ok m \<longleftrightarrow>
     distinct_keys m \<and> (\<forall>(k, v)\<in>set m. CHR '':'' \<in> set k \<and> length v = R_KEY_LENGTH) \<and>
     length m \<le> MAX_SKIPPED_KEYS \<and> length (skip_chains m) \<le> MAX_SKIP_CHAINS"

lemma skipped_ok_empty [simp]: "skipped_ok []"
  by (simp add: skipped_ok_def skip_chains_def set_from_def)

lemma skipped_ok_evict:
  assumes "distinct_keys m" "\<forall>(k, v)\<in>set m. CHR '':'' \<in> set k \<and> length v = R_KEY_LENGTH"
  shows "skipped_ok (evict_chains (evict_oldest m))"
proof -
  let ?d = "evict_oldest m"
  have d: "?d = drop (length m - MAX_SKIPPED_KEYS) m" by (rule evict_oldest_drop) (rule assms)
  have sub: "set ?d \<subseteq> set m" unfolding d by (rule set_drop_subset)
  have dist: "distinct_keys ?d" using assms(1) unfolding d by (simp add: drop_map [symmetric])
  have ids: "\<forall>k\<in>fst ` set ?d. CHR '':'' \<in> set k" using assms(2) sub by fastforce
  obtain P where P: "evict_chains ?d = filter P ?d" using evict_chains_filter by blast
  have "length (evict_chains ?d) \<le> MAX_SKIPPED_KEYS"
    using length_evict_oldest [OF assms(1)] length_filter_le [of P ?d] unfolding P by linarith
  then show ?thesis
    unfolding skipped_ok_def using evict_chains_bound [OF ids] dist assms(2) sub
    by (auto simp: P distinct_map_filter)
qed

lemma skipped_ok_delete:
  assumes "skipped_ok m"
  shows "skipped_ok (AList.delete k m)"
proof -
  have sub: "set (AList.delete k m) \<subseteq> set m" by (auto simp: AList.delete_eq)
  then have "card (chain_of ` fst ` set (AList.delete k m)) \<le> card (chain_of ` fst ` set m)"
    by (intro card_mono image_mono) auto
  then show ?thesis
    using assms sub length_delete_le [of k m] unfolding skipped_ok_def length_skip_chains
    by (auto simp: distinct_delete)
qed

lemma skippedKeyId_colon: "CHR '':'' \<in> set (skippedKeyId pub n)"
  by (simp add: skippedKeyId_def)

lemma set_update_subset: "set (AList.update k v m) \<subseteq> insert (k, v) (set m)"
  by (induction m) auto

lemma skipped_ok_insert:
  assumes "skipped_ok m" "length mk = R_KEY_LENGTH"
  shows "skipped_ok (evict_chains (evict_oldest (AList.update (skippedKeyId pub n) mk m)))"
proof (rule skipped_ok_evict)
  show "distinct_keys (AList.update (skippedKeyId pub n) mk m)"
    using assms by (simp add: skipped_ok_def distinct_update)
  show "\<forall>(k, v)\<in>set (AList.update (skippedKeyId pub n) mk m). CHR '':'' \<in> set k \<and> length v = R_KEY_LENGTH"
    using assms set_update_subset [of "skippedKeyId pub n" mk m] skippedKeyId_colon
    unfolding skipped_ok_def by blast
qed

subsection \<open>Sizes of derived keys\<close>

lemma advanceChainKey_ok:
  assumes "hmac_law S" "length ck = 32"
  obtains ck' mk where "advanceChainKey S ck = Inr (ck', mk)" "length ck' = 32" "length mk = 32"
proof -
  obtain t1 where "hmacsha256 S [1] ck = Some t1" "length t1 = 32" using hmac_lawD [OF assms] .
  moreover obtain t2 where "hmacsha256 S [2] ck = Some t2" "length t2 = 32" using hmac_lawD [OF assms] .
  ultimately show thesis using that by (simp add: advanceChainKey_def)
qed

lemma advanceChainKey_sizes:
  assumes "hmac_law S" "length ck = 32" "advanceChainKey S ck = Inr (ck', mk)"
  shows "length ck' = 32" "length mk = 32"
proof -
  obtain a b where "advanceChainKey S ck = Inr (a, b)" "length a = 32" "length b = 32"
    using advanceChainKey_ok [OF assms(1,2)] .
  then show "length ck' = 32" "length mk = 32" using assms(3) by simp_all
qed

lemma advanceRootKey_ok:
  assumes "hmac_law S" "length rk = 32"
  obtains rk' ck where "advanceRootKey S rk d = Inr (rk', ck)" "length rk' = 32" "length ck = 32"
proof -
  obtain out where "hkdfSha256 S d rk ROOT_DOMAIN 64 = Inr out" "length out = 64"
    by (rule hkdfSha256_ok [OF assms, of 64]) auto
  then show thesis using that by (simp add: advanceRootKey_def R_KEY_LENGTH_def)
qed

lemma advanceRootKey_sizes:
  assumes "hmac_law S" "length rk = 32" "advanceRootKey S rk d = Inr (rk', ck)"
  shows "length rk' = 32" "length ck = 32"
proof -
  obtain a b where "advanceRootKey S rk d = Inr (a, b)" "length a = 32" "length b = 32"
    using advanceRootKey_ok [OF assms(1,2)] .
  then show "length rk' = 32" "length ck = 32" using assms(3) by simp_all
qed

lemma messageKeyMaterial_ok:
  assumes "hmac_law S"
  obtains key nonce where "messageKeyMaterial S mk = Inr (key, nonce)" "length key = 32" "length nonce = 24"
proof -
  obtain out where "hkdfSha256 S mk (replicate 32 0) MESSAGE_DOMAIN 56 = Inr out" "length out = 56"
    by (rule hkdfSha256_ok [OF assms, of "replicate 32 0" 56]) auto
  then show thesis using that by (simp add: messageKeyMaterial_def ratchet_consts HASH_LENGTH_def)
qed

lemma serializeHeader_eq:
  assumes "length (dhPublicKey h) = 32"
  shows "serializeHeader h = Inr (dhPublicKey h @ u32be (h_previousChainLength h) @ u32be (messageNumber h))"
  using assms by (simp add: serializeHeader_def u8_set_def ratchet_consts)

subsection \<open>The state invariant\<close>

definition ratchet_ok :: "sodium \<Rightarrow> SessionState \<Rightarrow> bool" where
  "ratchet_ok S st \<longleftrightarrow>
     length (rootKey st) = 32 \<and> kx_pair S (ourRatchetKey st) \<and>
     (\<forall>k. theirRatchetKey st = Some k \<longrightarrow> length k = 32) \<and>
     (\<forall>k. sendingChainKey st = Some k \<longrightarrow> length k = 32) \<and>
     (\<forall>k. receivingChainKey st = Some k \<longrightarrow> length k = 32) \<and>
     (receivingChainKey st \<noteq> None \<longrightarrow> theirRatchetKey st \<noteq> None) \<and>
     (sendingChainKey st \<noteq> None \<longrightarrow> theirRatchetKey st \<noteq> None) \<and>
     skipped_ok (skippedKeys st)"

lemma initializeInitiator_inv:
  assumes "hmac_law S" "kx_pair S kp" "initializeInitiator S sk ad spk kp = Inr st"
  shows "ratchet_ok S st"
proof -
  from assms(3) obtain d rk ck where k: "length sk = 32" "length spk = 32"
    "advanceRootKey S sk d = Inr (rk, ck)" and st: "st = \<lparr>rootKey = rk, ourRatchetKey = kp, theirRatchetKey = Some spk, sendingChainKey = Some ck,
       receivingChainKey = None, sendCount = 0, receiveCount = 0, previousChainLength = 0,
       skippedKeys = [], st_associatedData = ad\<rparr>"
    by (auto simp: initializeInitiator_def rbind_eq_Inr ratchet_consts)
  show ?thesis
    using assms(2) k(2) advanceRootKey_sizes [OF assms(1) k(1,3)] by (simp add: st ratchet_ok_def)
qed

lemma initializeResponder_inv:
  assumes "kx_pair S kp" "initializeResponder sk ad kp = Inr st"
  shows "ratchet_ok S st"
  using assms by (auto simp: initializeResponder_def rbind_eq_Inr ratchet_ok_def ratchet_consts)

lemma encryptMessage_inv:
  assumes "hmac_law S" "ratchet_ok S st" "encryptMessage S p st = (st', r)"
  shows "ratchet_ok S st'"
proof (cases "sendingChainKey st")
  case None
  then show ?thesis using assms by (simp add: encryptMessage_def sbind_def)
next
  case (Some ck)
  have len: "length ck = 32" using assms(2) Some by (simp add: ratchet_ok_def)
  obtain ck' mk where adv: "advanceChainKey S ck = Inr (ck', mk)" "length ck' = 32" "length mk = 32"
    using advanceChainKey_ok [OF assms(1) len] .
  show ?thesis
    using assms(2,3) Some adv encryptMessage_eq [OF Some adv(1), of p] by (auto simp: ratchet_ok_def)
qed

lemma skip_step_inv:
  assumes "hmac_law S" "ratchet_ok S st" "skip_step S st = (st', Inr u)"
  shows "ratchet_ok S st'"
proof -
  obtain ck ck' mk pub where k: "receivingChainKey st = Some ck" "advanceChainKey S ck = Inr (ck', mk)"
    "theirRatchetKey st = Some pub" using skip_step_success [OF assms(3)] .
  have "length ck = 32" using assms(2) k(1) by (simp add: ratchet_ok_def)
  then have len: "length ck' = 32" "length mk = 32" using advanceChainKey_sizes [OF assms(1) _ k(2)] by auto
  then have "skipped_ok (evict_chains (evict_oldest
      (AList.update (skippedKeyId pub (receiveCount st)) mk (skippedKeys st))))"
    using assms(2) by (intro skipped_ok_insert) (simp_all add: ratchet_ok_def R_KEY_LENGTH_def)
  then show ?thesis
    using assms(2,3) skip_step_eq [OF k] k len by (auto simp: ratchet_ok_def evictSkippedKeys_def)
qed

lemma skipMessageKeys_inv:
  assumes "hmac_law S" "ratchet_ok S st" "skipMessageKeys S until st = (st', Inr u)"
  shows "ratchet_ok S st'"
  using assms skip_loop_invariant [of "ratchet_ok S" st S until st'] skip_step_inv [OF assms(1)]
  by (fastforce simp: skipMessageKeys_def split: if_splits)

lemma dhRatchet_inv:
  assumes "hmac_law S" "ratchet_ok S st" "kx_pair S fresh" "length their = 32"
    "dhRatchet S fresh their st = (st', Inr u)"
  shows "ratchet_ok S st'"
proof -
  obtain d1 rk1 receiving d2 rk2 sending where k:
    "scalarmult S (privateKey (ourRatchetKey st)) their = Some d1"
    "advanceRootKey S (rootKey st) d1 = Inr (rk1, receiving)"
    "scalarmult S (privateKey fresh) their = Some d2" "advanceRootKey S rk1 d2 = Inr (rk2, sending)"
    using dhRatchet_success [OF assms(5)] .
  have "length rk1 = 32" "length receiving = 32"
    using advanceRootKey_sizes [OF assms(1) _ k(2)] assms(2) by (auto simp: ratchet_ok_def)
  moreover from this have "length rk2 = 32" "length sending = 32"
    using advanceRootKey_sizes [OF assms(1) _ k(4)] by auto
  ultimately show ?thesis
    using assms dhRatchet_eq [OF k] by (auto simp: ratchet_ok_def)
qed

lemma receive_next_inv:
  assumes "hmac_law S" "ratchet_ok S st" "receive_next S msg st = (st', Inr p)"
  shows "ratchet_ok S st'"
proof -
  obtain ck ck' mk where k: "receivingChainKey st = Some ck" "advanceChainKey S ck = Inr (ck', mk)"
    "st' = st\<lparr>receivingChainKey := Some ck', receiveCount := receiveCount st + 1\<rparr>"
    using receive_next_success [OF assms(3)] by metis
  then show ?thesis
    using assms(2) advanceChainKey_sizes [OF assms(1) _ k(2)] by (simp add: ratchet_ok_def)
qed

lemma decrypt_working_inv:
  assumes "hmac_law S" "ratchet_ok S st" "kx_pair S fresh" "length (dhPublicKey (header msg)) = 32"
    "decrypt_working S fresh msg st = (st', Inr p)"
  shows "ratchet_ok S st'"
proof (cases "theirRatchetKey st = Some (dhPublicKey (header msg))")
  case True
  then obtain t u where "skipMessageKeys S (messageNumber (header msg)) st = (t, Inr u)"
    "receive_next S msg t = (st', Inr p)"
    using assms(5) by (auto simp: decrypt_working_same sbind_eq_Inr)
  then show ?thesis using assms(1,2) skipMessageKeys_inv receive_next_inv by metis
next
  case False
  then obtain t1 u1 t2 u2 t3 u3 where
    "skipMessageKeys S (h_previousChainLength (header msg)) st = (t1, Inr u1)"
    "dhRatchet S fresh (dhPublicKey (header msg)) t1 = (t2, Inr u2)"
    "skipMessageKeys S (messageNumber (header msg)) t2 = (t3, Inr u3)"
    "receive_next S msg t3 = (st', Inr p)"
    using assms(5) by (auto simp: decrypt_working_new sbind_eq_Inr)
  then show ?thesis
    using assms(1-4) skipMessageKeys_inv dhRatchet_inv receive_next_inv by metis
qed

lemma st_associatedData_commit [simp]: "st_associatedData (commitState a b) = st_associatedData a"
  by (simp add: commitState_def)

lemma ratchet_ok_commit: "ratchet_ok S b \<Longrightarrow> ratchet_ok S (commitState a b)"
  by (simp add: ratchet_ok_def commitState_def)

lemma decryptMessage_inv:
  assumes "hmac_law S" "ratchet_ok S st" "kx_pair S fresh" "decryptMessage S fresh msg st = (st', r)"
  shows "ratchet_ok S st'"
proof (cases "length (dhPublicKey (header msg)) = 32")
  case False
  then show ?thesis using assms by (simp add: decryptMessage_def R_KEY_LENGTH_def)
next
  case len: True
  let ?id = "skippedKeyId (dhPublicKey (header msg)) (messageNumber (header msg))"
  show ?thesis
  proof (cases "map_of (skippedKeys st) ?id")
    case (Some mk)
    have "ratchet_ok S (st\<lparr>skippedKeys := AList.delete ?id (skippedKeys st)\<rparr>)"
      using assms(2) skipped_ok_delete by (simp add: ratchet_ok_def)
    then show ?thesis
      using assms Some len
      by (cases "decryptWithMessageKey S st mk (header msg) (ciphertext msg)")
        (auto simp: decryptMessage_def Let_def R_KEY_LENGTH_def)
  next
    case None
    obtain w q where w: "decrypt_working S fresh msg st = (w, q)" by (cases "decrypt_working S fresh msg st")
    show ?thesis
    proof (cases q)
      case (Inl e)
      then show ?thesis using assms None len w by (auto simp: decryptMessage_def Let_def R_KEY_LENGTH_def)
    next
      case (Inr p)
      have "ratchet_ok S w" using decrypt_working_inv [OF assms(1-3) len] w Inr by simp
      then show ?thesis
        using assms None len w Inr ratchet_ok_commit by (auto simp: decryptMessage_def Let_def R_KEY_LENGTH_def)
    qed
  qed
qed

text \<open>Concrete states: both ends of the chain that starts at thirty-two threes.\<close>

definition demo_sender :: SessionState where
  "demo_sender = \<lparr>rootKey = replicate 32 1, ourRatchetKey = demo_pair 5, theirRatchetKey = Some (replicate 32 6),
     sendingChainKey = Some (replicate 32 3), receivingChainKey = None, sendCount = 0, receiveCount = 0,
     previousChainLength = 0, skippedKeys = [], st_associatedData = [9]\<rparr>"

definition demo_receiver :: SessionState where
  "demo_receiver = \<lparr>rootKey = replicate 32 1, ourRatchetKey = demo_pair 6, theirRatchetKey = Some (replicate 32 5),
     sendingChainKey = None, receivingChainKey = Some (replicate 32 3), sendCount = 0, receiveCount = 0,
     previousChainLength = 0, skippedKeys = [], st_associatedData = [9]\<rparr>"

definition demo_message :: RatchetMessage where
  "demo_message = \<lparr>header = \<lparr>dhPublicKey = replicate 32 7, h_previousChainLength = 0, messageNumber = 3\<rparr>,
     ciphertext = [1, 2, 3]\<rparr>"

subsection \<open>Reachable states\<close>

text \<open>
  Everything a session can go through: it is initialised on either side, sends plaintexts and is
  handed arbitrary messages. Failed operations are steps too.
\<close>

inductive ratchet_reach :: "sodium \<Rightarrow> SessionState \<Rightarrow> bool" for S where
  reach_initiator: "kx_pair S kp \<Longrightarrow> initializeInitiator S sk ad spk kp = Inr st \<Longrightarrow> ratchet_reach S st"
| reach_responder: "kx_pair S kp \<Longrightarrow> initializeResponder sk ad kp = Inr st \<Longrightarrow> ratchet_reach S st"
| reach_encrypt: "ratchet_reach S st \<Longrightarrow> ratchet_reach S (fst (encryptMessage S p st))"
| reach_decrypt: "ratchet_reach S st \<Longrightarrow> kx_pair S fresh \<Longrightarrow> ratchet_reach S (fst (decryptMessage S fresh msg st))"

lemma ratchet_reach_ok:
  assumes "hmac_law S" "ratchet_reach S st"
  shows "ratchet_ok S st"
  using assms(2)
proof induction
  case (reach_initiator kp sk ad spk st)
  then show ?case using initializeInitiator_inv [OF assms(1)] by blast
next
  case (reach_responder kp sk ad st)
  then show ?case using initializeResponder_inv by blast
next
  case (reach_encrypt st p)
  then show ?case using encryptMessage_inv [OF assms(1)] by (metis prod.collapse)
next
  case (reach_decrypt st fresh msg)
  then show ?case using decryptMessage_inv [OF assms(1)] by (metis prod.collapse)
qed

lemma ratchet_reach_ad: "ratchet_reach S st \<Longrightarrow> st_associatedData (fst (decryptMessage S fresh msg st)) = st_associatedData st"
  by (auto simp: decryptMessage_def Let_def split: option.split sum.split prod.split)

subsection \<open>The work one message can cause\<close>

lemma skip_step_error_count:
  assumes "skip_step S st = (st', Inl e)"
  shows "receiveCount st' = receiveCount st"
proof (cases "receivingChainKey st")
  case None
  then show ?thesis using assms by (simp add: skip_step_def sbind_def)
next
  case (Some ck)
  then show ?thesis
    using assms by (cases "advanceChainKey S ck"; cases "theirRatchetKey st")
      (auto simp: skip_step_def sbind_def)
qed

lemma skip_loop_count:
  "receiveCount (fst (skip_loop S until st)) \<le> max until (receiveCount st)"
proof (induction "until - receiveCount st" arbitrary: st)
  case 0
  then show ?case by (simp add: skip_loop_stop)
next
  case (Suc n)
  then have less: "receiveCount st < until" by simp
  obtain t r where step: "skip_step S st = (t, r)" by (cases "skip_step S st")
  show ?case
  proof (cases r)
    case (Inl e)
    then show ?thesis
      using step less skip_step_error_count [of S st t e] by (simp add: skip_loop_fail)
  next
    case (Inr u)
    then have t: "receiveCount t = Suc (receiveCount st)" using skip_step_count step by blast
    then have "receiveCount (fst (skip_loop S until t)) \<le> max until (receiveCount t)"
      using Suc.hyps(2) by (intro Suc.hyps(1)) simp
    then show ?thesis using skip_loop_step [OF less, of S t u] step Inr t less by simp
  qed
qed

subsection \<open>Properties\<close>

text \<open>
  Claim C15. In every state a session can reach, whatever messages the peer sends, the skipped-key
  cache holds at most 2000 keys from at most 64 chains, and the state is well formed: root, chain
  and cached keys have 32 bytes, and a chain exists only once the peer's ratchet key is known.
\<close>

theorem skipped_cache_bounded:
  assumes "hmac_law S" "ratchet_reach S st"
  shows "ratchet_ok S st \<and> length (skippedKeys st) \<le> 2000 \<and> length (skip_chains (skippedKeys st)) \<le> 64"
  using ratchet_reach_ok [OF assms] by (simp add: ratchet_ok_def skipped_ok_def ratchet_consts)

theorem skipped_cache_bounded_witness:
  "\<exists>st. initializeResponder (replicate 32 1) [] (demo_pair 5) = Inr st \<and>
     ratchet_ok demo_sodium (fst (decryptMessage demo_sodium (demo_pair 6) demo_message st)) \<and>
     length (skippedKeys (fst (decryptMessage demo_sodium (demo_pair 6) demo_message st))) \<le> 2000"
proof -
  obtain st where st: "initializeResponder (replicate 32 1) [] (demo_pair 5) = Inr st"
    by (simp add: initializeResponder_def R_KEY_LENGTH_def)
  have "ratchet_reach demo_sodium (fst (decryptMessage demo_sodium (demo_pair 6) demo_message st))"
    by (intro reach_decrypt reach_responder [OF _ st] demo_kx_pair)
  then show ?thesis using skipped_cache_bounded [OF demo_hmac_law] st by blast
qed

text \<open>
  A header cannot make the receiver derive more than 2000 keys in one call of
  \<open>skipMessageKeys\<close>, whether the call succeeds or throws; and a number further ahead than the window
  is refused before anything changes.
\<close>

theorem skip_work_bounded:
  "receiveCount (fst (skipMessageKeys S until st)) \<le> receiveCount st + 2000 \<and>
   (receivingChainKey st \<noteq> None \<and> receiveCount st + 2000 < until \<longrightarrow>
    skipMessageKeys S until st = (st, Inl (RatchetError ''too many skipped messages'')))"
  using skip_loop_count [of S until st] by (auto simp: skipMessageKeys_def MAX_SKIPPED_KEYS_def)

theorem skip_work_bounded_witness:
  "skipMessageKeys demo_sodium 2001 demo_receiver =
     (demo_receiver, Inl (RatchetError ''too many skipped messages''))"
  using skip_work_bounded [of demo_sodium 2001 demo_receiver] by (simp add: demo_receiver_def)

end
