(* ===== verification/Ratchet_Delivery.thy ===== *)
theory Ratchet_Delivery
  imports Ratchet_Bounds
begin

section \<open>Delivery within one sending chain\<close>

text \<open>
  A sender and a receiver that hold the same chain. The \<open>n\<close>-th message is sealed under a key that
  depends only on the chain and on \<open>n\<close>; the receiver finds that key by advancing its chain or in
  its cache, so the order of arrival does not matter as long as the gap fits the window.
\<close>

subsection \<open>The keys of a chain\<close>

fun chain_key :: "sodium \<Rightarrow> bytes \<Rightarrow> nat \<Rightarrow> bytes" where
  "chain_key S c 0 = c"
| "chain_key S c (Suc n) = total_hmac S (chain_key S c n) [2]"

definition message_key :: "sodium \<Rightarrow> bytes \<Rightarrow> nat \<Rightarrow> bytes" where
  "message_key S c n = total_hmac S (chain_key S c n) [1]"

lemma length_chain_key: "hmac_law S \<Longrightarrow> length c = 32 \<Longrightarrow> length (chain_key S c n) = 32"
  by (induction n) (simp_all add: total_hmac_Some(2))

lemma advance_chain_key:
  assumes "hmac_law S" "length c = 32"
  shows "advanceChainKey S (chain_key S c n) = Inr (chain_key S c (Suc n), message_key S c n)"
  using total_hmac_Some(1) [OF assms(1) length_chain_key [OF assms, of n]]
  by (simp add: advanceChainKey_def message_key_def)

subsection \<open>Sealing and opening\<close>

definition chain_header :: "bytes \<Rightarrow> nat \<Rightarrow> nat \<Rightarrow> MessageHeader" where
  "chain_header pub pn n = \<lparr>dhPublicKey = pub, h_previousChainLength = pn, messageNumber = n\<rparr>"

text \<open>\<open>msg\<close> is message \<open>n\<close> of the chain \<open>c\<close> and carries \<open>p\<close>.\<close>

definition sealed :: "sodium \<Rightarrow> bytes \<Rightarrow> bytes \<Rightarrow> bytes \<Rightarrow> nat \<Rightarrow> bytes \<Rightarrow> RatchetMessage \<Rightarrow> bool" where
  "sealed S ad pub c n p msg \<longleftrightarrow>
     dhPublicKey (header msg) = pub \<and> messageNumber (header msg) = n \<and>
     (\<forall>st. st_associatedData st = ad \<longrightarrow>
        decryptWithMessageKey S st (message_key S c n) (header msg) (ciphertext msg) = Inr p)"

lemma seal_open:
  assumes "hmac_law S" "aead_law S" "length (dhPublicKey h) = 32"
  obtains key nonce ct where "messageKeyMaterial S mk = Inr (key, nonce)"
    "messageAssociatedData st h = Inr (st_associatedData st @ dhPublicKey h @ u32be (h_previousChainLength h)
       @ u32be (messageNumber h))"
    "aead_encrypt S p (st_associatedData st @ dhPublicKey h @ u32be (h_previousChainLength h)
       @ u32be (messageNumber h)) nonce key = Some ct"
    "length ct = length p + 16"
    "\<And>st'. st_associatedData st' = st_associatedData st \<Longrightarrow> decryptWithMessageKey S st' mk h ct = Inr p"
proof -
  obtain key nonce where k: "messageKeyMaterial S mk = Inr (key, nonce)" "length key = 32" "length nonce = 24"
    using messageKeyMaterial_ok [OF assms(1)] .
  let ?ad = "st_associatedData st @ dhPublicKey h @ u32be (h_previousChainLength h) @ u32be (messageNumber h)"
  obtain ct where c: "aead_encrypt S p ?ad nonce key = Some ct" "length ct = length p + 16"
    "aead_decrypt S ct ?ad nonce key = Some p"
    using aead_lawD [OF assms(2) k(3,2)] .
  have ad: "messageAssociatedData t h = Inr (st_associatedData t @ dhPublicKey h @ u32be (h_previousChainLength h)
       @ u32be (messageNumber h))" for t
    by (simp add: messageAssociatedData_def serializeHeader_eq [OF assms(3)])
  show thesis
    by (rule that [OF k(1) ad c(1,2)]) (simp add: decryptWithMessageKey_def k(1) ad c(3))
qed

text \<open>The sender side: its next message is sealed under the key its chain position says.\<close>

lemma encryptMessage_sealed:
  assumes laws: "hmac_law S" "aead_law S" "length c = 32"
    and pub: "length (publicKey (ourRatchetKey st)) = 32"
    and ck: "sendingChainKey st = Some (chain_key S c (sendCount st))"
  obtains msg where
    "encryptMessage S p st =
       (st\<lparr>sendingChainKey := Some (chain_key S c (Suc (sendCount st))), sendCount := Suc (sendCount st)\<rparr>, Inr msg)"
    "sealed S (st_associatedData st) (publicKey (ourRatchetKey st)) c (sendCount st) p msg"
    "header msg = current_header st" "length (ciphertext msg) = length p + 16"
proof -
  let ?mk = "message_key S c (sendCount st)" and ?h = "current_header st"
  have h: "dhPublicKey ?h = publicKey (ourRatchetKey st)" "messageNumber ?h = sendCount st"
    by (simp_all add: current_header_def)
  obtain key nonce ct where s: "messageKeyMaterial S ?mk = Inr (key, nonce)"
    "messageAssociatedData st ?h = Inr (st_associatedData st @ dhPublicKey ?h @ u32be (h_previousChainLength ?h)
       @ u32be (messageNumber ?h))"
    "aead_encrypt S p (st_associatedData st @ dhPublicKey ?h @ u32be (h_previousChainLength ?h)
       @ u32be (messageNumber ?h)) nonce key = Some ct" "length ct = length p + 16"
    "\<And>st'. st_associatedData st' = st_associatedData st \<Longrightarrow> decryptWithMessageKey S st' ?mk ?h ct = Inr p"
    by (rule seal_open [OF laws(1,2), of ?h ?mk st p]) (use pub h in auto)
  show thesis
  proof (rule that [of "\<lparr>header = ?h, ciphertext = ct\<rparr>"])
    show "encryptMessage S p st =
       (st\<lparr>sendingChainKey := Some (chain_key S c (Suc (sendCount st))), sendCount := Suc (sendCount st)\<rparr>,
        Inr \<lparr>header = ?h, ciphertext = ct\<rparr>)"
      using encryptMessage_eq [OF ck advance_chain_key [OF laws(1,3)], of p] s(1,2,3) by simp
    show "sealed S (st_associatedData st) (publicKey (ourRatchetKey st)) c (sendCount st) p
        \<lparr>header = ?h, ciphertext = ct\<rparr>"
      using s(5) h by (simp add: sealed_def)
  qed (simp_all add: s(4))
qed

text \<open>Sending a list of plaintexts one after the other.\<close>

fun send_all :: "sodium \<Rightarrow> bytes list \<Rightarrow> SessionState \<Rightarrow> SessionState \<times> RatchetMessage result list" where
  "send_all S [] st = (st, [])"
| "send_all S (p # ps) st =
     (let (st1, r) = encryptMessage S p st; (st2, rs) = send_all S ps st1 in (st2, r # rs))"

lemma send_all_sealed:
  assumes "hmac_law S" "aead_law S" "length c = 32" "length (publicKey (ourRatchetKey st)) = 32"
    "sendingChainKey st = Some (chain_key S c (sendCount st))"
  shows "\<exists>msgs. snd (send_all S ps st) = map Inr msgs \<and> length msgs = length ps \<and>
    (\<forall>i<length ps. sealed S (st_associatedData st) (publicKey (ourRatchetKey st)) c (sendCount st + i) (ps ! i) (msgs ! i))"
  using assms(4,5)
proof (induction ps arbitrary: st)
  case (Cons p ps)
  obtain m where m: "encryptMessage S p st =
       (st\<lparr>sendingChainKey := Some (chain_key S c (Suc (sendCount st))), sendCount := Suc (sendCount st)\<rparr>, Inr m)"
    "sealed S (st_associatedData st) (publicKey (ourRatchetKey st)) c (sendCount st) p m"
    using encryptMessage_sealed [OF assms(1-3) Cons.prems] by metis
  let ?t = "st\<lparr>sendingChainKey := Some (chain_key S c (Suc (sendCount st))), sendCount := Suc (sendCount st)\<rparr>"
  obtain ms where ms: "snd (send_all S ps ?t) = map Inr ms" "length ms = length ps"
    "\<forall>i<length ps. sealed S (st_associatedData ?t) (publicKey (ourRatchetKey ?t)) c (sendCount ?t + i) (ps ! i) (ms ! i)"
    using Cons.IH [of ?t] Cons.prems by auto
  have "\<forall>i<length (p # ps). sealed S (st_associatedData st) (publicKey (ourRatchetKey st)) c (sendCount st + i)
      ((p # ps) ! i) ((m # ms) ! i)"
    using m(2) ms(3) by (auto simp: nth_Cons split: nat.split)
  then show ?case using m(1) ms(1,2) by (intro exI [of _ "m # ms"]) (simp add: case_prod_unfold)
qed simp

subsection \<open>Cache identifiers\<close>

lemma colon_notin_btoa: "CHR '':'' \<notin> set (btoa s)"
  using set_btoa [of "CHR '':''" s] by (auto simp: b64_alphabet_def)

lemma colon_notin_show_nat: "CHR '':'' \<notin> set (show_nat n)"
  using show_nat_digits [of "CHR '':''" n] by (auto simp: is_digit_def)

lemma chain_of_skippedKeyId [simp]: "chain_of (skippedKeyId pub n) = encodeB64 pub"
  unfolding skippedKeyId_def encodeB64_def by (rule chain_of_split) (rule colon_notin_show_nat)

lemma skippedKeyId_inject [simp]: "skippedKeyId a m = skippedKeyId b n \<longleftrightarrow> a = b \<and> m = n"
proof
  assume eq: "skippedKeyId a m = skippedKeyId b n"
  then have "a = b" by (metis b64.enc_inject chain_of_skippedKeyId)
  with eq show "a = b \<and> m = n" by (simp add: skippedKeyId_def decimal.enc_inject)
qed simp

subsection \<open>The receiver\<close>

text \<open>
  \<open>receiving S ad pub c k0 N D st\<close>: the receiver follows chain \<open>c\<close> of the ratchet key \<open>pub\<close>,
  has opened the messages in \<open>D\<close>, holds the keys of the others between \<open>k0\<close> and its position, and
  has room for every key below \<open>N\<close>.
\<close>

definition cache_room :: "bytes \<Rightarrow> nat \<Rightarrow> (string \<times> bytes) list \<Rightarrow> bool" where
  "cache_room pub extra m \<longleftrightarrow>
     distinct_keys m \<and> length m + extra \<le> MAX_SKIPPED_KEYS \<and>
     card (insert (encodeB64 pub) (chain_of ` fst ` set m)) \<le> MAX_SKIP_CHAINS"

definition receiving ::
  "sodium \<Rightarrow> bytes \<Rightarrow> bytes \<Rightarrow> bytes \<Rightarrow> nat \<Rightarrow> nat \<Rightarrow> nat set \<Rightarrow> SessionState \<Rightarrow> bool" where
  "receiving S ad pub c k0 N D st \<longleftrightarrow>
     st_associatedData st = ad \<and> theirRatchetKey st = Some pub \<and>
     receivingChainKey st = Some (chain_key S c (receiveCount st)) \<and>
     k0 \<le> receiveCount st \<and>
     (\<forall>i\<in>D. i < receiveCount st) \<and>
     (\<forall>i\<ge>k0. map_of (skippedKeys st) (skippedKeyId pub i) =
        (if i < receiveCount st \<and> i \<notin> D then Some (message_key S c i) else None)) \<and>
     cache_room pub (N - receiveCount st) (skippedKeys st)"

lemma cache_room_no_evict:
  assumes "cache_room pub n m"
  shows "evict_chains (evict_oldest m) = m"
proof -
  have "card (chain_of ` fst ` set m) \<le> card (insert (encodeB64 pub) (chain_of ` fst ` set m))"
    by (intro card_mono) auto
  then have "length (skip_chains m) \<le> MAX_SKIP_CHAINS"
    using assms by (simp add: cache_room_def length_skip_chains)
  moreover have "evict_oldest m = m"
    using assms by (simp add: cache_room_def evict_oldest_drop)
  ultimately show ?thesis by (simp add: evict_chains_def Let_def)
qed

lemma cache_room_insert:
  assumes "cache_room pub (Suc n) m"
  shows "cache_room pub n (AList.update (skippedKeyId pub i) mk m)"
proof -
  have "fst ` set (AList.update (skippedKeyId pub i) mk m) = insert (skippedKeyId pub i) (fst ` set m)"
    by (simp add: dom_update)
  then have "insert (encodeB64 pub) (chain_of ` fst ` set (AList.update (skippedKeyId pub i) mk m))
      = insert (encodeB64 pub) (chain_of ` fst ` set m)" by auto
  moreover have "length (AList.update (skippedKeyId pub i) mk m) \<le> Suc (length m)"
    by (induction m) auto
  ultimately show ?thesis using assms by (simp add: cache_room_def distinct_update)
qed

lemma cache_room_delete: "cache_room pub n m \<Longrightarrow> cache_room pub n (AList.delete k m)"
proof -
  assume m: "cache_room pub n m"
  have "set (AList.delete k m) \<subseteq> set m" by (auto simp: AList.delete_eq)
  then have "card (insert (encodeB64 pub) (chain_of ` fst ` set (AList.delete k m)))
      \<le> card (insert (encodeB64 pub) (chain_of ` fst ` set m))"
    by (intro card_mono insert_mono image_mono) auto
  then show ?thesis using m length_delete_le [of k m] by (auto simp: cache_room_def distinct_delete)
qed

lemma cache_room_mono: "cache_room pub n m \<Longrightarrow> n' \<le> n \<Longrightarrow> cache_room pub n' m"
  by (simp add: cache_room_def)

text \<open>One turn of the skip loop stores the key of the current position.\<close>

lemma receiving_skip_step:
  assumes "hmac_law S" "length c = 32" "receiving S ad pub c k0 N D st" "receiveCount st < N"
  obtains st' where "skip_step S st = (st', Inr ())" "receiving S ad pub c k0 N D st'"
    "receiveCount st' = Suc (receiveCount st)"
proof -
  let ?k = "receiveCount st"
  let ?m = "AList.update (skippedKeyId pub ?k) (message_key S c ?k) (skippedKeys st)"
  let ?t = "st\<lparr>receivingChainKey := Some (chain_key S c (Suc ?k)), skippedKeys := ?m, receiveCount := ?k + 1\<rparr>"
  have r: "receivingChainKey st = Some (chain_key S c ?k)" "theirRatchetKey st = Some pub"
    "cache_room pub (N - ?k) (skippedKeys st)" using assms(3) by (simp_all add: receiving_def)
  have room: "cache_room pub (N - Suc ?k) ?m"
    using r(3) assms(4) by (intro cache_room_insert) (simp add: Suc_diff_Suc)
  have "evictSkippedKeys ?t = ?t"
    using cache_room_no_evict [OF room] by (simp add: evictSkippedKeys_def)
  then have "skip_step S st = (?t, Inr ())"
    using skip_step_eq [OF r(1) advance_chain_key [OF assms(1,2)] r(2)] by simp
  moreover have "receiving S ad pub c k0 N D ?t"
    using assms(3) room by (auto simp: receiving_def update_conv')
  ultimately show thesis by (rule that) simp
qed

lemma receiving_skip_loop:
  assumes "hmac_law S" "length c = 32" "receiving S ad pub c k0 N D st" "receiveCount st \<le> i" "i \<le> N"
  shows "\<exists>st'. skip_loop S i st = (st', Inr ()) \<and> receiving S ad pub c k0 N D st' \<and> receiveCount st' = i"
  using assms(3,4)
proof (induction "i - receiveCount st" arbitrary: st)
  case 0
  then show ?case by (simp add: skip_loop_stop)
next
  case (Suc d)
  then have less: "receiveCount st < i" by simp
  obtain t where t: "skip_step S st = (t, Inr ())" "receiving S ad pub c k0 N D t"
    "receiveCount t = Suc (receiveCount st)"
    using receiving_skip_step [OF assms(1,2) Suc.prems(1)] less assms(5) by (metis less_le_trans)
  show ?case
    using Suc.hyps(1) [of t] t less Suc.hyps(2) skip_loop_step [OF less t(1)] by simp
qed

text \<open>Opening a message of the chain that has not been opened before.\<close>

lemma receiving_decrypt:
  assumes laws: "hmac_law S" "length c = 32" "length pub = 32"
    and st: "receiving S ad pub c k0 N D st"
    and msg: "sealed S ad pub c i p msg" and i: "k0 \<le> i" "i < N" "i \<notin> D"
  obtains st' where "decryptMessage S fresh msg st = (st', Inr p)"
    "receiving S ad pub c k0 N (insert i D) st'"
proof (cases "i < receiveCount st")
  case True
  let ?id = "skippedKeyId pub i"
  let ?t = "st\<lparr>skippedKeys := AList.delete ?id (skippedKeys st)\<rparr>"
  have "map_of (skippedKeys st) ?id = Some (message_key S c i)"
    using st i True by (simp add: receiving_def)
  moreover have "decryptWithMessageKey S st (message_key S c i) (header msg) (ciphertext msg) = Inr p"
    using msg st by (simp add: sealed_def receiving_def)
  ultimately have "decryptMessage S fresh msg st = (?t, Inr p)"
    using msg laws(3) by (simp add: decryptMessage_def Let_def R_KEY_LENGTH_def sealed_def)
  moreover have "receiving S ad pub c k0 N (insert i D) ?t"
    using st True cache_room_delete by (auto simp: receiving_def delete_conv')
  ultimately show thesis by (rule that)
next
  case False
  have h: "dhPublicKey (header msg) = pub" "messageNumber (header msg) = i"
    using msg by (simp_all add: sealed_def)
  have r: "theirRatchetKey st = Some (dhPublicKey (header msg))" "receivingChainKey st \<noteq> None"
    "map_of (skippedKeys st) (skippedKeyId pub i) = None"
    using st h False i(1) by (simp_all add: receiving_def)
  have "N - receiveCount st \<le> MAX_SKIPPED_KEYS" using st by (simp add: receiving_def cache_room_def)
  then have gap: "\<not> int i - int (receiveCount st) > int MAX_SKIPPED_KEYS" using i(2) by simp
  obtain t where t: "skip_loop S i st = (t, Inr ())" "receiving S ad pub c k0 N D t" "receiveCount t = i"
    using receiving_skip_loop [OF laws(1,2) st] False i(2) by (metis linorder_not_less less_imp_le_nat)
  let ?w = "t\<lparr>receivingChainKey := Some (chain_key S c (Suc i)), receiveCount := i + 1\<rparr>"
  have ck: "receivingChainKey t = Some (chain_key S c i)" using t by (simp add: receiving_def)
  have "decryptWithMessageKey S t (message_key S c i) (header msg) (ciphertext msg) = Inr p"
    using msg t(2) by (simp add: sealed_def receiving_def)
  then have "receive_next S msg t = (?w, Inr p)"
    using receive_next_eq [OF ck advance_chain_key [OF laws(1,2)]] t(3) by simp
  then have "decrypt_working S fresh msg st = (?w, Inr p)"
    using decrypt_working_same [OF r(1)] h t(1) gap r(2) by (simp add: sbind_def skipMessageKeys_def)
  then have "decryptMessage S fresh msg st = (commitState st ?w, Inr p)"
    using h laws(3) r(3) by (simp add: decryptMessage_def Let_def R_KEY_LENGTH_def)
  moreover have "receiving S ad pub c k0 N (insert i D) (commitState st ?w)"
  proof -
    have room: "cache_room pub (N - Suc i) (skippedKeys t)"
      using t(2,3) by (auto simp: receiving_def elim: cache_room_mono)
    have "st_associatedData st = ad" using st by (simp add: receiving_def)
    then show ?thesis using t(2,3) room by (auto simp: receiving_def commitState_def)
  qed
  ultimately show thesis by (rule that)
qed

text \<open>
  Opening a list of messages one after the other; each comes with the pair the generator would
  return should the message start a DH ratchet step.
\<close>

fun receive_all ::
  "sodium \<Rightarrow> (KeyPair \<times> RatchetMessage) list \<Rightarrow> SessionState \<Rightarrow> SessionState \<times> bytes result list" where
  "receive_all S [] st = (st, [])"
| "receive_all S ((fresh, m) # ms) st =
     (let (st1, r) = decryptMessage S fresh m st; (st2, rs) = receive_all S ms st1 in (st2, r # rs))"

lemma receiving_all:
  assumes "hmac_law S" "length c = 32" "length pub = 32"
  shows "receiving S ad pub c k0 N D st \<Longrightarrow> distinct idx \<Longrightarrow> set idx \<inter> D = {} \<Longrightarrow>
    \<forall>i\<in>set idx. k0 \<le> i \<and> i < N \<and> sealed S ad pub c i (plain i) (msg i) \<Longrightarrow>
    snd (receive_all S (map (\<lambda>i. (fresh i, msg i)) idx) st) = map (\<lambda>i. Inr (plain i)) idx"
proof (induction idx arbitrary: D st)
  case (Cons i idx)
  obtain t where t: "decryptMessage S (fresh i) (msg i) st = (t, Inr (plain i))"
    "receiving S ad pub c k0 N (insert i D) t"
    by (rule receiving_decrypt [OF assms Cons.prems(1), of i "plain i" "msg i"]) (use Cons.prems in auto)
  have "snd (receive_all S (map (\<lambda>i. (fresh i, msg i)) idx) t) = map (\<lambda>i. Inr (plain i)) idx"
    by (rule Cons.IH [OF t(2)]) (use Cons.prems in auto)
  then show ?case using t(1) by (simp add: case_prod_unfold)
qed simp

subsection \<open>Rejected messages\<close>

lemma decryptMessage_rejected: "decryptMessage S fresh msg st = (st', Inl e) \<Longrightarrow> st' = st"
  by (auto simp: decryptMessage_def Let_def split: if_splits option.splits sum.splits prod.splits)

text \<open>The messages of a list that authenticated, and what they carried.\<close>

definition accepted :: "'m list \<Rightarrow> bytes result list \<Rightarrow> 'm list" where
  "accepted ms rs = map fst (filter (\<lambda>(m, r). isr r) (zip ms rs))"

lemma receive_all_accepted:
  "receive_all S ms st = (st', rs) \<Longrightarrow> receive_all S (accepted ms rs) st = (st', filter isr rs)"
proof (induction ms arbitrary: st st' rs)
  case (Cons fm ms)
  obtain fresh m where fm: "fm = (fresh, m)" by (cases fm)
  obtain t r where step: "decryptMessage S fresh m st = (t, r)" by (cases "decryptMessage S fresh m st")
  obtain u rest where rest: "receive_all S ms t = (u, rest)" by (cases "receive_all S ms t")
  have eq: "st' = u" "rs = r # rest" using Cons.prems fm step rest by simp_all
  show ?case
  proof (cases r)
    case (Inl e)
    then have "t = st" using step decryptMessage_rejected by blast
    then show ?thesis using Cons.IH [OF rest] eq Inl by (simp add: accepted_def)
  next
    case (Inr p)
    then show ?thesis using Cons.IH [OF rest] eq fm step by (simp add: accepted_def)
  qed
qed (simp add: accepted_def)

subsection \<open>Properties\<close>


text \<open>
  Claim C13. Out-of-order delivery: when sender and receiver stand on the same chain and the
  receiver's cache has room for the whole batch, the messages of a batch decrypt to their
  plaintexts in whatever order, and with whatever losses, they arrive (any list of distinct
  positions). Sending itself never fails.
\<close>

theorem any_order_delivery:
  assumes "hmac_law S" "aead_law S" "length c = 32" "length pub = 32"
    and "publicKey (ourRatchetKey a) = pub"
    and "sendingChainKey a = Some (chain_key S c (sendCount a))"
    and "receiving S (st_associatedData a) pub c (sendCount a) (sendCount a + length ps) {} b"
    and "receiveCount b = sendCount a"
    and "distinct order" "set order \<subseteq> {..<length ps}"
  shows "\<exists>msgs. snd (send_all S ps a) = map Inr msgs \<and>
           snd (receive_all S (map (\<lambda>i. (fresh i, msgs ! i)) order) b) = map (\<lambda>i. Inr (ps ! i)) order"
proof -
  let ?k = "sendCount a"
  obtain msgs where m: "snd (send_all S ps a) = map Inr msgs"
    "\<forall>i<length ps. sealed S (st_associatedData a) pub c (?k + i) (ps ! i) (msgs ! i)"
    using send_all_sealed [OF assms(1-3), of a ps] assms(4-6) by auto
  have "snd (receive_all S (map (\<lambda>i. (fresh (i - ?k), msgs ! (i - ?k))) (map ((+) ?k) order)) b)
      = map (\<lambda>i. Inr (ps ! (i - ?k))) (map ((+) ?k) order)"
    by (rule receiving_all [OF assms(1,3,4,7)]) (use assms(9,10) m(2) in \<open>auto simp: distinct_map\<close>)
  then show ?thesis using m(1) by (intro exI [of _ msgs]) (simp add: comp_def)
qed

theorem any_order_delivery_witness:
  "\<exists>msgs. snd (send_all demo_sodium [[1], [2], [3]] demo_sender) = map Inr msgs \<and>
     snd (receive_all demo_sodium [(demo_pair 8, msgs ! 2), (demo_pair 8, msgs ! 0)] demo_receiver)
     = [Inr [3], Inr [1]]"
proof -
  have "receiving demo_sodium (st_associatedData demo_sender) (replicate 32 5) (replicate 32 3)
      (sendCount demo_sender) (sendCount demo_sender + length [[1], [2], [3 :: byte]]) {} demo_receiver"
    by (simp add: receiving_def demo_sender_def demo_receiver_def cache_room_def ratchet_consts)
  then show ?thesis
    using any_order_delivery [OF demo_hmac_law demo_aead_law, of "replicate 32 3" "replicate 32 5" demo_sender
        "[[1], [2], [3]]" demo_receiver "[2, 0]" "\<lambda>_. demo_pair 8"]
    by (simp add: demo_sender_def demo_receiver_def demo_pair_def)
qed

end
