(* ===== verification/Session.thy ===== *)
theory Session
  imports Envelope Ratchet_Delivery
begin

section \<open>Session facade (\<open>crypto/session.ts\<close>)\<close>

text \<open>
  X3DH and the ratchet behind four calls. A \<open>Session\<close> is mutated in place, so \<open>encrypt\<close> and
  \<open>decrypt\<close> are effects on it. The responder's prekey store is an interface of the source: a
  record of the two calls, each an effect on the store's own state.
\<close>

record Session =
  sess_state :: SessionState
  pendingX3DH :: "InitialMessageHeader option"

record 'p PrekeyStore =
  signedPrekey :: "nat \<Rightarrow> ('p, KeyPair option) effect"
  takeOneTimePrekey :: "nat \<Rightarrow> ('p, KeyPair option) effect"

definition on_state :: "(SessionState, 'a) effect \<Rightarrow> (Session, 'a) effect" where
  "on_state m = (\<lambda>s. case m (sess_state s) of (st, r) \<Rightarrow> (s\<lparr>sess_state := st\<rparr>, r))"

text \<open>\<open>ephemeral\<close> is the pair X3DH draws, \<open>ratchetKey\<close> the one the ratchet draws.\<close>

definition startSession ::
  "sodium \<Rightarrow> KeyPair \<Rightarrow> KeyPair \<Rightarrow> Identity \<Rightarrow> PrekeyBundle \<Rightarrow> Session result" where
  "startSession S ephemeral ratchetKey ourIdentity bundle =
     rbind (initiateX3DH S ourIdentity bundle ephemeral) (\<lambda>agreement.
     rbind (initializeInitiator S (is_sharedSecret agreement) (is_associatedData agreement)
              (spk_publicKey (bundle_signedPrekey bundle)) ratchetKey) (\<lambda>st.
     Inr \<lparr>sess_state = st, pendingX3DH = Some (is_header agreement)\<rparr>))"

definition take_prekey :: "'p PrekeyStore \<Rightarrow> InitialMessageHeader \<Rightarrow> ('p, KeyPair option) effect" where
  "take_prekey prekeys x3dh =
     (case h_oneTimePrekeyId x3dh of
        None \<Rightarrow> sreturn None
      | Some otk \<Rightarrow>
          sbind (takeOneTimePrekey prekeys otk) (\<lambda>k. case k of
            None \<Rightarrow> sthrow (SessionError (''one-time prekey '' @ show_nat otk @ '' is not available''))
          | Some kp \<Rightarrow> sreturn (Some kp)))"

definition acceptSession ::
  "sodium \<Rightarrow> KeyPair \<Rightarrow> Identity \<Rightarrow> 'p PrekeyStore \<Rightarrow> bytes \<Rightarrow> ('p, Session \<times> bytes) effect" where
  "acceptSession S fresh ourIdentity prekeys raw =
     sbind (slift (decodeMessage raw)) (\<lambda>message.
     case (if im_type message \<noteq> MT_Initial then None else im_x3dh message) of
       None \<Rightarrow> sthrow (SessionError ''not an initial message'')
     | Some x3dh \<Rightarrow>
       sbind (signedPrekey prekeys (h_signedPrekeyId x3dh)) (\<lambda>spk. case spk of
         None \<Rightarrow> sthrow (SessionError (''unknown signed prekey '' @ show_nat (h_signedPrekeyId x3dh)))
       | Some spk \<Rightarrow>
         sbind (take_prekey prekeys x3dh) (\<lambda>oneTimePrekey.
         sbind (slift (respondX3DH S ourIdentity
                  \<lparr>signedPrekeyPrivate = privateKey spk,
                   oneTimePrekeyPrivate = map_option privateKey oneTimePrekey\<rparr> x3dh)) (\<lambda>agreement.
         sbind (slift (initializeResponder (rs_sharedSecret agreement) (rs_associatedData agreement) spk)) (\<lambda>st.
         slift (case decryptMessage S fresh (im_ratchet message) st of
                  (st', Inl e) \<Rightarrow> Inl e
                | (st', Inr plaintext) \<Rightarrow> Inr (\<lparr>sess_state = st', pendingX3DH = None\<rparr>, plaintext)))))))"

definition encrypt :: "sodium \<Rightarrow> bytes \<Rightarrow> (Session, bytes) effect" where
  "encrypt S plaintext =
     sbind (on_state (encryptMessage S plaintext)) (\<lambda>ratchet.
     sbind (sget pendingX3DH) (\<lambda>pending. slift (case pending of
       Some x3dh \<Rightarrow> encodeInitialMessage x3dh ratchet
     | None \<Rightarrow> encodeNormalMessage ratchet)))"

definition decrypt :: "sodium \<Rightarrow> KeyPair \<Rightarrow> bytes \<Rightarrow> (Session, bytes) effect" where
  "decrypt S fresh raw =
     sbind (slift (decodeMessage raw)) (\<lambda>message.
     sbind (on_state (decryptMessage S fresh (im_ratchet message))) (\<lambda>plaintext.
     sbind (smodify (\<lambda>s. s\<lparr>pendingX3DH := None\<rparr>)) (\<lambda>_.
     sreturn plaintext)))"

subsection \<open>What a prekey store promises\<close>

text \<open>
  \<open>otk\<close> is the pool a store holds. Taking a key removes it, whether or not the call then fails,
  and touches no other key; looking up the signed prekey leaves the pool alone.
\<close>

locale prekey_store =
  fixes prekeys :: "'p PrekeyStore"
    and otk :: "'p \<Rightarrow> nat \<Rightarrow> KeyPair option"
  assumes take_removes: "takeOneTimePrekey prekeys i p = (p', r) \<Longrightarrow> otk p' = (otk p)(i := None)"
    and take_returns: "takeOneTimePrekey prekeys i p = (p', Inr k) \<Longrightarrow> k = otk p i"
    and signed_keeps: "signedPrekey prekeys i p = (p', r) \<Longrightarrow> otk p' = otk p"
begin

lemma take_prekey_otk:
  assumes "take_prekey prekeys h p = (p', r)"
  shows "otk p' = (case h_oneTimePrekeyId h of None \<Rightarrow> otk p | Some i \<Rightarrow> (otk p)(i := None))"
proof (cases "h_oneTimePrekeyId h")
  case None
  then show ?thesis using assms by (simp add: take_prekey_def)
next
  case (Some i)
  obtain q k where take: "takeOneTimePrekey prekeys i p = (q, k)" by (cases "takeOneTimePrekey prekeys i p")
  then have "p' = q"
    using assms Some by (cases k) (auto simp: take_prekey_def sbind_def split: option.splits)
  then show ?thesis using take_removes [OF take] Some by simp
qed

lemma take_prekey_available:
  assumes "take_prekey prekeys h p = (p', Inr k)"
  shows "k = (case h_oneTimePrekeyId h of None \<Rightarrow> None | Some i \<Rightarrow> otk p i)"
    "h_oneTimePrekeyId h = Some i \<Longrightarrow> otk p i \<noteq> None"
proof -
  show "k = (case h_oneTimePrekeyId h of None \<Rightarrow> None | Some i \<Rightarrow> otk p i)"
  proof (cases "h_oneTimePrekeyId h")
    case None
    then show ?thesis using assms by (simp add: take_prekey_def)
  next
    case (Some i)
    then obtain k' where "takeOneTimePrekey prekeys i p = (p', Inr k')" "k = k'"
      using assms by (auto simp: take_prekey_def sbind_eq_Inr split: option.splits)
    then show ?thesis using take_returns Some by simp
  qed
  show "otk p i \<noteq> None" if hi: "h_oneTimePrekeyId h = Some i"
  proof -
    obtain k' where "takeOneTimePrekey prekeys i p = (p', Inr (Some k'))"
      using assms hi by (auto simp: take_prekey_def sbind_eq_Inr split: option.splits)
    then show ?thesis using take_returns by (metis option.distinct(1))
  qed
qed

text \<open>A one-time prekey that is gone is refused, whatever else the message says.\<close>

lemma accept_refused:
  assumes "decodeMessage raw = Inr m" "im_x3dh m = Some h" "h_oneTimePrekeyId h = Some i" "otk p i = None"
  shows "\<exists>e. snd (acceptSession S fresh me prekeys raw p) = Inl e"
proof (cases "snd (acceptSession S fresh me prekeys raw p)")
  case (Inr x)
  then obtain p' where "acceptSession S fresh me prekeys raw p = (p', Inr x)"
    by (cases "acceptSession S fresh me prekeys raw p") auto
  then obtain p1 spk p2 k where "signedPrekey prekeys (h_signedPrekeyId h) p = (p1, Inr (Some spk))"
    "take_prekey prekeys h p1 = (p2, Inr k)"
    using assms(1,2)
    by (auto simp: acceptSession_def sbind_eq_Inr split: if_splits option.splits)
  then show ?thesis using take_prekey_available(2) assms(3,4) signed_keeps by metis
qed auto

text \<open>Accepting a handshake consumes the one-time prekey it names and nothing else.\<close>

lemma accept_consumes:
  assumes "acceptSession S fresh me prekeys raw p = (p', Inr x)"
  obtains m h where "decodeMessage raw = Inr m" "im_x3dh m = Some h"
    "otk p' = (case h_oneTimePrekeyId h of None \<Rightarrow> otk p | Some i \<Rightarrow> (otk p)(i := None))"
    "\<And>i. h_oneTimePrekeyId h = Some i \<Longrightarrow> otk p i \<noteq> None"
proof -
  obtain m h p1 spk p2 k where m: "decodeMessage raw = Inr m" "im_x3dh m = Some h"
    and 1: "signedPrekey prekeys (h_signedPrekeyId h) p = (p1, Inr (Some spk))"
    and 2: "take_prekey prekeys h p1 = (p2, Inr k)" and "p' = p2"
    using assms by (auto simp: acceptSession_def sbind_eq_Inr split: if_splits option.splits)
  moreover have eq: "otk p1 = otk p" by (rule signed_keeps [OF 1])
  ultimately show thesis
    using that [OF m] take_prekey_otk [OF 2, unfolded eq] take_prekey_available(2) [OF 2, unfolded eq] by simp
qed

text \<open>So a recorded handshake with a one-time prekey cannot be replayed.\<close>

lemma accept_once:
  assumes "acceptSession S fresh me prekeys raw p = (p', Inr x)"
    and "decodeMessage raw = Inr m" "im_x3dh m = Some h" "h_oneTimePrekeyId h = Some i"
  shows "\<exists>e. snd (acceptSession S' fresh' me' prekeys raw p') = Inl e"
proof -
  have "otk p' i = None"
    by (rule accept_consumes [OF assms(1)]) (use assms(2-4) in auto)
  then show ?thesis using accept_refused assms(2-4) by blast
qed

end

end
