(* ===== verification/Conversation.thy ===== *)
theory Conversation
  imports Ratchet_Delivery
begin

section \<open>Two ratchets in step\<close>

text \<open>
  The relation between the two ends of a session while messages are in flight in both directions
  and arrive in the order they were sent. At any time one end (the leader) has a ratchet key the
  other (the follower) has not seen; the leader's root key is one step ahead. When the follower
  opens the first message under the new key it takes a DH ratchet step itself and the two change
  roles. A queue holds the messages in flight with the plaintexts they carry.
\<close>

type_synonym queue = "(bytes \<times> RatchetMessage) list"

definition in_flight :: "sodium \<Rightarrow> bytes \<Rightarrow> bytes \<Rightarrow> bytes \<Rightarrow> nat \<Rightarrow> queue \<Rightarrow> bool" where
  "in_flight S ad pub c k q \<longleftrightarrow>
     (\<forall>i<length q. sealed S ad pub c (k + i) (fst (q ! i)) (snd (q ! i)))"

lemma in_flight_Nil [simp]: "in_flight S ad pub c k []"
  by (simp add: in_flight_def)

lemma in_flight_Cons [simp]:
  "in_flight S ad pub c k ((p, m) # q) \<longleftrightarrow> sealed S ad pub c k p m \<and> in_flight S ad pub c (Suc k) q"
  unfolding in_flight_def by (auto simp: nth_Cons split: nat.splits)

lemma in_flight_append [simp]:
  "in_flight S ad pub c k (q @ q') \<longleftrightarrow> in_flight S ad pub c k q \<and> in_flight S ad pub c (k + length q) q'"
  by (induction q arbitrary: k) auto

text \<open>The follower's chain towards the leader, and the messages on it the leader has yet to open.\<close>

definition follower_chain :: "sodium \<Rightarrow> SessionState \<Rightarrow> SessionState \<Rightarrow> queue \<Rightarrow> bool" where
  "follower_chain S l f qfl \<longleftrightarrow>
     (sendingChainKey f = None \<and> receivingChainKey l = None \<and> qfl = []) \<or>
     (\<exists>c. length c = 32 \<and> sendingChainKey f = Some (chain_key S c (sendCount f)) \<and>
        receivingChainKey l = Some (chain_key S c (receiveCount l)) \<and>
        receiveCount l + length qfl = sendCount f \<and>
        in_flight S (st_associatedData l) (publicKey (ourRatchetKey f)) c (receiveCount l) qfl)"

text \<open>The leader's previous chain, which the follower may still be reading.\<close>

definition old_chain :: "sodium \<Rightarrow> SessionState \<Rightarrow> SessionState \<Rightarrow> queue \<Rightarrow> bool" where
  "old_chain S l f old \<longleftrightarrow>
     (receivingChainKey f = None \<and> old = []) \<or>
     (\<exists>c pub. length c = 32 \<and> length pub = 32 \<and> theirRatchetKey f = Some pub \<and>
        receivingChainKey f = Some (chain_key S c (receiveCount f)) \<and>
        receiveCount f + length old = previousChainLength l \<and>
        in_flight S (st_associatedData l) pub c (receiveCount f) old)"

text \<open>The leader's current chain: everything on it is still in flight.\<close>

definition new_chain :: "sodium \<Rightarrow> SessionState \<Rightarrow> SessionState \<Rightarrow> queue \<Rightarrow> bool" where
  "new_chain S l f new \<longleftrightarrow>
     (\<exists>c z. length c = 32 \<and>
        scalarmult S (privateKey (ourRatchetKey f)) (publicKey (ourRatchetKey l)) = Some z \<and>
        advanceRootKey S (rootKey f) z = Inr (rootKey l, c) \<and>
        sendingChainKey l = Some (chain_key S c (sendCount l)) \<and> length new = sendCount l \<and>
        in_flight S (st_associatedData l) (publicKey (ourRatchetKey l)) c 0 new \<and>
        (\<forall>x\<in>set new. h_previousChainLength (header (snd x)) = previousChainLength l))"

definition linked :: "sodium \<Rightarrow> SessionState \<Rightarrow> SessionState \<Rightarrow> bool" where
  "linked S l f \<longleftrightarrow>
     st_associatedData f = st_associatedData l \<and>
     kx_pair S (ourRatchetKey l) \<and> kx_pair S (ourRatchetKey f) \<and>
     length (rootKey l) = 32 \<and> length (rootKey f) = 32 \<and>
     skippedKeys l = [] \<and> skippedKeys f = [] \<and>
     theirRatchetKey l = Some (publicKey (ourRatchetKey f)) \<and>
     theirRatchetKey f \<noteq> Some (publicKey (ourRatchetKey l))"

definition in_step :: "sodium \<Rightarrow> SessionState \<Rightarrow> SessionState \<Rightarrow> queue \<Rightarrow> queue \<Rightarrow> bool" where
  "in_step S l f qlf qfl \<longleftrightarrow> linked S l f \<and> follower_chain S l f qfl \<and>
     (\<exists>old new. qlf = old @ new \<and> old_chain S l f old \<and> new_chain S l f new)"

lemma in_stepI:
  "linked S l f \<Longrightarrow> follower_chain S l f qfl \<Longrightarrow> old_chain S l f old \<Longrightarrow> new_chain S l f new \<Longrightarrow>
   in_step S l f (old @ new) qfl"
  by (auto simp: in_step_def)

lemma in_stepE:
  assumes "in_step S l f qlf qfl"
  obtains old new where "linked S l f" "follower_chain S l f qfl" "qlf = old @ new"
    "old_chain S l f old" "new_chain S l f new"
  using assms by (auto simp: in_step_def)

subsection \<open>Sending\<close>

lemma in_step_leader_sends:
  assumes laws: "hmac_law S" "dh_law S" "aead_law S" and inv: "in_step S l f qlf qfl"
  obtains m where "encryptMessage S p l = (fst (encryptMessage S p l), Inr m)"
    "in_step S (fst (encryptMessage S p l)) f (qlf @ [(p, m)]) qfl"
    "header m = current_header l" "length (ciphertext m) = length p + 16"
    "sendCount (fst (encryptMessage S p l)) = Suc (sendCount l)"
    "previousChainLength (fst (encryptMessage S p l)) = previousChainLength l"
proof -
  obtain old new where lk: "linked S l f" and fc: "follower_chain S l f qfl"
    and q: "qlf = old @ new" "old_chain S l f old" "new_chain S l f new"
    using in_stepE [OF inv] .
  obtain c z where c: "length c = 32"
    "scalarmult S (privateKey (ourRatchetKey f)) (publicKey (ourRatchetKey l)) = Some z"
    "advanceRootKey S (rootKey f) z = Inr (rootKey l, c)"
    "sendingChainKey l = Some (chain_key S c (sendCount l))" "length new = sendCount l"
    "in_flight S (st_associatedData l) (publicKey (ourRatchetKey l)) c 0 new"
    "\<forall>x\<in>set new. h_previousChainLength (header (snd x)) = previousChainLength l"
    using q(3) by (auto simp: new_chain_def)
  have pub: "length (publicKey (ourRatchetKey l)) = 32"
    using lk kx_pair_public_length [OF laws(2)] by (simp add: linked_def)
  let ?l = "l\<lparr>sendingChainKey := Some (chain_key S c (Suc (sendCount l))), sendCount := Suc (sendCount l)\<rparr>"
  obtain m where m: "encryptMessage S p l = (?l, Inr m)"
    "sealed S (st_associatedData l) (publicKey (ourRatchetKey l)) c (sendCount l) p m"
    "header m = current_header l" "length (ciphertext m) = length p + 16"
    using encryptMessage_sealed [OF laws(1,3) c(1) pub c(4)] .
  have "new_chain S ?l f (new @ [(p, m)])"
    unfolding new_chain_def using c m(2,3) by (intro exI [of _ c] exI [of _ z]) (auto simp: current_header_def)
  moreover have "old_chain S ?l f old" "follower_chain S ?l f qfl" "linked S ?l f"
    using q(2) fc lk by (simp_all add: old_chain_def follower_chain_def linked_def)
  ultimately have "in_step S ?l f (qlf @ [(p, m)]) qfl"
    using in_stepI [of S ?l f qfl old "new @ [(p, m)]"] q(1) by simp
  then show thesis using that [of m] m by simp
qed

lemma in_step_follower_sends:
  assumes laws: "hmac_law S" "dh_law S" "aead_law S" and inv: "in_step S l f qlf qfl"
    and ready: "sendingChainKey f \<noteq> None"
  obtains m where "encryptMessage S p f = (fst (encryptMessage S p f), Inr m)"
    "in_step S l (fst (encryptMessage S p f)) qlf (qfl @ [(p, m)])"
    "header m = current_header f" "length (ciphertext m) = length p + 16"
    "sendCount (fst (encryptMessage S p f)) = Suc (sendCount f)"
    "previousChainLength (fst (encryptMessage S p f)) = previousChainLength f"
proof -
  obtain old new where lk: "linked S l f" and fc: "follower_chain S l f qfl"
    and q: "qlf = old @ new" "old_chain S l f old" "new_chain S l f new"
    using in_stepE [OF inv] .
  obtain c where c: "length c = 32" "sendingChainKey f = Some (chain_key S c (sendCount f))"
    "receivingChainKey l = Some (chain_key S c (receiveCount l))" "receiveCount l + length qfl = sendCount f"
    "in_flight S (st_associatedData l) (publicKey (ourRatchetKey f)) c (receiveCount l) qfl"
    using fc ready by (auto simp: follower_chain_def)
  have pub: "length (publicKey (ourRatchetKey f)) = 32"
    using lk kx_pair_public_length [OF laws(2)] by (simp add: linked_def)
  let ?f = "f\<lparr>sendingChainKey := Some (chain_key S c (Suc (sendCount f))), sendCount := Suc (sendCount f)\<rparr>"
  obtain m where m: "encryptMessage S p f = (?f, Inr m)"
    "sealed S (st_associatedData f) (publicKey (ourRatchetKey f)) c (sendCount f) p m"
    "header m = current_header f" "length (ciphertext m) = length p + 16"
    using encryptMessage_sealed [OF laws(1,3) c(1) pub c(2)] .
  have ad: "st_associatedData f = st_associatedData l" using lk by (simp add: linked_def)
  have "follower_chain S l ?f (qfl @ [(p, m)])"
    unfolding follower_chain_def using c m(2) ad by (intro disjI2 exI [of _ c]) simp
  moreover have "old_chain S l ?f old" "new_chain S l ?f new" "linked S l ?f"
    using q lk by (simp_all add: old_chain_def new_chain_def linked_def)
  ultimately have "in_step S l ?f qlf (qfl @ [(p, m)])" using in_stepI q(1) by blast
  then show thesis using that [of m] m by simp
qed

subsection \<open>Receiving on a known chain\<close>

lemma receive_in_order:
  assumes laws: "hmac_law S" "length c = 32" "length pub = 32"
    and st: "skippedKeys st = []" "theirRatchetKey st = Some pub"
      "receivingChainKey st = Some (chain_key S c (receiveCount st))"
    and msg: "sealed S (st_associatedData st) pub c (receiveCount st) p m"
  shows "decryptMessage S fresh m st =
    (st\<lparr>receivingChainKey := Some (chain_key S c (Suc (receiveCount st))), receiveCount := Suc (receiveCount st)\<rparr>,
     Inr p)"
proof -
  have h: "dhPublicKey (header m) = pub" "messageNumber (header m) = receiveCount st"
    and open_m: "decryptWithMessageKey S st (message_key S c (receiveCount st)) (header m) (ciphertext m) = Inr p"
    using msg by (simp_all add: sealed_def)
  have "receive_next S m st =
    (st\<lparr>receivingChainKey := Some (chain_key S c (Suc (receiveCount st))), receiveCount := Suc (receiveCount st)\<rparr>,
     Inr p)"
    using receive_next_eq [OF st(3) advance_chain_key [OF laws(1,2)]] open_m by simp
  moreover have "skipMessageKeys S (receiveCount st) st = (st, Inr ())"
    by (simp add: skipMessageKeys_def skip_loop_stop)
  ultimately have "decrypt_working S fresh m st =
    (st\<lparr>receivingChainKey := Some (chain_key S c (Suc (receiveCount st))), receiveCount := Suc (receiveCount st)\<rparr>,
     Inr p)"
    using decrypt_working_same [of st m S fresh] st(2) h by (simp add: sbind_def)
  then show ?thesis
    using h laws(3) st(1) by (simp add: decryptMessage_def R_KEY_LENGTH_def commitState_def)
qed

lemma in_step_leader_receives:
  assumes laws: "hmac_law S" "dh_law S" and inv: "in_step S l f qlf ((p, m) # qfl)"
  obtains l' where "decryptMessage S fresh m l = (l', Inr p)" "in_step S l' f qlf qfl"
    "sendCount l' = sendCount l" "previousChainLength l' = previousChainLength l"
proof -
  obtain old new where lk: "linked S l f" and fc: "follower_chain S l f ((p, m) # qfl)"
    and q: "qlf = old @ new" "old_chain S l f old" "new_chain S l f new"
    using in_stepE [OF inv] .
  obtain c where c: "length c = 32" "sendingChainKey f = Some (chain_key S c (sendCount f))"
    "receivingChainKey l = Some (chain_key S c (receiveCount l))"
    "receiveCount l + length ((p, m) # qfl) = sendCount f"
    "in_flight S (st_associatedData l) (publicKey (ourRatchetKey f)) c (receiveCount l) ((p, m) # qfl)"
    using fc by (auto simp: follower_chain_def)
  have k: "length (publicKey (ourRatchetKey f)) = 32" "skippedKeys l = []"
    "theirRatchetKey l = Some (publicKey (ourRatchetKey f))"
    using lk kx_pair_public_length [OF laws(2)] by (simp_all add: linked_def)
  have m: "sealed S (st_associatedData l) (publicKey (ourRatchetKey f)) c (receiveCount l) p m"
    using c(5) by simp
  let ?l = "l\<lparr>receivingChainKey := Some (chain_key S c (Suc (receiveCount l))), receiveCount := Suc (receiveCount l)\<rparr>"
  have "decryptMessage S fresh m l = (?l, Inr p)"
    by (rule receive_in_order [OF laws(1) c(1) k(1,2,3) c(3) m])
  moreover have "follower_chain S ?l f qfl"
    unfolding follower_chain_def using c by (intro disjI2 exI [of _ c]) simp
  moreover have "old_chain S ?l f old" "new_chain S ?l f new" "linked S ?l f"
    using q lk by (simp_all add: old_chain_def new_chain_def linked_def)
  ultimately show thesis using that [of ?l] in_stepI q(1) by simp
qed

lemma in_step_follower_receives_old:
  assumes laws: "hmac_law S" and inv: "in_step S l f ((p, m) # old @ new) qfl"
    and q: "old_chain S l f ((p, m) # old)" "new_chain S l f new"
  obtains f' where "decryptMessage S fresh m f = (f', Inr p)" "in_step S l f' (old @ new) qfl"
    "sendCount f' = sendCount f" "previousChainLength f' = previousChainLength f"
proof -
  obtain c pub where c: "length c = 32" "length pub = 32" "theirRatchetKey f = Some pub"
    "receivingChainKey f = Some (chain_key S c (receiveCount f))"
    "receiveCount f + length ((p, m) # old) = previousChainLength l"
    "in_flight S (st_associatedData l) pub c (receiveCount f) ((p, m) # old)"
    using q(1) by (auto simp: old_chain_def)
  have lk: "linked S l f" and fc: "follower_chain S l f qfl" using inv by (simp_all add: in_step_def)
  then have k: "skippedKeys f = []" "st_associatedData f = st_associatedData l"
    by (simp_all add: linked_def)
  have m: "sealed S (st_associatedData f) pub c (receiveCount f) p m" using c(6) k(2) by simp
  let ?f = "f\<lparr>receivingChainKey := Some (chain_key S c (Suc (receiveCount f))), receiveCount := Suc (receiveCount f)\<rparr>"
  have "decryptMessage S fresh m f = (?f, Inr p)"
    by (rule receive_in_order [OF laws c(1,2) k(1) c(3,4) m])
  moreover have "old_chain S l ?f old"
    unfolding old_chain_def using c by (intro disjI2 exI [of _ c] exI [of _ pub]) simp
  moreover have "follower_chain S l ?f qfl" "new_chain S l ?f new" "linked S l ?f"
    using q fc lk by (simp_all add: follower_chain_def new_chain_def linked_def)
  ultimately show thesis using that [of ?f] in_stepI by simp
qed

subsection \<open>The DH ratchet step\<close>

lemma in_step_follower_ratchets:
  assumes laws: "hmac_law S" "dh_law S" and inv: "in_step S l f ((p, m) # new) qfl"
    and q: "old_chain S l f []" "new_chain S l f ((p, m) # new)"
    and fresh: "kx_pair S fresh" "publicKey fresh \<noteq> publicKey (ourRatchetKey f)"
  obtains f' where "decryptMessage S fresh m f = (f', Inr p)" "in_step S f' l qfl new"
    "sendCount f' = 0" "previousChainLength f' = sendCount f"
proof -
  obtain c z where c: "length c = 32"
    "scalarmult S (privateKey (ourRatchetKey f)) (publicKey (ourRatchetKey l)) = Some z"
    "advanceRootKey S (rootKey f) z = Inr (rootKey l, c)"
    "sendingChainKey l = Some (chain_key S c (sendCount l))" "length ((p, m) # new) = sendCount l"
    "in_flight S (st_associatedData l) (publicKey (ourRatchetKey l)) c 0 ((p, m) # new)"
    "h_previousChainLength (header m) = previousChainLength l"
    using q(2) by (auto simp: new_chain_def)
  have i: "st_associatedData f = st_associatedData l" "kx_pair S (ourRatchetKey l)" "kx_pair S (ourRatchetKey f)"
    "length (rootKey l) = 32" "skippedKeys l = []" "skippedKeys f = []"
    "theirRatchetKey l = Some (publicKey (ourRatchetKey f))" "theirRatchetKey f \<noteq> Some (publicKey (ourRatchetKey l))"
    "follower_chain S l f qfl"
    using inv by (simp_all add: in_step_def linked_def)
  have pub: "length (publicKey (ourRatchetKey l)) = 32" "length (publicKey (ourRatchetKey f)) = 32"
    using kx_pair_public_length [OF laws(2)] i by simp_all
  have m: "sealed S (st_associatedData l) (publicKey (ourRatchetKey l)) c 0 p m" using c(6) by simp
  then have h: "dhPublicKey (header m) = publicKey (ourRatchetKey l)" "messageNumber (header m) = 0"
    by (simp_all add: sealed_def)
  obtain z2 where z2: "scalarmult S (privateKey (ourRatchetKey l)) (publicKey fresh) = Some z2"
    "scalarmult S (privateKey fresh) (publicKey (ourRatchetKey l)) = Some z2" "length z2 = 32"
    using dh_lawD [OF laws(2) i(2) fresh(1)] .
  obtain rk2 c2 where k2: "advanceRootKey S (rootKey l) z2 = Inr (rk2, c2)" "length rk2 = 32" "length c2 = 32"
    using advanceRootKey_ok [OF laws(1) i(4)] .
  let ?g = "f\<lparr>rootKey := rk2, ourRatchetKey := fresh, theirRatchetKey := Some (publicKey (ourRatchetKey l)),
        sendingChainKey := Some c2, receivingChainKey := Some c,
        sendCount := 0, receiveCount := 0, previousChainLength := sendCount f\<rparr>"
  let ?h = "?g\<lparr>receivingChainKey := Some (chain_key S c 1), receiveCount := 1\<rparr>"
  have "skipMessageKeys S (previousChainLength l) f = (f, Inr ())"
    using q(1) by (auto simp: skipMessageKeys_def old_chain_def skip_loop_stop)
  moreover have "dhRatchet S fresh (publicKey (ourRatchetKey l)) f = (?g, Inr ())"
    by (rule dhRatchet_eq [OF c(2,3) z2(2) k2(1)])
  moreover have "skipMessageKeys S 0 ?g = (?g, Inr ())"
    by (simp add: skipMessageKeys_def skip_loop_stop)
  moreover have "receive_next S m ?g = (?h, Inr p)"
    using receive_next_eq [of ?g "chain_key S c 0" S "chain_key S c (Suc 0)" "message_key S c 0" m]
      advance_chain_key [OF laws(1) c(1), of 0] m i(1) by (simp add: sealed_def)
  ultimately have "decrypt_working S fresh m f = (?h, Inr p)"
    using decrypt_working_new [of f m S fresh] i(8) h c(7) by (simp add: sbind_def)
  then have dec: "decryptMessage S fresh m f = (?h, Inr p)"
    using h pub(1) i(6) by (simp add: decryptMessage_def R_KEY_LENGTH_def commitState_def)
  have "follower_chain S ?h l new"
    unfolding follower_chain_def using c i(1) by (intro disjI2 exI [of _ c]) simp
  moreover have "old_chain S ?h l qfl"
    using i(1,7,9) pub(2) by (auto simp: old_chain_def follower_chain_def)
  moreover have "new_chain S ?h l []"
    unfolding new_chain_def using z2(1) k2 by (intro exI [of _ c2] exI [of _ z2]) simp
  moreover have "linked S ?h l" using i fresh k2(2) by (simp add: linked_def)
  ultimately have "in_step S ?h l qfl new" using in_stepI [of S ?h l new qfl "[]"] by simp
  then show thesis using that dec by simp
qed

text \<open>Either kind of message the follower can receive next.\<close>

lemma in_step_follower_receives:
  assumes laws: "hmac_law S" "dh_law S" and inv: "in_step S l f ((p, m) # qlf) qfl"
    and fresh: "kx_pair S fresh" "publicKey fresh \<noteq> publicKey (ourRatchetKey f)"
  obtains f' where "decryptMessage S fresh m f = (f', Inr p)"
    "in_step S l f' qlf qfl \<or> in_step S f' l qfl qlf"
proof -
  obtain old new where q: "(p, m) # qlf = old @ new" "old_chain S l f old" "new_chain S l f new"
    using in_stepE [OF inv] by metis
  show thesis
  proof (cases old)
    case Nil
    then show thesis
      using in_step_follower_ratchets [OF laws inv _ _ fresh] q that by (metis append_Nil)
  next
    case (Cons x old')
    then have "in_step S l f ((p, m) # old' @ new) qfl" "old_chain S l f ((p, m) # old')" "qlf = old' @ new"
      using inv q by simp_all
    then show thesis
      using in_step_follower_receives_old [OF laws(1) _ _ q(3)] that by metis
  qed
qed

subsection \<open>The start of a session\<close>

lemma in_step_start:
  assumes laws: "hmac_law S" "dh_law S" and kp: "kx_pair S kp" "kx_pair S spk" and sk: "length sk = 32"
  obtains a b where "initializeInitiator S sk ad (publicKey spk) kp = Inr a"
    "initializeResponder sk ad spk = Inr b" "in_step S a b [] []"
    "sendCount a = 0" "previousChainLength a = 0" "sendCount b = 0" "previousChainLength b = 0"
proof -
  obtain z where z: "scalarmult S (privateKey kp) (publicKey spk) = Some z"
    "scalarmult S (privateKey spk) (publicKey kp) = Some z" "length z = 32"
    using dh_lawD [OF laws(2) kp] .
  obtain rk c where k: "advanceRootKey S sk z = Inr (rk, c)" "length rk = 32" "length c = 32"
    using advanceRootKey_ok [OF laws(1) sk] .
  have pub: "length (publicKey spk) = 32" by (rule kx_pair_public_length [OF laws(2) kp(2)])
  let ?a = "\<lparr>rootKey = rk, ourRatchetKey = kp, theirRatchetKey = Some (publicKey spk),
     sendingChainKey = Some c, receivingChainKey = None, sendCount = 0, receiveCount = 0,
     previousChainLength = 0, skippedKeys = [], st_associatedData = ad\<rparr>"
  let ?b = "\<lparr>rootKey = sk, ourRatchetKey = spk, theirRatchetKey = None, sendingChainKey = None,
     receivingChainKey = None, sendCount = 0, receiveCount = 0, previousChainLength = 0,
     skippedKeys = [], st_associatedData = ad\<rparr>"
  have "initializeInitiator S sk ad (publicKey spk) kp = Inr ?a" "initializeResponder sk ad spk = Inr ?b"
    using z(1) k(1) sk pub by (simp_all add: initializeInitiator_def initializeResponder_def R_KEY_LENGTH_def)
  moreover have "in_step S ?a ?b [] []"
    using kp sk k z(2) by (simp add: in_step_def linked_def follower_chain_def old_chain_def new_chain_def)
  ultimately show thesis using that by simp
qed

end
