(* ===== verification/Dialogue.thy ===== *)
theory Dialogue
  imports Session Conversation
begin

section \<open>A whole conversation, from handshake to any reply\<close>

text \<open>
  Two devices that speak through \<open>session.ts\<close> only: the initiator opens a session against a
  prekey bundle, the responder accepts its first message, and from then on either side encrypts
  and either side decrypts the wire bytes the other has sent, in order. The record keeps, besides
  the two live sessions and the bytes under way, what each side said and what each call of
  \<open>decrypt\<close> returned.
\<close>

datatype side = Initiator | Responder

fun other :: "side \<Rightarrow> side" where
  "other Initiator = Responder"
| "other Responder = Initiator"

lemma other_other [simp]: "other (other x) = x" by (cases x) simp_all
lemma other_neq [simp]: "other x \<noteq> x" "x \<noteq> other x" by (cases x; simp)+
lemma side_cases: "x = y \<or> x = other y" by (cases x; cases y) simp_all

record dialogue =
  ends :: "side \<Rightarrow> Session"
  wires :: "side \<Rightarrow> bytes list"
  said :: "side \<Rightarrow> bytes list"
  heard :: "side \<Rightarrow> bytes result list"
  refusals :: "error list"

definition say :: "sodium \<Rightarrow> side \<Rightarrow> bytes \<Rightarrow> dialogue \<Rightarrow> dialogue" where
  "say S x p d =
     (case encrypt S p (ends d x) of
        (s, Inl e) \<Rightarrow> d\<lparr>ends := (ends d)(x := s), refusals := refusals d @ [e]\<rparr>
      | (s, Inr wire) \<Rightarrow> d\<lparr>ends := (ends d)(x := s), wires := (wires d)(x := wires d x @ [wire]),
                          said := (said d)(x := said d x @ [p])\<rparr>)"

definition hear :: "sodium \<Rightarrow> side \<Rightarrow> KeyPair \<Rightarrow> dialogue \<Rightarrow> dialogue" where
  "hear S x fresh d =
     (case wires d (other x) of
        [] \<Rightarrow> d
      | wire # rest \<Rightarrow>
          (case decrypt S fresh wire (ends d x) of
             (s, r) \<Rightarrow> d\<lparr>ends := (ends d)(x := s), wires := (wires d)(other x := rest),
                         heard := (heard d)(x := heard d x @ [r])\<rparr>))"

text \<open>The handshake: start, first message, acceptance.\<close>

definition open_dialogue ::
  "sodium \<Rightarrow> KeyPair \<Rightarrow> KeyPair \<Rightarrow> KeyPair \<Rightarrow> Identity \<Rightarrow> PrekeyBundle \<Rightarrow> Identity \<Rightarrow> 'p PrekeyStore
   \<Rightarrow> bytes \<Rightarrow> ('p, dialogue) effect" where
  "open_dialogue S ephemeral ratchetKey fresh alice bundle bob prekeys hello =
     sbind (slift (startSession S ephemeral ratchetKey alice bundle)) (\<lambda>a.
     case encrypt S hello a of
       (a', Inl e) \<Rightarrow> sthrow e
     | (a', Inr wire) \<Rightarrow>
         sbind (acceptSession S fresh bob prekeys wire) (\<lambda>(b, plaintext).
         sreturn \<lparr>ends = (\<lambda>x. case x of Initiator \<Rightarrow> a' | Responder \<Rightarrow> b), wires = (\<lambda>_. []),
                  said = (\<lambda>x. case x of Initiator \<Rightarrow> [hello] | Responder \<Rightarrow> []),
                  heard = (\<lambda>x. case x of Initiator \<Rightarrow> [] | Responder \<Rightarrow> [Inr plaintext]),
                  refusals = []\<rparr>))"

text \<open>
  Any interleaving of the two sides. A message number is a 32-bit field of the wire format, so a
  chain carries at most \<open>2 ^ 32\<close> messages; a newly drawn ratchet key differs from the one it
  replaces.
\<close>

inductive dialogue_reach :: "sodium \<Rightarrow> dialogue \<Rightarrow> dialogue \<Rightarrow> bool" for S d0 where
  dialogue_start: "dialogue_reach S d0 d0"
| dialogue_say: "dialogue_reach S d0 d \<Longrightarrow> sendingChainKey (sess_state (ends d x)) \<noteq> None \<Longrightarrow>
    sendCount (sess_state (ends d x)) < 2 ^ 32 \<Longrightarrow> previousChainLength (sess_state (ends d x)) < 2 ^ 32 \<Longrightarrow>
    dialogue_reach S d0 (say S x p d)"
| dialogue_hear: "dialogue_reach S d0 d \<Longrightarrow> kx_pair S fresh \<Longrightarrow>
    publicKey fresh \<noteq> publicKey (ourRatchetKey (sess_state (ends d x))) \<Longrightarrow>
    dialogue_reach S d0 (hear S x fresh d)"

subsection \<open>Wire bytes and ratchet messages\<close>

definition carries :: "bytes \<Rightarrow> bytes \<times> RatchetMessage \<Rightarrow> bool" where
  "carries wire pm \<longleftrightarrow> (\<exists>im. decodeMessage wire = Inr im \<and> im_ratchet im = snd pm)"

definition pending_ok :: "Session \<Rightarrow> bool" where
  "pending_ok s \<longleftrightarrow> (case pendingX3DH s of None \<Rightarrow> True | Some h \<Rightarrow> x3dh_header_ok h)"

lemma encode_pending:
  assumes "ratchet_message_ok m" "case pending of None \<Rightarrow> True | Some h \<Rightarrow> x3dh_header_ok h"
  obtains wire im where
    "(case pending of Some x3dh \<Rightarrow> encodeInitialMessage x3dh m | None \<Rightarrow> encodeNormalMessage m) = Inr wire"
    "decodeMessage wire = Inr im" "im_ratchet im = m" "im_x3dh im = pending"
    "im_type im = (if pending = None then MT_Normal else MT_Initial)"
proof -
  let ?im = "\<lparr>im_type = (if pending = None then MT_Normal else MT_Initial), im_x3dh = pending, im_ratchet = m\<rparr>"
  have ok: "inner_ok ?im" using assms by (cases pending) (simp_all add: inner_ok_def)
  obtain wire where w: "encodeInner ?im = Inr wire" using encodeInner_ok [OF ok] by blast
  have "(case pending of Some x3dh \<Rightarrow> encodeInitialMessage x3dh m | None \<Rightarrow> encodeNormalMessage m) = Inr wire"
    using w by (cases pending) (simp_all add: encodeInner_def)
  then show thesis using that [of wire ?im] decode_encodeInner [OF ok w] by simp
qed

lemma encrypt_wire:
  assumes enc: "encryptMessage S p (sess_state s) = (st', Inr m)"
    and h: "header m = current_header (sess_state s)" "length (ciphertext m) = length p + 16"
    and len: "length (publicKey (ourRatchetKey (sess_state s))) = 32"
    and fit: "sendCount (sess_state s) < 2 ^ 32" "previousChainLength (sess_state s) < 2 ^ 32"
    and ok: "pending_ok s"
  obtains wire im where "encrypt S p s = (s\<lparr>sess_state := st'\<rparr>, Inr wire)" "decodeMessage wire = Inr im"
    "im_ratchet im = m" "im_x3dh im = pendingX3DH s"
    "im_type im = (if pendingX3DH s = None then MT_Normal else MT_Initial)"
proof -
  have "ciphertext m \<noteq> []" using h(2) by (metis add_is_0 list.size(3) zero_neq_numeral)
  then have "ratchet_message_ok m"
    using h(1) len fit by (simp add: ratchet_message_ok_def current_header_def)
  then obtain wire im where w:
    "(case pendingX3DH s of Some x3dh \<Rightarrow> encodeInitialMessage x3dh m | None \<Rightarrow> encodeNormalMessage m) = Inr wire"
    "decodeMessage wire = Inr im" "im_ratchet im = m" "im_x3dh im = pendingX3DH s"
    "im_type im = (if pendingX3DH s = None then MT_Normal else MT_Initial)"
    using encode_pending [of m "pendingX3DH s"] ok unfolding pending_ok_def by metis
  have "encrypt S p s = (s\<lparr>sess_state := st'\<rparr>, Inr wire)"
    using enc w(1) by (simp add: encrypt_def on_state_def sbind_def)
  then show thesis using that w by blast
qed

lemma decrypt_wire:
  assumes "carries wire (p, m)" "decryptMessage S fresh m (sess_state s) = (st', Inr p)"
  shows "decrypt S fresh wire s = (s\<lparr>sess_state := st', pendingX3DH := None\<rparr>, Inr p)"
  using assms by (auto simp: carries_def decrypt_def on_state_def sbind_def)

subsection \<open>The invariant\<close>

definition accounted :: "dialogue \<Rightarrow> side \<Rightarrow> queue \<Rightarrow> bool" where
  "accounted d x q \<longleftrightarrow>
     list_all2 carries (wires d x) q \<and> heard d (other x) @ map (Inr \<circ> fst) q = map Inr (said d x)"

definition dialogue_inv :: "sodium \<Rightarrow> dialogue \<Rightarrow> bool" where
  "dialogue_inv S d \<longleftrightarrow>
     refusals d = [] \<and> (\<forall>x. pending_ok (ends d x)) \<and>
     (\<exists>l ql qf. in_step S (sess_state (ends d l)) (sess_state (ends d (other l))) ql qf \<and>
        accounted d l ql \<and> accounted d (other l) qf)"

lemma accounted_say:
  assumes "accounted d x q" "carries wire (p, m)"
  shows "accounted (d\<lparr>ends := e, wires := (wires d)(x := wires d x @ [wire]),
                      said := (said d)(x := said d x @ [p])\<rparr>) x (q @ [(p, m)])"
  using assms by (simp add: accounted_def list_all2_appendI flip: append_assoc)

lemma accounted_say_other:
  assumes "accounted d y q" "y \<noteq> x"
  shows "accounted (d\<lparr>ends := e, wires := (wires d)(x := w), said := (said d)(x := t)\<rparr>) y q"
  using assms by (simp add: accounted_def)

lemma accounted_hear:
  assumes "accounted d x ((p, m) # q)" "wires d x = wire # rest"
  shows "accounted (d\<lparr>ends := e, wires := (wires d)(x := rest),
                      heard := (heard d)(other x := heard d (other x) @ [Inr p])\<rparr>) x q"
  using assms by (simp add: accounted_def)

lemma accounted_hear_other:
  assumes "accounted d y q" "y \<noteq> x"
  shows "accounted (d\<lparr>ends := e, wires := (wires d)(x := w), heard := (heard d)(other x := t)\<rparr>) y q"
proof -
  have "other y \<noteq> other x" using assms(2) by (metis other_other)
  then show ?thesis using assms by (simp add: accounted_def)
qed

lemma dialogue_invI:
  assumes "refusals d = []" "\<And>x. pending_ok (ends d x)"
    "in_step S (sess_state (ends d l)) (sess_state (ends d (other l))) ql qf"
    "accounted d l ql" "accounted d (other l) qf"
  shows "dialogue_inv S d"
  using assms by (auto simp: dialogue_inv_def)

lemma in_step_publics:
  assumes "dh_law S" "in_step S l f ql qf"
  shows "length (publicKey (ourRatchetKey l)) = 32" "length (publicKey (ourRatchetKey f)) = 32"
  using assms(2) kx_pair_public_length [OF assms(1)] by (simp_all add: in_step_def linked_def)

lemma say_inv:
  assumes laws: "hmac_law S" "dh_law S" "aead_law S" and inv: "dialogue_inv S d"
    and ready: "sendingChainKey (sess_state (ends d x)) \<noteq> None"
    and fit: "sendCount (sess_state (ends d x)) < 2 ^ 32" "previousChainLength (sess_state (ends d x)) < 2 ^ 32"
  shows "dialogue_inv S (say S x p d)"
proof -
  obtain l ql qf where i: "refusals d = []" "\<And>y. pending_ok (ends d y)"
    "in_step S (sess_state (ends d l)) (sess_state (ends d (other l))) ql qf"
    "accounted d l ql" "accounted d (other l) qf"
    using inv by (auto simp: dialogue_inv_def)
  let ?st = "sess_state (ends d x)"
  obtain m where m: "encryptMessage S p ?st = (fst (encryptMessage S p ?st), Inr m)"
    "header m = current_header ?st" "length (ciphertext m) = length p + 16"
    "x = l \<Longrightarrow> in_step S (fst (encryptMessage S p ?st)) (sess_state (ends d (other l))) (ql @ [(p, m)]) qf"
    "x = other l \<Longrightarrow> in_step S (sess_state (ends d l)) (fst (encryptMessage S p ?st)) ql (qf @ [(p, m)])"
  proof (cases "x = l")
    case True
    then show thesis using in_step_leader_sends [OF laws i(3), of p] that by (metis other_neq(2))
  next
    case False
    then have "x = other l" using side_cases by blast
    then show thesis
      using in_step_follower_sends [OF laws i(3), of p] ready that by (metis other_neq(1))
  qed
  have len: "length (publicKey (ourRatchetKey ?st)) = 32"
    using in_step_publics [OF laws(2) i(3)] side_cases [of x l] by auto
  obtain wire im where w: "encrypt S p (ends d x) = ((ends d x)\<lparr>sess_state := fst (encryptMessage S p ?st)\<rparr>, Inr wire)"
    "decodeMessage wire = Inr im" "im_ratchet im = m"
    using encrypt_wire [OF m(1,2,3) len fit i(2)] by metis
  have c: "carries wire (p, m)" using w by (simp add: carries_def)
  let ?s = "(ends d x)\<lparr>sess_state := fst (encryptMessage S p ?st)\<rparr>"
  let ?d = "d\<lparr>ends := (ends d)(x := ?s), wires := (wires d)(x := wires d x @ [wire]), said := (said d)(x := said d x @ [p])\<rparr>"
  have d: "say S x p d = ?d" using w by (simp add: say_def)
  have pend: "pending_ok (ends ?d y)" for y using i(2) [of y] i(2) [of x] by (simp add: pending_ok_def)
  show ?thesis unfolding d
  proof (cases "x = l")
    case True
    show "dialogue_inv S ?d"
      by (rule dialogue_invI [where l = l and ql = "ql @ [(p, m)]" and qf = qf])
         (use i(1) pend m(4) True accounted_say [OF i(4) c] accounted_say_other [OF i(5)] in simp_all)
  next
    case False
    then have x: "x = other l" using side_cases by blast
    show "dialogue_inv S ?d"
      by (rule dialogue_invI [where l = l and ql = ql and qf = "qf @ [(p, m)]"])
         (use i(1) pend m(5) x accounted_say [OF i(5) c] accounted_say_other [OF i(4)] in simp_all)
  qed
qed

lemma hear_inv:
  assumes laws: "hmac_law S" "dh_law S" and inv: "dialogue_inv S d"
    and fresh: "kx_pair S fresh" "publicKey fresh \<noteq> publicKey (ourRatchetKey (sess_state (ends d x)))"
  shows "dialogue_inv S (hear S x fresh d)"
proof (cases "wires d (other x)")
  case Nil
  then show ?thesis using inv by (simp add: hear_def)
next
  case (Cons wire rest)
  obtain l ql qf where i: "refusals d = []" "\<And>y. pending_ok (ends d y)"
    "in_step S (sess_state (ends d l)) (sess_state (ends d (other l))) ql qf"
    "accounted d l ql" "accounted d (other l) qf"
    using inv by (auto simp: dialogue_inv_def)
  let ?st = "sess_state (ends d x)"
  define q where "q = (if x = l then qf else ql)"
  have acc: "accounted d (other x) q"
    using i(4,5) side_cases [of x l] by (auto simp: q_def)
  then obtain p m q' where q': "q = (p, m) # q'" "carries wire (p, m)"
    using Cons by (cases q) (auto simp: accounted_def)
  obtain st' where st': "decryptMessage S fresh m ?st = (st', Inr p)"
    "x = l \<Longrightarrow> in_step S st' (sess_state (ends d (other l))) ql q'"
    "x \<noteq> l \<Longrightarrow> in_step S (sess_state (ends d l)) st' q' qf \<or> in_step S st' (sess_state (ends d l)) qf q'"
  proof (cases "x = l")
    case True
    then have "in_step S ?st (sess_state (ends d (other l))) ql ((p, m) # q')" using i(3) q' by (simp add: q_def)
    then show thesis using in_step_leader_receives [OF laws] that True by metis
  next
    case False
    then have x: "x = other l" using side_cases by blast
    then have "in_step S (sess_state (ends d l)) ?st ((p, m) # q') qf" using i(3) q' by (simp add: q_def)
    then show thesis using in_step_follower_receives [OF laws _ fresh] that False by metis
  qed
  let ?s = "(ends d x)\<lparr>sess_state := st', pendingX3DH := None\<rparr>"
  let ?d = "d\<lparr>ends := (ends d)(x := ?s), wires := (wires d)(other x := rest), heard := (heard d)(x := heard d x @ [Inr p])\<rparr>"
  have d: "hear S x fresh d = ?d"
    using Cons decrypt_wire [OF q'(2) st'(1)] by (simp add: hear_def)
  have pend: "pending_ok (ends ?d y)" for y using i(2) [of y] by (simp add: pending_ok_def)
  have mine: "accounted ?d (other x) q'"
    using accounted_hear [OF acc [unfolded q'(1)] Cons] by simp
  have theirs: "accounted ?d x q''" if a: "accounted d x q''" for q''
    using accounted_hear_other [OF a, of "other x"] by simp
  show ?thesis unfolding d
  proof (cases "x = l")
    case True
    show "dialogue_inv S ?d"
      by (rule dialogue_invI [where l = l and ql = ql and qf = q'])
         (use i(1,4) pend st'(2) mine theirs True in simp_all)
  next
    case False
    then have xl: "x = other l" using side_cases [of x l] by blast
    then have lx: "other x = l" by simp
    have t: "accounted ?d x qf" using theirs i(5) unfolding xl .
    have mine': "accounted ?d l q'" using mine unfolding lx .
    from st'(3) [OF False] show "dialogue_inv S ?d"
    proof
      assume "in_step S (sess_state (ends d l)) st' q' qf"
      then have "in_step S (sess_state (ends ?d l)) (sess_state (ends ?d (other l))) q' qf"
        using False by (simp add: xl [symmetric])
      then show ?thesis
        by (rule dialogue_invI [rotated 2]) (use i(1) pend t mine' in \<open>simp_all add: xl [symmetric]\<close>)
    next
      assume "in_step S st' (sess_state (ends d l)) qf q'"
      then have "in_step S (sess_state (ends ?d x)) (sess_state (ends ?d (other x))) qf q'"
        using False by (simp add: lx)
      then show ?thesis
        by (rule dialogue_invI [rotated 2]) (use i(1) pend t mine' in \<open>simp_all add: lx\<close>)
    qed
  qed
qed

lemma dialogue_reach_inv:
  assumes "hmac_law S" "dh_law S" "aead_law S" "dialogue_inv S d0" "dialogue_reach S d0 d"
  shows "dialogue_inv S d"
  using assms(5) by induction (use assms say_inv hear_inv in blast)+

text \<open>What the invariant says about what was heard.\<close>

lemma accounted_heard:
  assumes "accounted d x q"
  shows "heard d (other x) = map Inr (take (length (heard d (other x))) (said d x))"
    "length (heard d (other x)) + length (wires d x) = length (said d x)"
proof -
  let ?h = "heard d (other x)"
  have eq: "?h @ map (Inr \<circ> fst) q = map Inr (said d x)" and w: "length (wires d x) = length q"
    using assms by (auto simp: accounted_def dest: list_all2_lengthD)
  have "?h = take (length ?h) (map Inr (said d x))" by (subst eq [symmetric]) simp
  then show "?h = map Inr (take (length ?h) (said d x))" by (simp only: take_map)
  have "length ?h + length q = length (said d x)" using arg_cong [OF eq, of length] by simp
  then show "length ?h + length (wires d x) = length (said d x)" using w by simp
qed

lemma dialogue_inv_heard:
  assumes "dialogue_inv S d"
  shows "refusals d = []"
    "heard d (other x) = map Inr (take (length (heard d (other x))) (said d x))"
    "length (heard d (other x)) + length (wires d x) = length (said d x)"
proof -
  obtain q where "accounted d x q"
    using assms side_cases [of x] unfolding dialogue_inv_def by metis
  then show "heard d (other x) = map Inr (take (length (heard d (other x))) (said d x))"
    "length (heard d (other x)) + length (wires d x) = length (said d x)"
    using accounted_heard by blast+
qed (use assms in \<open>simp add: dialogue_inv_def\<close>)

subsection \<open>The handshake\<close>

text \<open>The store answers for the signed prekey and for the one-time prekey the bundle offered.\<close>

definition serves ::
  "'p PrekeyStore \<Rightarrow> 'p \<Rightarrow> 'p \<Rightarrow> nat \<Rightarrow> KeyPair \<Rightarrow> (nat \<times> KeyPair) option \<Rightarrow> bool" where
  "serves prekeys p p' spkId spk opk \<longleftrightarrow>
     (\<exists>p1. signedPrekey prekeys spkId p = (p1, Inr (Some spk)) \<and>
        (case opk of None \<Rightarrow> p' = p1 | Some (i, kp) \<Rightarrow> takeOneTimePrekey prekeys i p1 = (p', Inr (Some kp))))"

definition key_ids_fit :: "nat \<Rightarrow> (nat \<times> KeyPair) option \<Rightarrow> bool" where
  "key_ids_fit spkId opk \<longleftrightarrow> spkId < 2 ^ 32 \<and> (case opk of None \<Rightarrow> True | Some (i, _) \<Rightarrow> i < 2 ^ 32)"

lemma serves_take:
  assumes "serves prekeys p p' spkId spk opk" "h_oneTimePrekeyId h = map_option fst opk"
  obtains p1 where "signedPrekey prekeys spkId p = (p1, Inr (Some spk))"
    "take_prekey prekeys h p1 = (p', Inr (map_option snd opk))"
  using assms by (cases opk) (auto simp: serves_def take_prekey_def sbind_def)

lemma accept_eq:
  assumes "decodeMessage raw = Inr im" "im_type im = MT_Initial" "im_x3dh im = Some h"
    "signedPrekey prekeys (h_signedPrekeyId h) p = (p1, Inr (Some spk))"
    "take_prekey prekeys h p1 = (p', Inr (map_option snd opk))"
    "respondX3DH S me (prekeys_of spk opk) h = Inr rs"
    "initializeResponder (rs_sharedSecret rs) (rs_associatedData rs) spk = Inr b"
    "decryptMessage S fresh (im_ratchet im) b = (b', Inr plaintext)"
  shows "acceptSession S fresh me prekeys raw p = (p', Inr (\<lparr>sess_state = b', pendingX3DH = None\<rparr>, plaintext))"
proof -
  have "\<lparr>signedPrekeyPrivate = privateKey spk, oneTimePrekeyPrivate = map_option privateKey (map_option snd opk)\<rparr>
      = prekeys_of spk opk"
    by (cases opk) (auto simp: prekeys_of_def)
  then show ?thesis using assms by (simp add: acceptSession_def sbind_def)
qed

lemma handshake:
  assumes laws: "crypto_laws S" and a: "identity_ok S alice" and bo: "identity_ok S bob"
    and keys: "kx_pair S spk" "kx_pair S eph" "kx_pair S rk" "kx_pair S fresh" "opk_ok S opk"
    and new: "publicKey fresh \<noteq> publicKey spk"
    and b: "honest_bundle S bob spkId spk opk bundle" and ids: "key_ids_fit spkId opk"
    and store: "serves prekeys p p' spkId spk opk"
  obtains d0 where "open_dialogue S eph rk fresh alice bundle bob prekeys hello p = (p', Inr d0)"
    "dialogue_inv S d0" "said d0 Initiator = [hello]" "heard d0 Responder = [Inr hello]"
proof -
  note L = crypto_lawsD [OF laws]
  have opk: "\<And>i kp. opk = Some (i, kp) \<Longrightarrow> kx_pair S kp" using keys(5) by (simp add: opk_ok_def)
  obtain ses rs where x: "initiateX3DH S alice bundle eph = Inr ses"
    "respondX3DH S bob (prekeys_of spk opk) (is_header ses) = Inr rs"
    "rs_sharedSecret rs = is_sharedSecret ses" "rs_associatedData rs = is_associatedData ses"
    "length (is_sharedSecret ses) = 32"
    "is_header ses = \<lparr>h_identityKey = publicKey (signing alice), h_identityDhKey = publicKey (dh alice),
       h_ephemeralKey = publicKey eph, h_signedPrekeyId = spkId, h_oneTimePrekeyId = map_option fst opk\<rparr>"
    using x3dh_agreement_lemma [OF laws a bo keys(1,2) opk b] .
  obtain sta stb where st: "initializeInitiator S (is_sharedSecret ses) (is_associatedData ses) (publicKey spk) rk = Inr sta"
    "initializeResponder (is_sharedSecret ses) (is_associatedData ses) spk = Inr stb" "in_step S sta stb [] []"
    "sendCount sta = 0" "previousChainLength sta = 0" "sendCount stb = 0" "previousChainLength stb = 0"
    using in_step_start [OF L(1,3) keys(3,1) x(5)] .
  let ?s = "\<lparr>sess_state = sta, pendingX3DH = Some (is_header ses)\<rparr>"
  have spk: "spk_publicKey (bundle_signedPrekey bundle) = publicKey spk"
    by (rule honest_bundle_checks(3) [OF laws bo keys(1) opk b])
  have start: "startSession S eph rk alice bundle = Inr ?s"
    using x(1) st(1) spk by (simp add: startSession_def)
  obtain m where m: "encryptMessage S hello sta = (fst (encryptMessage S hello sta), Inr m)"
    "in_step S (fst (encryptMessage S hello sta)) stb [(hello, m)] []"
    "header m = current_header sta" "length (ciphertext m) = length hello + 16"
    using in_step_leader_sends [OF L(1,3,4) st(3), of hello] by (metis append_Nil)
  have "length (publicKey (signing alice)) = 32"
    using sign_lawD [OF L(5)] a unfolding identity_ok_def by metis
  moreover have "length (publicKey (dh alice)) = 32" "length (publicKey eph) = 32"
    using kx_pair_public_length [OF L(3)] a keys(2) by (simp_all add: identity_ok_def)
  ultimately have pend: "x3dh_header_ok (is_header ses)"
    using ids by (cases opk) (auto simp: x3dh_header_ok_def x(6) key_ids_fit_def)
  have enc: "encryptMessage S hello (sess_state ?s) = (fst (encryptMessage S hello sta), Inr m)"
    "header m = current_header (sess_state ?s)" "length (publicKey (ourRatchetKey (sess_state ?s))) = 32"
    "sendCount (sess_state ?s) < 2 ^ 32" "previousChainLength (sess_state ?s) < 2 ^ 32" "pending_ok ?s"
    using m(1,3) st(4,5) in_step_publics [OF L(3) st(3)] pend by (simp_all add: pending_ok_def)
  obtain wire im where w: "encrypt S hello ?s = (?s\<lparr>sess_state := fst (encryptMessage S hello sta)\<rparr>, Inr wire)"
    "decodeMessage wire = Inr im" "im_ratchet im = m" "im_x3dh im = pendingX3DH ?s"
    "im_type im = (if pendingX3DH ?s = None then MT_Normal else MT_Initial)"
    using encrypt_wire [OF enc(1,2) m(4) enc(3-6)] .
  have new': "publicKey fresh \<noteq> publicKey (ourRatchetKey stb)"
    using new st(2) x(5) by (auto simp: initializeResponder_def R_KEY_LENGTH_def)
  obtain stb' where b': "decryptMessage S fresh m stb = (stb', Inr hello)"
    "in_step S (fst (encryptMessage S hello sta)) stb' [] [] \<or> in_step S stb' (fst (encryptMessage S hello sta)) [] []"
    using in_step_follower_receives [OF L(1,3) m(2) keys(4) new'] .
  have hid: "h_oneTimePrekeyId (is_header ses) = map_option fst opk" "h_signedPrekeyId (is_header ses) = spkId"
    by (simp_all add: x(6))
  obtain p1 where p1: "signedPrekey prekeys spkId p = (p1, Inr (Some spk))"
    "take_prekey prekeys (is_header ses) p1 = (p', Inr (map_option snd opk))"
    using serves_take [OF store hid(1)] .
  have acc: "acceptSession S fresh bob prekeys wire p = (p', Inr (\<lparr>sess_state = stb', pendingX3DH = None\<rparr>, hello))"
    by (rule accept_eq [where im = im and opk = opk and h = "is_header ses" and rs = rs and b = stb])
       (use w(2-5) p1 x(2-4) st(2) b'(1) hid(2) in simp_all)
  let ?a = "\<lparr>sess_state = fst (encryptMessage S hello sta), pendingX3DH = Some (is_header ses)\<rparr>" and ?b = "\<lparr>sess_state = stb', pendingX3DH = None\<rparr>"
  let ?d = "\<lparr>ends = (\<lambda>x. case x of Initiator \<Rightarrow> ?a | Responder \<Rightarrow> ?b), wires = (\<lambda>_. []),
     said = (\<lambda>x. case x of Initiator \<Rightarrow> [hello] | Responder \<Rightarrow> []),
     heard = (\<lambda>x. case x of Initiator \<Rightarrow> [] | Responder \<Rightarrow> [Inr hello]), refusals = []\<rparr>"
  have "open_dialogue S eph rk fresh alice bundle bob prekeys hello p = (p', Inr ?d)"
    using start w(1) acc by (simp add: open_dialogue_def sbind_def)
  moreover have "dialogue_inv S ?d"
  proof -
    have acc0: "accounted ?d y []" for y by (cases y) (simp_all add: accounted_def)
    have pend0: "pending_ok (ends ?d y)" for y using pend by (cases y) (simp_all add: pending_ok_def)
    from b'(2) show ?thesis
    proof
      assume "in_step S (fst (encryptMessage S hello sta)) stb' [] []"
      then show ?thesis
        by (intro dialogue_invI [where l = Initiator and ql = "[]" and qf = "[]"] acc0 pend0) simp_all
    next
      assume "in_step S stb' (fst (encryptMessage S hello sta)) [] []"
      then show ?thesis
        by (intro dialogue_invI [where l = Responder and ql = "[]" and qf = "[]"] acc0 pend0) simp_all
    qed
  qed
  ultimately show thesis using that by simp
qed

subsection \<open>Properties\<close>


definition demo_store :: "(nat \<Rightarrow> KeyPair option) PrekeyStore" where
  "demo_store =
     \<lparr>signedPrekey = (\<lambda>i. sreturn (if i = 1 then Some (demo_pair 4) else None)),
      takeOneTimePrekey = (\<lambda>i pool. (pool(i := None), Inr (pool i)))\<rparr>"


end
