(* ===== verification/Json.thy ===== *)
theory Json
  imports Complex_Main Prelude
begin

section \<open>JSON text\<close>

text \<open>
  \<open>JSON.stringify\<close> and \<open>JSON.parse\<close> as the client uses them: content frames, vault records and
  API bodies all pass through them. A number is the exact rational its text denotes; the numbers
  the client writes are integers far below \<open>2 ^ 53\<close>, where a double is exact. An object is an
  association list in insertion order; a repeated key keeps its place and takes the last value.
  A field that is \<open>undefined\<close> is left out when an object is built. Strings are their UTF-8 bytes,
  an escaped surrogate that stands alone is encoded like any other code unit. The parser carries
  fuel, one unit per nesting level or element, and the length of the text is enough of it.
\<close>

type_synonym number = rat

datatype json =
    JNull
  | JBool bool
  | JNum rat
  | JStr string
  | JArr "json list"
  | JObj "(string \<times> json) list"

subsection \<open>Printing\<close>

definition hex_digit :: "nat \<Rightarrow> char" where
  "hex_digit n = char_of (if n < 10 then 48 + n else 87 + n)"

definition escape_char :: "char \<Rightarrow> string" where
  "escape_char c =
     (let n = of_char c :: nat in
      if c = CHR 0x22 then [CHR 0x5C, CHR 0x22]
      else if c = CHR 0x5C then [CHR 0x5C, CHR 0x5C]
      else if c = CHR 0x08 then [CHR 0x5C, CHR ''b'']
      else if c = CHR 0x09 then [CHR 0x5C, CHR ''t'']
      else if c = CHR 0x0A then [CHR 0x5C, CHR ''n'']
      else if c = CHR 0x0C then [CHR 0x5C, CHR ''f'']
      else if c = CHR 0x0D then [CHR 0x5C, CHR ''r'']
      else if n < 32 then [CHR 0x5C, CHR ''u'', CHR ''0'', CHR ''0'', hex_digit (n div 16), hex_digit (n mod 16)]
      else [c])"

definition print_string :: "string \<Rightarrow> string" where
  "print_string s = CHR 0x22 # concat (map escape_char s) @ [CHR 0x22]"

text \<open>The number of decimals, and a number as its sign, integer part and decimals.\<close>

definition is_integer :: "rat \<Rightarrow> bool" where
  "is_integer q \<longleftrightarrow> of_int \<lfloor>q\<rfloor> = q"

fun scale :: "nat \<Rightarrow> rat \<Rightarrow> nat" where
  "scale 0 q = 0"
| "scale (Suc n) q = (if is_integer q then 0 else Suc (scale n (10 * q)))"

definition pad_left :: "nat \<Rightarrow> string \<Rightarrow> string" where
  "pad_left k s = replicate (k - length s) (CHR ''0'') @ s"

definition print_abs :: "nat \<Rightarrow> nat \<Rightarrow> string" where
  "print_abs m k = (if k = 0 then show_nat m
                    else show_nat (m div 10 ^ k) @ ''.'' @ pad_left k (show_nat (m mod 10 ^ k)))"

definition decimals :: "rat \<Rightarrow> nat" where
  "decimals q = scale (nat (snd (quotient_of q))) q"

definition print_number :: "rat \<Rightarrow> string" where
  "print_number q =
     (let k = decimals q; m = nat \<lfloor>\<bar>q\<bar> * 10 ^ k\<rfloor>
      in (if q < 0 then ''-'' else '''') @ print_abs m k)"

fun commas :: "string list \<Rightarrow> string" where
  "commas [] = []"
| "commas [x] = x"
| "commas (x # y # ys) = x @ '','' @ commas (y # ys)"

fun json_print :: "json \<Rightarrow> string" where
  "json_print JNull = ''null''"
| "json_print (JBool b) = (if b then ''true'' else ''false'')"
| "json_print (JNum q) = print_number q"
| "json_print (JStr s) = print_string s"
| "json_print (JArr xs) = ''['' @ commas (map json_print xs) @ '']''"
| "json_print (JObj kvs) = ''{'' @ commas (map (\<lambda>(k, v). print_string k @ '':'' @ json_print v) kvs) @ ''}''"

subsection \<open>Parsing\<close>

definition is_ws :: "char \<Rightarrow> bool" where
  "is_ws c \<longleftrightarrow> of_char c \<in> {9 :: nat, 10, 13, 32}"

definition skip_ws :: "string \<Rightarrow> string" where
  "skip_ws s = dropWhile is_ws s"

definition hex_val :: "char \<Rightarrow> nat option" where
  "hex_val c =
     (let n = of_char c :: nat in
      if 48 \<le> n \<and> n \<le> 57 then Some (n - 48)
      else if 97 \<le> n \<and> n \<le> 102 then Some (n - 87)
      else if 65 \<le> n \<and> n \<le> 70 then Some (n - 55)
      else None)"

definition hex4 :: "char \<Rightarrow> char \<Rightarrow> char \<Rightarrow> char \<Rightarrow> nat option" where
  "hex4 a b c d =
     (case (hex_val a, hex_val b, hex_val c, hex_val d) of
        (Some w, Some x, Some y, Some z) \<Rightarrow> Some (((w * 16 + x) * 16 + y) * 16 + z)
      | _ \<Rightarrow> None)"

definition utf8_of_code :: "nat \<Rightarrow> string" where
  "utf8_of_code n =
     (if n < 128 then [char_of n]
      else if n < 2048 then [char_of (192 + n div 64), char_of (128 + n mod 64)]
      else if n < 65536 then [char_of (224 + n div 4096), char_of (128 + n div 64 mod 64), char_of (128 + n mod 64)]
      else [char_of (240 + n div 262144), char_of (128 + n div 4096 mod 64), char_of (128 + n div 64 mod 64),
            char_of (128 + n mod 64)])"

definition unescape_char :: "char \<Rightarrow> char option" where
  "unescape_char c =
     (if c = CHR 0x22 \<or> c = CHR 0x5C \<or> c = CHR 0x2F then Some c
      else if c = CHR ''b'' then Some (CHR 0x08)
      else if c = CHR ''t'' then Some (CHR 0x09)
      else if c = CHR ''n'' then Some (CHR 0x0A)
      else if c = CHR ''f'' then Some (CHR 0x0C)
      else if c = CHR ''r'' then Some (CHR 0x0D)
      else None)"

text \<open>A \<open>\u\<close> escape after the letter: the bytes it stands for and the text behind it.\<close>

fun parse_u :: "string \<Rightarrow> (string \<times> string) option" where
  "parse_u (a # b # c # d # r) =
     (case hex4 a b c d of
        None \<Rightarrow> None
      | Some hi \<Rightarrow>
          (case r of
             x # y # e # f # g # h # r' \<Rightarrow>
               (case hex4 e f g h of
                  Some lo \<Rightarrow>
                    if 55296 \<le> hi \<and> hi < 56320 \<and> x = CHR 0x5C \<and> y = CHR ''u'' \<and> 56320 \<le> lo \<and> lo < 57344
                    then Some (utf8_of_code (65536 + (hi - 55296) * 1024 + (lo - 56320)), r')
                    else Some (utf8_of_code hi, r)
                | None \<Rightarrow> Some (utf8_of_code hi, r))
           | _ \<Rightarrow> Some (utf8_of_code hi, r)))"
| "parse_u _ = None"

lemma parse_u_shorter: "parse_u s = Some (t, r) \<Longrightarrow> length r < length s"
  by (induction s rule: parse_u.induct) (auto split: option.splits list.splits if_splits)

text \<open>The rest of a string after its opening quote.\<close>

function parse_chars :: "string \<Rightarrow> (string \<times> string) option" where
  "parse_chars [] = None"
| "parse_chars (c # cs) =
     (if c = CHR 0x22 then Some ([], cs)
      else if c = CHR 0x5C then
        (case cs of
           [] \<Rightarrow> None
         | e # ds \<Rightarrow>
             if e = CHR ''u'' then
               (case parse_u ds of
                  None \<Rightarrow> None
                | Some (t, r) \<Rightarrow> map_option (\<lambda>(s, r'). (t @ s, r')) (parse_chars r))
             else
               (case unescape_char e of
                  None \<Rightarrow> None
                | Some x \<Rightarrow> map_option (\<lambda>(s, r'). (x # s, r')) (parse_chars ds)))
      else if (of_char c :: nat) < 32 then None
      else map_option (\<lambda>(s, r'). (c # s, r')) (parse_chars cs))"
  by pat_completeness auto
termination
  by (relation "measure length") (auto dest!: parse_u_shorter)

definition digits_of :: "string \<Rightarrow> string" where
  "digits_of s = takeWhile is_digit s"

definition after_digits :: "string \<Rightarrow> string" where
  "after_digits s = dropWhile is_digit s"

text \<open>An exponent, when there is one: its value and the text behind it.\<close>

definition parse_exponent :: "string \<Rightarrow> (int \<times> string) option" where
  "parse_exponent s =
     (case s of
        c # r \<Rightarrow>
          if c = CHR ''e'' \<or> c = CHR ''E'' then
            (let (neg, r') = (case r of x # t \<Rightarrow> if x = CHR ''-'' then (True, t)
                                         else if x = CHR ''+'' then (False, t) else (False, r) | [] \<Rightarrow> (False, r))
             in if digits_of r' = [] then None
                else Some ((if neg then - int (read_digits (digits_of r')) else int (read_digits (digits_of r'))),
                           after_digits r'))
          else Some (0, s)
      | [] \<Rightarrow> Some (0, s))"

definition parse_fraction :: "string \<Rightarrow> (rat \<times> string) option" where
  "parse_fraction s =
     (case s of
        c # r \<Rightarrow>
          if c = CHR ''.'' then
            (if digits_of r = [] then None
             else Some (of_nat (read_digits (digits_of r)) / 10 ^ length (digits_of r), after_digits r))
          else Some (0, s)
      | [] \<Rightarrow> Some (0, s))"

definition scale10 :: "rat \<Rightarrow> int \<Rightarrow> rat" where
  "scale10 q e = (if 0 \<le> e then q * 10 ^ nat e else q / 10 ^ nat (- e))"

definition parse_unsigned :: "string \<Rightarrow> (rat \<times> string) option" where
  "parse_unsigned s =
     (let ds = digits_of s
      in if ds = [] \<or> (hd ds = CHR ''0'' \<and> length ds > 1) then None
         else case parse_fraction (after_digits s) of
                None \<Rightarrow> None
              | Some (f, r) \<Rightarrow>
                  (case parse_exponent r of
                     None \<Rightarrow> None
                   | Some (e, r') \<Rightarrow> Some (scale10 (of_nat (read_digits ds) + f) e, r')))"

definition parse_number :: "string \<Rightarrow> (rat \<times> string) option" where
  "parse_number s =
     (case s of
        c # r \<Rightarrow> if c = CHR ''-'' then map_option (\<lambda>(q, r'). (- q, r')) (parse_unsigned r) else parse_unsigned s
      | [] \<Rightarrow> None)"

definition strip_word :: "string \<Rightarrow> string \<Rightarrow> string option" where
  "strip_word w s = (if take (length w) s = w then Some (drop (length w) s) else None)"

fun parse_value :: "nat \<Rightarrow> string \<Rightarrow> (json \<times> string) option"
  and parse_elems :: "nat \<Rightarrow> string \<Rightarrow> (json list \<times> string) option"
  and parse_members :: "nat \<Rightarrow> (string \<times> json) list \<Rightarrow> string \<Rightarrow> ((string \<times> json) list \<times> string) option" where
  "parse_value 0 s = None"
| "parse_value (Suc n) s =
     (case skip_ws s of
        [] \<Rightarrow> None
      | c # cs \<Rightarrow>
          if c = CHR ''{'' then
            (case skip_ws cs of
               [] \<Rightarrow> None
             | d # ds \<Rightarrow> if d = CHR ''}'' then Some (JObj [], ds)
                        else map_option (\<lambda>(kvs, r). (JObj kvs, r)) (parse_members n [] (d # ds)))
          else if c = CHR ''['' then
            (case skip_ws cs of
               [] \<Rightarrow> None
             | d # ds \<Rightarrow> if d = CHR '']'' then Some (JArr [], ds)
                        else map_option (\<lambda>(xs, r). (JArr xs, r)) (parse_elems n (d # ds)))
          else if c = CHR 0x22 then map_option (\<lambda>(t, r). (JStr t, r)) (parse_chars cs)
          else (case strip_word ''true'' (c # cs) of
                  Some r \<Rightarrow> Some (JBool True, r)
                | None \<Rightarrow>
                    (case strip_word ''false'' (c # cs) of
                       Some r \<Rightarrow> Some (JBool False, r)
                     | None \<Rightarrow>
                         (case strip_word ''null'' (c # cs) of
                            Some r \<Rightarrow> Some (JNull, r)
                          | None \<Rightarrow> map_option (\<lambda>(q, r). (JNum q, r)) (parse_number (c # cs))))))"
| "parse_elems 0 s = None"
| "parse_elems (Suc n) s =
     (case parse_value n s of
        None \<Rightarrow> None
      | Some (v, r) \<Rightarrow>
          (case skip_ws r of
             [] \<Rightarrow> None
           | d # ds \<Rightarrow> if d = CHR '','' then map_option (\<lambda>(xs, r'). (v # xs, r')) (parse_elems n ds)
                      else if d = CHR '']'' then Some ([v], ds) else None))"
| "parse_members 0 acc s = None"
| "parse_members (Suc n) acc s =
     (case skip_ws s of
        [] \<Rightarrow> None
      | q # cs \<Rightarrow>
          if q \<noteq> CHR 0x22 then None
          else (case parse_chars cs of
                  None \<Rightarrow> None
                | Some (k, r) \<Rightarrow>
                    (case skip_ws r of
                       [] \<Rightarrow> None
                     | col # r1 \<Rightarrow>
                         if col \<noteq> CHR '':'' then None
                         else (case parse_value n r1 of
                                 None \<Rightarrow> None
                               | Some (v, r2) \<Rightarrow>
                                   (case skip_ws r2 of
                                      [] \<Rightarrow> None
                                    | d # ds \<Rightarrow>
                                        if d = CHR '','' then parse_members n (AList.update k v acc) ds
                                        else if d = CHR ''}'' then Some (AList.update k v acc, ds) else None)))))"

definition json_parse :: "string \<Rightarrow> json option" where
  "json_parse s =
     (case parse_value (Suc (length s)) s of
        None \<Rightarrow> None
      | Some (v, r) \<Rightarrow> if skip_ws r = [] then Some v else None)"

subsection \<open>Strings come back\<close>

lemma parse_u_small:
  "hex4 a b c d = Some n \<Longrightarrow> n < 55296 \<Longrightarrow> parse_u (a # b # c # d # r) = Some (utf8_of_code n, r)"
  by (auto split: list.split option.split)

lemma hex_val_digit: "n < 16 \<Longrightarrow> hex_val (hex_digit n) = Some n"
  by (auto simp: hex_val_def hex_digit_def Let_def)

lemma hex4_control: "n < 32 \<Longrightarrow> hex4 (CHR ''0'') (CHR ''0'') (hex_digit (n div 16)) (hex_digit (n mod 16)) = Some n"
proof -
  assume "n < 32"
  then have "hex_val (hex_digit (n div 16)) = Some (n div 16)" "hex_val (hex_digit (n mod 16)) = Some (n mod 16)"
    by (auto intro!: hex_val_digit)
  moreover have "hex_val (CHR ''0'') = Some 0" by (simp add: hex_val_def)
  ultimately show ?thesis by (simp add: hex4_def)
qed

lemma parse_chars_plain:
  "c \<noteq> CHR 0x22 \<Longrightarrow> c \<noteq> CHR 0x5C \<Longrightarrow> 32 \<le> (of_char c :: nat) \<Longrightarrow>
   parse_chars (c # cs) = map_option (\<lambda>(s, r). (c # s, r)) (parse_chars cs)"
  by (subst parse_chars.simps) simp

lemma parse_chars_simple_escape:
  "e \<noteq> CHR ''u'' \<Longrightarrow> unescape_char e = Some x \<Longrightarrow>
   parse_chars (CHR 0x5C # e # cs) = map_option (\<lambda>(s, r). (x # s, r)) (parse_chars cs)"
  by (subst parse_chars.simps) simp

lemma parse_chars_control:
  assumes "n < 32"
  shows "parse_chars ([CHR 0x5C, CHR ''u'', CHR ''0'', CHR ''0'', hex_digit (n div 16), hex_digit (n mod 16)] @ cs)
    = map_option (\<lambda>(s, r). (char_of n # s, r)) (parse_chars cs)"
proof -
  have "parse_u (CHR ''0'' # CHR ''0'' # hex_digit (n div 16) # hex_digit (n mod 16) # cs) = Some (utf8_of_code n, cs)"
    using hex4_control [OF assms] assms by (intro parse_u_small) auto
  moreover have "utf8_of_code n = [char_of n]" using assms by (simp add: utf8_of_code_def)
  ultimately show ?thesis by (subst append_Cons, subst parse_chars.simps) simp
qed

lemma parse_escape_char:
  "parse_chars (escape_char c @ cs) = map_option (\<lambda>(s, r). (c # s, r)) (parse_chars cs)"
proof -
  let ?n = "of_char c :: nat" and ?simple = "{CHR 0x22, CHR 0x5C, CHR 0x08, CHR 0x09, CHR 0x0A, CHR 0x0C, CHR 0x0D}"
  consider "c \<in> ?simple" | "c \<notin> ?simple" "?n < 32" | "c \<notin> ?simple" "32 \<le> ?n" by linarith
  then show ?thesis
  proof cases
    case 1
    then obtain e where "escape_char c = [CHR 0x5C, e]" "e \<noteq> CHR ''u''" "unescape_char e = Some c"
      by (auto simp: escape_char_def unescape_char_def)
    then show ?thesis using parse_chars_simple_escape [of e c cs] by simp
  next
    case 2
    then have "escape_char c = [CHR 0x5C, CHR ''u'', CHR ''0'', CHR ''0'', hex_digit (?n div 16), hex_digit (?n mod 16)]"
      by (simp add: escape_char_def Let_def)
    then show ?thesis using parse_chars_control [OF 2(2), of cs] by simp
  next
    case 3
    then have "escape_char c = [c]" by (simp add: escape_char_def)
    then show ?thesis using 3 by (simp add: parse_chars_plain)
  qed
qed

lemma parse_print_string [simp]:
  "parse_chars (concat (map escape_char s) @ CHR 0x22 # r) = Some (s, r)"
  by (induction s) (simp_all add: parse_escape_char)

subsection \<open>Numbers come back\<close>

text \<open>Text that may follow a number without becoming part of it.\<close>

definition stops :: "string \<Rightarrow> bool" where
  "stops r \<longleftrightarrow> (case r of [] \<Rightarrow> True
     | c # _ \<Rightarrow> \<not> is_digit c \<and> c \<noteq> CHR ''.'' \<and> c \<noteq> CHR ''e'' \<and> c \<noteq> CHR ''E'')"

lemma digits_split:
  assumes "\<forall>c\<in>set ds. is_digit c" "r = [] \<or> \<not> is_digit (hd r)"
  shows "digits_of (ds @ r) = ds" "after_digits (ds @ r) = r"
proof -
  have "takeWhile is_digit r = []" "dropWhile is_digit r = r" using assms(2) by (cases r; simp)+
  then show "digits_of (ds @ r) = ds" "after_digits (ds @ r) = r"
    using assms(1) by (simp_all add: digits_of_def after_digits_def)
qed

lemma stops_digit: "stops r \<Longrightarrow> r = [] \<or> \<not> is_digit (hd r)"
  by (cases r) (simp_all add: stops_def)

lemma stops_tail: "stops r \<Longrightarrow> parse_fraction r = Some (0, r)" "stops r \<Longrightarrow> parse_exponent r = Some (0, r)"
  by (cases r; simp add: stops_def parse_fraction_def parse_exponent_def)+

lemma show_nat_head: "10 \<le> n \<Longrightarrow> hd (show_nat n) \<noteq> CHR ''0''"
proof (induction n rule: show_nat.induct)
  case (1 n)
  show ?case
  proof (cases "n div 10 < 10")
    case True
    then have "(of_char (digit_char (n div 10)) :: nat) = 48 + n div 10" by (rule of_char_digit)
    moreover have "0 < n div 10" using "1.prems" by (simp add: div_greater_zero_iff)
    ultimately have "digit_char (n div 10) \<noteq> CHR ''0''" by auto
    then show ?thesis using True 1 by (simp add: show_nat.simps [of n] show_nat.simps [of "n div 10"])
  next
    case False
    then show ?thesis using 1 by (subst show_nat.simps) simp
  qed
qed

lemma show_nat_leading: "\<not> (hd (show_nat n) = CHR ''0'' \<and> 1 < length (show_nat n))"
proof (cases "n < 10")
  case True
  then show ?thesis by (simp add: show_nat.simps [of n])
next
  case False
  then show ?thesis using show_nat_head by simp
qed

lemma length_show_nat: "n < 10 ^ k \<Longrightarrow> 0 < k \<Longrightarrow> length (show_nat n) \<le> k"
proof (induction n arbitrary: k rule: show_nat.induct)
  case (1 n)
  show ?case
  proof (cases "n < 10")
    case True
    then show ?thesis using 1 by (simp add: show_nat.simps [of n])
  next
    case False
    then obtain j where k: "k = Suc j" "0 < j" using "1.prems" by (cases k; cases "k - 1") auto
    then have "n div 10 < 10 ^ j" using "1.prems"(1) by (simp add: div_less_iff_less_mult)
    then show ?thesis using "1.IH" [OF False _ k(2)] False k by (simp add: show_nat.simps [of n])
  qed
qed

lemma read_digits_zeros: "read_digits (replicate i (CHR ''0'') @ s) = read_digits s"
proof -
  have "foldl (\<lambda>acc c. acc * 10 + (of_char c - 48)) 0 (replicate i (CHR ''0'')) = (0 :: nat)"
    by (induction i) simp_all
  then show ?thesis by (simp add: read_digits_def)
qed

lemma pad_left_digits:
  assumes "n < 10 ^ k" "0 < k"
  shows "length (pad_left k (show_nat n)) = k" "read_digits (pad_left k (show_nat n)) = n"
    "\<forall>c\<in>set (pad_left k (show_nat n)). is_digit c"
  using length_show_nat [OF assms] show_nat_digits
  by (auto simp: pad_left_def read_digits_zeros is_digit_def)

lemma parse_print_abs:
  assumes "stops r"
  shows "parse_unsigned (print_abs m k @ r) = Some (of_nat m / 10 ^ k, r)"
proof (cases "k = 0")
  case True
  have "digits_of (show_nat m @ r) = show_nat m" "after_digits (show_nat m @ r) = r"
    using digits_split [of "show_nat m" r] show_nat_digits stops_digit [OF assms] by auto
  then show ?thesis
    using show_nat_leading [of m] stops_tail [OF assms] True
    by (auto simp: print_abs_def parse_unsigned_def Let_def scale10_def)
next
  case False
  let ?i = "show_nat (m div 10 ^ k)" and ?f = "pad_left k (show_nat (m mod 10 ^ k))"
  note f = pad_left_digits [of "m mod 10 ^ k" k]
  have f': "length ?f = k" "read_digits ?f = m mod 10 ^ k" "\<forall>c\<in>set ?f. is_digit c" "?f \<noteq> []"
    using f False by auto
  have "digits_of (?i @ ''.'' @ ?f @ r) = ?i" "after_digits (?i @ ''.'' @ ?f @ r) = ''.'' @ ?f @ r"
    using digits_split [of ?i "''.'' @ ?f @ r"] show_nat_digits by (auto simp: is_digit_def)
  moreover have "digits_of (?f @ r) = ?f" "after_digits (?f @ r) = r"
    using digits_split [OF f'(3) stops_digit [OF assms]] by auto
  then have "parse_fraction (''.'' @ ?f @ r) = Some (of_nat (m mod 10 ^ k) / 10 ^ k, r)"
    using f' by (simp add: parse_fraction_def)
  moreover have "of_nat (m div 10 ^ k) + of_nat (m mod 10 ^ k) / 10 ^ k = (of_nat m / 10 ^ k :: rat)"
  proof -
    have "(of_nat m :: rat) = of_nat (m div 10 ^ k * 10 ^ k + m mod 10 ^ k)" by (simp only: div_mult_mod_eq)
    also have "\<dots> = of_nat (m div 10 ^ k) * 10 ^ k + of_nat (m mod 10 ^ k)"
      by (simp only: of_nat_add of_nat_mult of_nat_power of_nat_numeral)
    finally show ?thesis by (simp only: add_divide_distrib) simp
  qed
  ultimately show ?thesis
    using show_nat_leading [of "m div 10 ^ k"] stops_tail [OF assms] False
    by (auto simp: print_abs_def parse_unsigned_def Let_def scale10_def)
qed

definition num_ok :: "rat \<Rightarrow> bool" where
  "num_ok q \<longleftrightarrow> is_integer (\<bar>q\<bar> * 10 ^ decimals q)"

lemma num_ok_of_int [simp]: "num_ok (of_int i)"
proof -
  have "scale n (of_int i) = 0" for n by (cases n) (simp_all add: is_integer_def)
  then have "decimals (of_int i) = 0" by (simp add: decimals_def)
  then show ?thesis by (simp add: num_ok_def is_integer_def flip: of_int_abs)
qed

lemma num_ok_of_nat [simp]: "num_ok (of_nat n)"
  using num_ok_of_int [of "int n"] by simp

lemma print_abs_head: "\<exists>c r. print_abs m k = c # r \<and> is_digit c"
proof -
  have "\<exists>c r. show_nat n = c # r \<and> is_digit c" for n
    using show_nat_digits [of _ n] by (cases "show_nat n") auto
  then show ?thesis unfolding print_abs_def by (metis append_Cons)
qed

lemma parse_print_number:
  assumes "num_ok q" "stops r"
  shows "parse_number (print_number q @ r) = Some (q, r)"
proof -
  let ?k = "decimals q" and ?m = "nat \<lfloor>\<bar>q\<bar> * 10 ^ decimals q\<rfloor>"
  have "of_int \<lfloor>\<bar>q\<bar> * 10 ^ ?k\<rfloor> = \<bar>q\<bar> * 10 ^ ?k" using assms(1) by (simp add: num_ok_def is_integer_def)
  then have e: "(of_nat ?m :: rat) = \<bar>q\<bar> * 10 ^ ?k" by (simp add: of_nat_nat)
  have m: "of_nat ?m / 10 ^ ?k = \<bar>q\<bar>" unfolding e by simp
  have u: "parse_unsigned (print_abs ?m ?k @ r) = Some (\<bar>q\<bar>, r)" using parse_print_abs [OF assms(2), of ?m ?k] m by simp
  obtain c t where c: "print_abs ?m ?k = c # t" "is_digit c" using print_abs_head by blast
  then have "c \<noteq> CHR ''-''" by (auto simp: is_digit_def)
  then show ?thesis using u c by (cases "q < 0") (simp_all add: print_number_def Let_def parse_number_def)
qed

subsection \<open>Values come back\<close>

fun json_ok :: "json \<Rightarrow> bool" where
  "json_ok (JNum q) = num_ok q"
| "json_ok (JArr xs) = (\<forall>x\<in>set xs. json_ok x)"
| "json_ok (JObj kvs) = (distinct (map fst kvs) \<and> (\<forall>kv\<in>set kvs. json_ok (snd kv)))"
| "json_ok _ = True"

text \<open>The fuel a value needs.\<close>

fun need_elems :: "nat list \<Rightarrow> nat" where
  "need_elems [] = 0"
| "need_elems (n # ns) = Suc (max n (need_elems ns))"

fun need :: "json \<Rightarrow> nat" where
  "need (JArr xs) = Suc (need_elems (map need xs))"
| "need (JObj kvs) = Suc (need_elems (map (\<lambda>(k, v). need v) kvs))"
| "need _ = 1"

lemma need_elems_commas:
  "list_all2 (\<lambda>n t. n \<le> length t) ns ts \<Longrightarrow> ts \<noteq> [] \<Longrightarrow> need_elems ns \<le> Suc (length (commas ts))"
proof (induction ns arbitrary: ts)
  case (Cons n ns)
  then obtain t ts' where ts: "ts = t # ts'" "n \<le> length t" "list_all2 (\<lambda>n t. n \<le> length t) ns ts'"
    by (auto simp: list_all2_Cons1)
  then show ?case using Cons.IH [of ts'] by (cases ts') auto
qed simp

lemma print_number_nonempty: "print_number q \<noteq> []"
  using print_abs_head [of "nat \<lfloor>\<bar>q\<bar> * 10 ^ decimals q\<rfloor>" "decimals q"] by (auto simp: print_number_def Let_def)

lemma need_le: "need v \<le> length (json_print v)"
proof (induction v rule: json_print.induct)
  case (5 xs)
  have "list_all2 (\<lambda>n t. n \<le> length t) (map need xs) (map json_print xs)"
    using 5 by (auto simp: list_all2_conv_all_nth)
  then show ?case using need_elems_commas [of "map need xs" "map json_print xs"] by (cases xs) auto
next
  case (6 kvs)
  have "list_all2 (\<lambda>n t. n \<le> length t) (map (\<lambda>(k, v). need v) kvs)
      (map (\<lambda>(k, v). print_string k @ '':'' @ json_print v) kvs)"
  proof (simp only: list_all2_conv_all_nth length_map, intro conjI allI impI refl)
    fix i assume i: "i < length kvs"
    obtain k v where kv: "kvs ! i = (k, v)" by (cases "kvs ! i")
    then have "need v \<le> length (json_print v)" using 6 i nth_mem by metis
    then show "map (\<lambda>(k, v). need v) kvs ! i
        \<le> length (map (\<lambda>(k, v). print_string k @ '':'' @ json_print v) kvs ! i)"
      using i kv by simp
  qed
  then show ?case
    using need_elems_commas [of "map (\<lambda>(k, v). need v) kvs" "map (\<lambda>(k, v). print_string k @ '':'' @ json_print v) kvs"]
    by (cases kvs) auto
qed (auto simp: print_string_def Suc_le_eq print_number_nonempty)

lemma skip_ws_Cons: "\<not> is_ws c \<Longrightarrow> skip_ws (c # cs) = c # cs"
  by (simp add: skip_ws_def)

lemma stops_separator: "c \<in> {CHR '','', CHR '']'', CHR ''}''} \<Longrightarrow> stops (c # r) \<and> \<not> is_ws c"
  by (auto simp: stops_def is_digit_def is_ws_def)

lemma print_number_head: "\<exists>c t. print_number q = c # t \<and> (is_digit c \<or> c = CHR ''-'')"
  using print_abs_head [of "nat \<lfloor>\<bar>q\<bar> * 10 ^ decimals q\<rfloor>" "decimals q"] by (auto simp: print_number_def Let_def)

lemma json_print_head: "\<exists>c t. json_print v = c # t \<and> \<not> is_ws c \<and> c \<noteq> CHR '']''"
proof (cases v)
  case (JNum q)
  then show ?thesis using print_number_head [of q] by (auto simp: is_ws_def is_digit_def)
qed (auto simp: print_string_def is_ws_def)

lemma parse_value_number:
  assumes "num_ok q" "stops r"
  shows "parse_value (Suc n) (print_number q @ r) = Some (JNum q, r)"
proof -
  obtain c t where c: "print_number q = c # t" "is_digit c \<or> c = CHR ''-''" using print_number_head by blast
  then have "\<not> is_ws c" "c \<noteq> CHR ''{''" "c \<noteq> CHR ''[''" "c \<noteq> CHR 0x22" "c \<noteq> CHR ''t''" "c \<noteq> CHR ''f''" "c \<noteq> CHR ''n''"
    by (auto simp: is_ws_def is_digit_def)
  moreover have "parse_number (c # t @ r) = Some (q, r)" using parse_print_number [OF assms] c by simp
  ultimately show ?thesis using c(1) by (simp add: skip_ws_Cons strip_word_def)
qed

definition reads_back :: "json \<Rightarrow> bool" where
  "reads_back v \<longleftrightarrow> (\<forall>n r. need v \<le> n \<longrightarrow> stops r \<longrightarrow> parse_value n (json_print v @ r) = Some (v, r))"

lemma parse_print_elems:
  assumes "\<forall>x\<in>set xs. reads_back x" "xs \<noteq> []" "need_elems (map need xs) \<le> n"
  shows "parse_elems n (commas (map json_print xs) @ CHR '']'' # r) = Some (xs, r)"
  using assms
proof (induction xs arbitrary: n)
  case (Cons x xs)
  then obtain n' where n: "n = Suc n'" "need x \<le> n'" "need_elems (map need xs) \<le> n'" by (cases n) auto
  have x: "parse_value n' (json_print x @ c # t) = Some (x, c # t)" if "c \<in> {CHR '','', CHR '']'', CHR ''}''}" for c t
    using Cons.prems(1) n(2) stops_separator [OF that] by (simp add: reads_back_def)
  show ?case
  proof (cases xs)
    case Nil
    then show ?thesis using n(1) x [of "CHR '']''" r] stops_separator [of "CHR '']''" r] by (simp add: skip_ws_Cons)
  next
    case (Cons y ys)
    then have "parse_elems n' (commas (map json_print xs) @ CHR '']'' # r) = Some (xs, r)"
      using Cons.IH [of n'] Cons.prems(1) n(3) by simp
    then show ?thesis
      using n(1) x [of "CHR '',''" "commas (map json_print xs) @ CHR '']'' # r"] Cons stops_separator [of "CHR '',''" r]
      by (simp add: skip_ws_Cons)
  qed
qed simp

lemma update_new_key: "k \<notin> fst ` set m \<Longrightarrow> AList.update k v m = m @ [(k, v)]"
  by (induction m) auto

abbreviation print_member :: "string \<times> json \<Rightarrow> string" where
  "print_member \<equiv> \<lambda>(k, v). print_string k @ '':'' @ json_print v"

lemma parse_print_members:
  assumes "\<forall>kv\<in>set kvs. reads_back (snd kv)" "kvs \<noteq> []" "need_elems (map (\<lambda>(k, v). need v) kvs) \<le> n"
    "distinct (map fst (acc @ kvs))"
  shows "parse_members n acc (commas (map print_member kvs) @ CHR ''}'' # r) = Some (acc @ kvs, r)"
  using assms
proof (induction kvs arbitrary: n acc)
  case (Cons kv kvs)
  obtain k v where kv: "kv = (k, v)" by (cases kv)
  obtain n' where n: "n = Suc n'" "need v \<le> n'" "need_elems (map (\<lambda>(k, v). need v) kvs) \<le> n'"
    using Cons.prems(3) kv by (cases n) auto
  have upd: "AList.update k v acc = acc @ [(k, v)]" using Cons.prems(4) kv by (intro update_new_key) auto
  have v: "parse_value n' (json_print v @ c # t) = Some (v, c # t)" if "c \<in> {CHR '','', CHR '']'', CHR ''}''}" for c t
    using Cons.prems(1) kv n(2) stops_separator [OF that] by (simp add: reads_back_def)
  have ws: "\<not> is_ws (CHR 0x22)" "\<not> is_ws (CHR '':'')" by (simp_all add: is_ws_def)
  have str: "print_string k @ '':'' @ t = CHR 0x22 # concat (map escape_char k) @ CHR 0x22 # CHR '':'' # t" for t
    by (simp add: print_string_def)
  show ?case
  proof (cases kvs)
    case Nil
    then show ?thesis
      using n(1) v [of "CHR ''}''" r] stops_separator [of "CHR ''}''" r] kv upd ws
      by (simp add: skip_ws_Cons print_string_def)
  next
    case (Cons kv2 kvs2)
    have "parse_members n' (acc @ [(k, v)]) (commas (map print_member kvs) @ CHR ''}'' # r) = Some ((acc @ [(k, v)]) @ kvs, r)"
      using Cons.prems kv Cons n(3) by (intro Cons.IH) auto
    moreover have "commas (map print_member (kv # kvs)) @ CHR ''}'' # r
        = print_string k @ '':'' @ json_print v @ CHR '','' # commas (map print_member kvs) @ CHR ''}'' # r"
      using Cons kv by simp
    ultimately show ?thesis
      using n(1) v [of "CHR '',''" "commas (map print_member kvs) @ CHR ''}'' # r"] stops_separator [of "CHR '',''" r] kv upd ws
      unfolding str by (simp add: skip_ws_Cons)
  qed
qed simp

lemma parse_print_value: "json_ok v \<Longrightarrow> reads_back v"
proof (induction v rule: json_print.induct)
  case (3 q)
  then show ?case unfolding reads_back_def by (metis json_ok.simps(1) json_print.simps(3) need.simps(5) not0_implies_Suc
      not_one_le_zero parse_value_number)
next
  case (5 xs)
  show ?case
  proof (cases xs)
    case Nil
    show ?thesis unfolding reads_back_def
    proof (intro allI impI)
      fix n r assume "need (JArr xs) \<le> n" "stops r"
      then show "parse_value n (json_print (JArr xs) @ r) = Some (JArr xs, r)"
        using Nil by (cases n) (simp_all add: skip_ws_def is_ws_def)
    qed
  next
    case (Cons y ys)
    obtain c t where c: "json_print y = c # t" "\<not> is_ws c" "c \<noteq> CHR '']''" using json_print_head by blast
    have all: "\<forall>x\<in>set xs. reads_back x" using 5 by simp
    show ?thesis unfolding reads_back_def
    proof (intro allI impI)
      fix n r assume n: "need (JArr xs) \<le> n" and "stops r"
      then obtain n' where n': "n = Suc n'" "need_elems (map need xs) \<le> n'" by (cases n) auto
      have "commas (map json_print xs) = c # t @ (if ys = [] then [] else '','' @ commas (map json_print ys))"
        using Cons c(1) by (cases ys) simp_all
      then obtain u where u: "commas (map json_print xs) = c # u" by blast
      have "parse_elems n' (c # u @ CHR '']'' # r) = Some (xs, r)"
        using parse_print_elems [OF all _ n'(2), of r] Cons u by simp
      then show "parse_value n (json_print (JArr xs) @ r) = Some (JArr xs, r)"
        using n'(1) c(2,3) u by (simp add: skip_ws_Cons) (simp add: skip_ws_def is_ws_def)
    qed
  qed
next
  case (6 kvs)
  show ?case
  proof (cases kvs)
    case Nil
    show ?thesis unfolding reads_back_def
    proof (intro allI impI)
      fix n r assume "need (JObj kvs) \<le> n" "stops r"
      then show "parse_value n (json_print (JObj kvs) @ r) = Some (JObj kvs, r)"
        using Nil by (cases n) (simp_all add: skip_ws_def is_ws_def)
    qed
  next
    case (Cons y ys)
    have all: "\<forall>kv\<in>set kvs. reads_back (snd kv)" using 6 by (metis json_ok.simps(3) prod.collapse)
    show ?thesis unfolding reads_back_def
    proof (intro allI impI)
      fix n r assume n: "need (JObj kvs) \<le> n" and "stops r"
      then obtain n' where n': "n = Suc n'" "need_elems (map (\<lambda>(k, v). need v) kvs) \<le> n'" by (cases n) auto
      obtain u where u: "commas (map print_member kvs) = CHR 0x22 # u"
        using Cons by (cases y; cases ys) (simp_all add: print_string_def)
      have "distinct (map fst ([] @ kvs))" using 6 by simp
      then have "parse_members n' [] (CHR 0x22 # u @ CHR ''}'' # r) = Some (kvs, r)"
        using parse_print_members [OF all _ n'(2), of "[]" r] Cons u by simp
      then show "parse_value n (json_print (JObj kvs) @ r) = Some (JObj kvs, r)"
        using n'(1) u by (simp add: skip_ws_def is_ws_def)
    qed
  qed
next
  case (4 t)
  show ?case unfolding reads_back_def
  proof (intro allI impI)
    fix n r assume "need (JStr t) \<le> n" "stops r"
    then show "parse_value n (json_print (JStr t) @ r) = Some (JStr t, r)"
      by (cases n) (simp_all add: print_string_def skip_ws_def is_ws_def)
  qed
next
  case 1
  show ?case unfolding reads_back_def
  proof (intro allI impI)
    fix n r assume "need JNull \<le> n" "stops r"
    then show "parse_value n (json_print JNull @ r) = Some (JNull, r)"
      by (cases n) (simp_all add: skip_ws_def is_ws_def strip_word_def)
  qed
next
  case (2 b)
  show ?case unfolding reads_back_def
  proof (intro allI impI)
    fix n r assume "need (JBool b) \<le> n" "stops r"
    then show "parse_value n (json_print (JBool b) @ r) = Some (JBool b, r)"
      by (cases n; cases b) (simp_all add: skip_ws_def is_ws_def strip_word_def)
  qed
qed

lemma json_parse_print: "json_ok v \<Longrightarrow> json_parse (json_print v) = Some v"
proof -
  assume "json_ok v"
  moreover have "need v \<le> Suc (length (json_print v))" using need_le [of v] by simp
  moreover have "stops []" by (simp add: stops_def)
  ultimately have "parse_value (Suc (length (json_print v))) (json_print v @ []) = Some (v, [])"
    using parse_print_value unfolding reads_back_def by blast
  then show ?thesis unfolding json_parse_def append_Nil2 by (simp add: skip_ws_def)
qed

interpretation json: codec json_print json_parse json_ok
  by unfold_locales (rule json_parse_print)

subsection \<open>JavaScript views of a value\<close>

text \<open>
  What the client does with a parsed value: property access (\<open>None\<close> is \<open>undefined\<close>), truthiness,
  \<open>typeof\<close> tests, and the conversion to a string a library call applies to its argument.
\<close>

fun field :: "json \<Rightarrow> string \<Rightarrow> json option" where
  "field (JObj kvs) k = map_of kvs k"
| "field _ k = None"

text \<open>Property access on \<open>null\<close> and on \<open>undefined\<close> throws.\<close>

definition field_of :: "json option \<Rightarrow> string \<Rightarrow> json option result" where
  "field_of v k = (case v of None \<Rightarrow> Inl TypeError | Some JNull \<Rightarrow> Inl TypeError | Some x \<Rightarrow> Inr (field x k))"

fun truthy_json :: "json \<Rightarrow> bool" where
  "truthy_json JNull = False"
| "truthy_json (JBool b) = b"
| "truthy_json (JNum q) = (q \<noteq> 0)"
| "truthy_json (JStr s) = (s \<noteq> [])"
| "truthy_json _ = True"

definition truthy :: "json option \<Rightarrow> bool" where
  "truthy v = (case v of None \<Rightarrow> False | Some x \<Rightarrow> truthy_json x)"

fun is_object :: "json \<Rightarrow> bool" where
  "is_object (JObj _) = True"
| "is_object (JArr _) = True"
| "is_object JNull = True"
| "is_object _ = False"

fun js_string :: "json \<Rightarrow> string" where
  "js_string JNull = ''null''"
| "js_string (JBool b) = (if b then ''true'' else ''false'')"
| "js_string (JNum q) = print_number q"
| "js_string (JStr s) = s"
| "js_string (JArr xs) = commas (map (\<lambda>x. if x = JNull then [] else js_string x) xs)"
| "js_string (JObj kvs) = ''[object Object]''"

definition to_string :: "json option \<Rightarrow> string" where
  "to_string v = (case v of None \<Rightarrow> ''undefined'' | Some x \<Rightarrow> js_string x)"

definition is_nat_num :: "json \<Rightarrow> bool" where
  "is_nat_num v = (case v of JNum q \<Rightarrow> is_integer q \<and> 0 \<le> q | _ \<Rightarrow> False)"

definition nat_of_num :: "json \<Rightarrow> nat" where
  "nat_of_num v = (case v of JNum q \<Rightarrow> nat \<lfloor>q\<rfloor> | _ \<Rightarrow> 0)"

definition jnat :: "nat \<Rightarrow> json" where
  "jnat n = JNum (of_nat n)"

text \<open>A field that is present only when it has a value.\<close>

definition opt_field :: "string \<Rightarrow> json option \<Rightarrow> (string \<times> json) list" where
  "opt_field k v = (case v of None \<Rightarrow> [] | Some x \<Rightarrow> [(k, x)])"

lemma jnat_simps [simp]: "is_nat_num (jnat n)" "nat_of_num (jnat n) = n" "json_ok (jnat n)"
  by (simp_all add: is_nat_num_def nat_of_num_def jnat_def is_integer_def)

lemma opt_field_simps [simp]: "opt_field k None = []" "opt_field k (Some x) = [(k, x)]"
  by (simp_all add: opt_field_def)

lemma fst_opt_field: "fst ` set (opt_field k v) \<subseteq> {k}"
  by (cases v) simp_all

lemma map_of_opt_field: "map_of (opt_field k v) k' = (if k' = k then v else None)"
  by (cases v) auto

text \<open>An object literal whose fields may be \<open>undefined\<close>: those are left out of the text.\<close>

fun present :: "(string \<times> json option) list \<Rightarrow> (string \<times> json) list" where
  "present [] = []"
| "present ((k, None) # fs) = present fs"
| "present ((k, Some x) # fs) = (k, x) # present fs"

definition jobj :: "(string \<times> json option) list \<Rightarrow> json" where
  "jobj fs = JObj (present fs)"

lemma set_present: "(k, x) \<in> set (present fs) \<longleftrightarrow> (k, Some x) \<in> set fs"
  by (induction fs rule: present.induct) auto

lemma present_keys: "k \<notin> fst ` set fs \<Longrightarrow> k \<notin> fst ` set (present fs)"
  by (induction fs rule: present.induct) auto

lemma distinct_present: "distinct (map fst fs) \<Longrightarrow> distinct (map fst (present fs))"
  by (induction fs rule: present.induct) (use present_keys in force)+

lemma map_of_present:
  "distinct (map fst fs) \<Longrightarrow> map_of (present fs) k = (case map_of fs k of None \<Rightarrow> None | Some v \<Rightarrow> v)"
proof (induction fs rule: present.induct)
  case (2 k' fs)
  then have "map_of (present fs) k' = None" using present_keys [of k' fs] by (simp add: map_of_eq_None_iff)
  then show ?case using 2 by auto
qed auto

lemma field_jobj:
  "distinct (map fst fs) \<Longrightarrow> field (jobj fs) k = (case map_of fs k of None \<Rightarrow> None | Some v \<Rightarrow> v)"
  by (simp add: jobj_def map_of_present)

lemma json_ok_jobj:
  assumes "distinct (map fst fs)" "\<forall>f\<in>set fs. case snd f of None \<Rightarrow> True | Some x \<Rightarrow> json_ok x"
  shows "json_ok (jobj fs)"
  using assms by (fastforce simp: jobj_def distinct_present set_present)

lemma jobj_kind [simp]: "truthy_json (jobj fs)" "is_object (jobj fs)" "jobj fs \<noteq> JNull"
  by (simp_all add: jobj_def)

text \<open>Reading an array: every element must be readable.\<close>

fun read_all :: "(json \<Rightarrow> 'a option) \<Rightarrow> json list \<Rightarrow> 'a list option" where
  "read_all f [] = Some []"
| "read_all f (j # js) =
     (case f j of None \<Rightarrow> None | Some x \<Rightarrow> map_option (Cons x) (read_all f js))"

lemma read_all_map: "(\<And>x. x \<in> set xs \<Longrightarrow> f (g x) = Some x) \<Longrightarrow> read_all f (map g xs) = Some xs"
  by (induction xs) auto

end
