(* ===== verification/Serialize.thy ===== *)
theory Serialize
  imports Session Json
begin

section \<open>Session records (\<open>crypto/serialize.ts\<close>)\<close>

text \<open>
  A live session as the JSON object the vault stores, and back. Fields that are \<open>undefined\<close> are
  absent from the object, as they are from its text. \<open>deserializeSession\<close> reads fields without
  checking their types: a key field is converted to a string and base64-decoded, an optional field
  is dropped when it is falsy. A record whose counters or ids are not natural numbers has no
  counterpart among the states; it is a \<open>TypeError\<close> here.
\<close>

definition SESSION_FORMAT_VERSION :: nat where "SESSION_FORMAT_VERSION = 1"

definition encode_key :: "bytes \<Rightarrow> json" where
  "encode_key b = JStr (encodeB64 b)"

definition decode_key :: "json option \<Rightarrow> bytes result" where
  "decode_key v = decodeB64 (to_string v)"

definition encodeKeyPair :: "KeyPair \<Rightarrow> json" where
  "encodeKeyPair pair =
     JObj [(''publicKey'', encode_key (publicKey pair)), (''privateKey'', encode_key (privateKey pair)),
           (''keyType'', JStr (keyType pair))]"

definition decodeKeyPair :: "json option \<Rightarrow> KeyPair result" where
  "decodeKeyPair pair =
     rbind (field_of pair ''publicKey'') (\<lambda>pub.
     rbind (decode_key pub) (\<lambda>pub'.
     rbind (field_of pair ''privateKey'') (\<lambda>priv.
     rbind (decode_key priv) (\<lambda>priv'.
     rbind (field_of pair ''keyType'') (\<lambda>ty.
     Inr \<lparr>publicKey = pub', privateKey = priv', keyType = to_string ty\<rparr>)))))"

definition serialize_header :: "InitialMessageHeader \<Rightarrow> json" where
  "serialize_header h =
     JObj ([(''identityKey'', encode_key (h_identityKey h)), (''identityDhKey'', encode_key (h_identityDhKey h)),
            (''ephemeralKey'', encode_key (h_ephemeralKey h)), (''signedPrekeyId'', jnat (h_signedPrekeyId h))]
           @ opt_field ''oneTimePrekeyId'' (map_option jnat (h_oneTimePrekeyId h)))"

definition serializeSession :: "Session \<Rightarrow> json" where
  "serializeSession session =
     (let s = sess_state session in
      JObj ([(''version'', jnat SESSION_FORMAT_VERSION), (''rootKey'', encode_key (rootKey s)),
             (''ourRatchetKey'', encodeKeyPair (ourRatchetKey s))]
        @ opt_field ''theirRatchetKey'' (map_option encode_key (theirRatchetKey s))
        @ opt_field ''sendingChainKey'' (map_option encode_key (sendingChainKey s))
        @ opt_field ''receivingChainKey'' (map_option encode_key (receivingChainKey s))
        @ [(''sendCount'', jnat (sendCount s)), (''receiveCount'', jnat (receiveCount s)),
           (''previousChainLength'', jnat (previousChainLength s)),
           (''skippedKeys'', JArr (map (\<lambda>(keyId, key). JArr [JStr keyId, encode_key key]) (skippedKeys s))),
           (''associatedData'', encode_key (st_associatedData s))]
        @ opt_field ''pendingX3DH'' (map_option serialize_header (pendingX3DH session))))"

definition optional_key :: "json option \<Rightarrow> bytes option result" where
  "optional_key v = (if truthy v then rbind (decode_key v) (\<lambda>b. Inr (Some b)) else Inr None)"

definition count_field :: "json option \<Rightarrow> nat result" where
  "count_field v = (case v of Some x \<Rightarrow> if is_nat_num x then Inr (nat_of_num x) else Inl TypeError | None \<Rightarrow> Inl TypeError)"

text \<open>\<open>new Map(entries)\<close> over the pairs of the stored array.\<close>

fun decode_entries :: "json list \<Rightarrow> (string \<times> bytes) list \<Rightarrow> (string \<times> bytes) list result" where
  "decode_entries [] m = Inr m"
| "decode_entries (JArr [k, v] # es) m =
     rbind (decode_key (Some v)) (\<lambda>key. decode_entries es (AList.update (js_string k) key m))"
| "decode_entries (_ # es) m = Inl TypeError"

definition decode_skipped :: "json option \<Rightarrow> (string \<times> bytes) list result" where
  "decode_skipped v =
     (case v of None \<Rightarrow> Inr [] | Some JNull \<Rightarrow> Inr [] | Some (JArr es) \<Rightarrow> decode_entries es []
      | Some _ \<Rightarrow> Inl TypeError)"

definition deserialize_header :: "json \<Rightarrow> InitialMessageHeader result" where
  "deserialize_header h =
     rbind (decode_key (field h ''identityKey'')) (\<lambda>ik.
     rbind (decode_key (field h ''identityDhKey'')) (\<lambda>idk.
     rbind (decode_key (field h ''ephemeralKey'')) (\<lambda>ek.
     rbind (count_field (field h ''signedPrekeyId'')) (\<lambda>spk.
     rbind (case field h ''oneTimePrekeyId'' of None \<Rightarrow> Inr None
            | Some v \<Rightarrow> rbind (count_field (Some v)) (\<lambda>n. Inr (Some n))) (\<lambda>otk.
     Inr \<lparr>h_identityKey = ik, h_identityDhKey = idk, h_ephemeralKey = ek,
          h_signedPrekeyId = spk, h_oneTimePrekeyId = otk\<rparr>)))))"

definition deserialize_state :: "json \<Rightarrow> SessionState result" where
  "deserialize_state data =
     rbind (decode_key (field data ''rootKey'')) (\<lambda>rk.
     rbind (decodeKeyPair (field data ''ourRatchetKey'')) (\<lambda>ours.
     rbind (optional_key (field data ''theirRatchetKey'')) (\<lambda>theirs.
     rbind (optional_key (field data ''sendingChainKey'')) (\<lambda>sending.
     rbind (optional_key (field data ''receivingChainKey'')) (\<lambda>receiving.
     rbind (count_field (field data ''sendCount'')) (\<lambda>sc.
     rbind (count_field (field data ''receiveCount'')) (\<lambda>rc.
     rbind (count_field (field data ''previousChainLength'')) (\<lambda>pcl.
     rbind (decode_skipped (field data ''skippedKeys'')) (\<lambda>skipped.
     rbind (decode_key (field data ''associatedData'')) (\<lambda>ad.
     Inr \<lparr>rootKey = rk, ourRatchetKey = ours, theirRatchetKey = theirs, sendingChainKey = sending,
          receivingChainKey = receiving, sendCount = sc, receiveCount = rc, previousChainLength = pcl,
          skippedKeys = skipped, st_associatedData = ad\<rparr>))))))))))"

definition deserializeSession :: "json \<Rightarrow> Session result" where
  "deserializeSession data =
     (if \<not> truthy_json data \<or> \<not> is_object data
      then Inl (SerializationError ''session record is not an object'')
      else if field data ''version'' \<noteq> Some (jnat SESSION_FORMAT_VERSION)
      then Inl (SerializationError (''unsupported session format '' @ to_string (field data ''version'')))
      else rbind (deserialize_state data) (\<lambda>st.
           rbind (case field data ''pendingX3DH'' of None \<Rightarrow> Inr None
                  | Some v \<Rightarrow> if truthy_json v then rbind (deserialize_header v) (\<lambda>h. Inr (Some h)) else Inr None)
             (\<lambda>pending. Inr \<lparr>sess_state = st, pendingX3DH = pending\<rparr>)))"

subsection \<open>The round trip\<close>

text \<open>What the format can carry: present keys are not empty, cache identifiers are distinct.\<close>

definition storable :: "Session \<Rightarrow> bool" where
  "storable s \<longleftrightarrow>
     theirRatchetKey (sess_state s) \<noteq> Some [] \<and> sendingChainKey (sess_state s) \<noteq> Some [] \<and>
     receivingChainKey (sess_state s) \<noteq> Some [] \<and> distinct_keys (skippedKeys (sess_state s))"

lemma decode_encode_key [simp]: "decode_key (Some (encode_key b)) = Inr b"
  by (simp add: decode_key_def encode_key_def to_string_def)

lemma encodeB64_nonempty: "b \<noteq> [] \<Longrightarrow> encodeB64 b \<noteq> []"
  using b64.enc_inject [of b "[]"] by (auto simp: encodeB64_def binary_string_def btoa_def)

lemma optional_encode_key: "k \<noteq> Some [] \<Longrightarrow> optional_key (map_option encode_key k) = Inr k"
  by (cases k) (simp_all add: optional_key_def truthy_def encode_key_def encodeB64_nonempty decode_key_def to_string_def)

lemma decode_encodeKeyPair [simp]: "decodeKeyPair (Some (encodeKeyPair kp)) = Inr kp"
  by (simp add: decodeKeyPair_def encodeKeyPair_def field_of_def to_string_def)

lemma count_jnat [simp]: "count_field (Some (jnat n)) = Inr n"
  by (simp add: count_field_def)

lemma decode_entries_encode:
  assumes "distinct_keys (m @ kvs)"
  shows "decode_entries (map (\<lambda>(k, v). JArr [JStr k, encode_key v]) kvs) m = Inr (m @ kvs)"
  using assms
proof (induction kvs arbitrary: m)
  case (Cons kv kvs)
  obtain k v where kv: "kv = (k, v)" by (cases kv)
  then have "AList.update k v m = m @ [(k, v)]" using Cons.prems by (intro update_new_key) auto
  then show ?case using Cons.IH [of "m @ [(k, v)]"] Cons.prems kv by simp
qed simp

lemma decode_skipped_encode [simp]:
  "distinct_keys kvs \<Longrightarrow> decode_skipped (Some (JArr (map (\<lambda>(k, v). JArr [JStr k, encode_key v]) kvs))) = Inr kvs"
  using decode_entries_encode [of "[]" kvs] by (simp add: decode_skipped_def)

lemma deserialize_serialize_header [simp]: "deserialize_header (serialize_header h) = Inr h"
  by (cases "h_oneTimePrekeyId h") (simp_all add: deserialize_header_def serialize_header_def)

lemma field_serializeSession:
  "field (serializeSession s) ''version'' = Some (jnat SESSION_FORMAT_VERSION)"
  "field (serializeSession s) ''rootKey'' = Some (encode_key (rootKey (sess_state s)))"
  "field (serializeSession s) ''ourRatchetKey'' = Some (encodeKeyPair (ourRatchetKey (sess_state s)))"
  "field (serializeSession s) ''theirRatchetKey'' = map_option encode_key (theirRatchetKey (sess_state s))"
  "field (serializeSession s) ''sendingChainKey'' = map_option encode_key (sendingChainKey (sess_state s))"
  "field (serializeSession s) ''receivingChainKey'' = map_option encode_key (receivingChainKey (sess_state s))"
  "field (serializeSession s) ''sendCount'' = Some (jnat (sendCount (sess_state s)))"
  "field (serializeSession s) ''receiveCount'' = Some (jnat (receiveCount (sess_state s)))"
  "field (serializeSession s) ''previousChainLength'' = Some (jnat (previousChainLength (sess_state s)))"
  "field (serializeSession s) ''skippedKeys''
     = Some (JArr (map (\<lambda>(k, v). JArr [JStr k, encode_key v]) (skippedKeys (sess_state s))))"
  "field (serializeSession s) ''associatedData'' = Some (encode_key (st_associatedData (sess_state s)))"
  "field (serializeSession s) ''pendingX3DH'' = map_option serialize_header (pendingX3DH s)"
  by (simp_all add: serializeSession_def Let_def map_add_def map_of_append map_of_opt_field split: option.split)

lemma deserialize_serialize:
  assumes "storable s"
  shows "deserializeSession (serializeSession s) = Inr s"
proof -
  have "deserialize_state (serializeSession s) = Inr (sess_state s)"
    using assms by (simp add: deserialize_state_def field_serializeSession optional_encode_key storable_def)
  moreover have "truthy_json (serializeSession s)" "is_object (serializeSession s)"
    by (simp_all add: serializeSession_def Let_def)
  moreover have "truthy_json (serialize_header h)" for h by (simp add: serialize_header_def)
  ultimately show ?thesis
    by (cases "pendingX3DH s") (simp_all add: deserializeSession_def field_serializeSession)
qed

lemma json_ok_key [simp]: "json_ok (encode_key b)"
  by (simp add: encode_key_def)

lemma json_ok_keypair [simp]: "json_ok (encodeKeyPair kp)"
  by (simp add: encodeKeyPair_def)

lemma json_ok_header [simp]: "json_ok (serialize_header h)"
  by (cases "h_oneTimePrekeyId h") (simp_all add: serialize_header_def)

lemma json_ok_opt_field: "(\<And>x. v = Some x \<Longrightarrow> json_ok x) \<Longrightarrow> \<forall>kv\<in>set (opt_field k v). json_ok (snd kv)"
  by (cases v) simp_all

lemma json_ok_serializeSession: "json_ok (serializeSession s)"
proof -
  have keys: "distinct (map fst (opt_field k v))" for k v by (cases v) simp_all
  have k: "\<forall>kv\<in>set (opt_field n (map_option encode_key x)). json_ok (snd kv)" for n x by (cases x) simp_all
  have p: "\<forall>kv\<in>set (opt_field n (map_option serialize_header x)). json_ok (snd kv)" for n x by (cases x) simp_all
  let ?s = "sess_state s"
  have "distinct (map fst (opt_field ''theirRatchetKey'' a @ opt_field ''sendingChainKey'' b @ opt_field ''receivingChainKey'' c
      @ opt_field ''pendingX3DH'' d))" for a b c d
    by (cases a; cases b; cases c; cases d) simp_all
  then show ?thesis
    using k p by (cases "theirRatchetKey ?s"; cases "sendingChainKey ?s"; cases "receivingChainKey ?s"; cases "pendingX3DH s")
      (auto simp: serializeSession_def Let_def)
qed

text \<open>Every session the ratchet can be in is storable.\<close>

lemma ratchet_ok_storable: "ratchet_ok S (sess_state s) \<Longrightarrow> storable s"
  by (auto simp: ratchet_ok_def storable_def skipped_ok_def)

subsection \<open>Properties\<close>

text \<open>
  Claim C19. A session in any reachable state of the ratchet survives being stored: its record is
  printed as JSON text, parsed and rebuilt without losing anything, the skipped-key window with its
  order and the pending handshake header included. A record of another format version is refused.
\<close>

theorem session_record_roundtrip:
  assumes "ratchet_ok S (sess_state s)"
  shows "\<exists>j. json_parse (json_print (serializeSession s)) = Some j \<and> deserializeSession j = Inr s \<and>
     (\<forall>v kvs. v \<noteq> jnat 1 \<longrightarrow>
        deserializeSession (JObj ((''version'', v) # kvs))
          = Inl (SerializationError (''unsupported session format '' @ js_string v)))"
  using json.dec_enc [OF json_ok_serializeSession] deserialize_serialize [OF ratchet_ok_storable [OF assms]]
  by (auto simp: deserializeSession_def SESSION_FORMAT_VERSION_def to_string_def)

theorem session_record_roundtrip_witness:
  "\<exists>j. json_parse (json_print (serializeSession \<lparr>sess_state = demo_sender, pendingX3DH = None\<rparr>)) = Some j \<and>
     deserializeSession j = Inr \<lparr>sess_state = demo_sender, pendingX3DH = None\<rparr>"
proof -
  have "ratchet_ok demo_sodium (sess_state \<lparr>sess_state = demo_sender, pendingX3DH = None\<rparr>)"
    by (simp add: ratchet_ok_def demo_sender_def)
  from session_record_roundtrip [OF this] show ?thesis by blast
qed

end
