(* ===== verification/Group.thy ===== *)
theory Group
  imports Json "HOL-Library.Product_Lexorder"
begin

section \<open>Group membership state (\<open>group/state.ts\<close>)\<close>

text \<open>
  A group is a last-writer-wins element set: per account the time it was last added and last
  removed, with the author of each as a tie breaker, and a last-writer-wins name. Timestamps are
  exact numbers; a double is exact on the milliseconds of any real clock. Account ids are ASCII, so the
  order of JavaScript strings is the lexicographic order of characters. The member table is a
  JavaScript object, an association list with distinct keys.
\<close>

record MemberRecord =
  addedAt :: number
  removedAt :: number
  addedBy :: "string option"
  removedBy :: "string option"

record GroupState =
  g_id :: string
  g_name :: string
  nameUpdatedAt :: number
  nameUpdatedBy :: "string option"
  createdBy :: string
  createdAt :: number
  members :: "(string \<times> MemberRecord) list"

record MembershipChange =
  ch_accountId :: string
  ch_added :: bool
  ch_timestamp :: number
  ch_by :: string

definition or_empty :: "string option \<Rightarrow> string" where
  "or_empty s = (case s of None \<Rightarrow> '''' | Some t \<Rightarrow> t)"

definition wins :: "number \<Rightarrow> string option \<Rightarrow> number \<Rightarrow> string option \<Rightarrow> bool" where
  "wins candidateAt candidateBy currentAt currentBy =
     (if candidateAt \<noteq> currentAt then candidateAt > currentAt
      else or_empty candidateBy > or_empty currentBy)"

definition latestTimestamp :: "GroupState \<Rightarrow> number" where
  "latestTimestamp state =
     foldl (\<lambda>latest (_, record). max (max latest (addedAt record)) (removedAt record))
       (max (nameUpdatedAt state) (createdAt state)) (members state)"

definition nextTimestamp :: "GroupState \<Rightarrow> number \<Rightarrow> number" where
  "nextTimestamp state now = max now (latestTimestamp state + 1)"

definition createGroup :: "string \<Rightarrow> string \<Rightarrow> string \<Rightarrow> string list \<Rightarrow> number \<Rightarrow> GroupState result" where
  "createGroup gid name creator initial timestamp =
     (if gid = [] then Inl (GroupError ''group id is required'')
      else Inr \<lparr>g_id = gid, g_name = name, nameUpdatedAt = timestamp, nameUpdatedBy = Some creator,
                createdBy = creator, createdAt = timestamp,
                members = foldl (\<lambda>m a. AList.update a
                            \<lparr>addedAt = timestamp, removedAt = 0, addedBy = Some creator, removedBy = None\<rparr> m)
                            [] (set_from (creator # initial))\<rparr>)"

definition no_record :: MemberRecord where
  "no_record = \<lparr>addedAt = 0, removedAt = 0, addedBy = None, removedBy = None\<rparr>"

definition record_of :: "(string \<times> MemberRecord) list \<Rightarrow> string \<Rightarrow> MemberRecord" where
  "record_of m a = (case map_of m a of None \<Rightarrow> no_record | Some r \<Rightarrow> r)"

definition applyMembershipChange :: "GroupState \<Rightarrow> MembershipChange \<Rightarrow> GroupState" where
  "applyMembershipChange state change =
     (let existing = record_of (members state) (ch_accountId change);
          updated =
            (if ch_added change
             then if wins (ch_timestamp change) (Some (ch_by change)) (addedAt existing) (addedBy existing)
                  then existing\<lparr>addedAt := ch_timestamp change, addedBy := Some (ch_by change)\<rparr> else existing
             else if wins (ch_timestamp change) (Some (ch_by change)) (removedAt existing) (removedBy existing)
                  then existing\<lparr>removedAt := ch_timestamp change, removedBy := Some (ch_by change)\<rparr> else existing)
      in state\<lparr>members := AList.update (ch_accountId change) updated (members state)\<rparr>)"

definition applyRename :: "GroupState \<Rightarrow> string \<Rightarrow> number \<Rightarrow> string \<Rightarrow> GroupState" where
  "applyRename state name timestamp author =
     (if \<not> wins timestamp (Some author) (nameUpdatedAt state) (nameUpdatedBy state) then state
      else state\<lparr>g_name := name, nameUpdatedAt := timestamp, nameUpdatedBy := Some author\<rparr>)"

definition currentMembers :: "GroupState \<Rightarrow> string list" where
  "currentMembers state = sort (map fst (filter (\<lambda>(_, r). addedAt r > removedAt r) (members state)))"

definition isMember :: "GroupState \<Rightarrow> string \<Rightarrow> bool" where
  "isMember state a = (case map_of (members state) a of None \<Rightarrow> False | Some r \<Rightarrow> addedAt r > removedAt r)"

definition merge_record :: "MemberRecord \<Rightarrow> MemberRecord \<Rightarrow> MemberRecord" where
  "merge_record l r =
     \<lparr>addedAt = max (addedAt l) (addedAt r),
      removedAt = max (removedAt l) (removedAt r),
      addedBy = (if addedAt r > addedAt l then addedBy r else addedBy l),
      removedBy = (if removedAt r > removedAt l then removedBy r else removedBy l)\<rparr>"

definition mergeGroups :: "GroupState \<Rightarrow> GroupState \<Rightarrow> GroupState result" where
  "mergeGroups loc rem =
     (if g_id loc \<noteq> g_id rem then Inl (GroupError ''cannot merge different groups'')
      else let ms = foldl (\<lambda>m (a, r). AList.update a (merge_record (record_of m a) r) m)
                      (members loc) (members rem);
               renamed = wins (nameUpdatedAt rem) (nameUpdatedBy rem) (nameUpdatedAt loc) (nameUpdatedBy loc)
           in Inr (loc\<lparr>g_name := (if renamed then g_name rem else g_name loc),
                         nameUpdatedAt := max (nameUpdatedAt loc) (nameUpdatedAt rem),
                         nameUpdatedBy := (if renamed then nameUpdatedBy rem else nameUpdatedBy loc),
                         createdAt := min (createdAt loc) (createdAt rem),
                         members := ms\<rparr>))"

subsection \<open>Last-writer-wins registers\<close>

text \<open>
  The contract of a register: a write takes effect when its key is strictly above that of the
  value held. Then a set of writes with pairwise different keys has one outcome, in whatever
  order and however often they are applied.
\<close>

locale lww_register =
  fixes key :: "'v \<Rightarrow> 'k :: linorder"
    and put :: "'v \<Rightarrow> 'v \<Rightarrow> 'v"
  assumes put: "put w r = (if key r < key w then w else r)"
begin

lemma key_put: "key (put w r) = max (key w) (key r)"
  by (auto simp: put max_def)

lemma put_idem: "put w (put w r) = put w r"
  by (simp add: put)

lemma put_commute: "key v = key w \<longrightarrow> v = w \<Longrightarrow> put v (put w r) = put w (put v r)"
  by (auto simp: put)

lemma fold_put_cases:
  "(fold put ws r = r \<and> (\<forall>w\<in>set ws. key w \<le> key r)) \<or>
   (fold put ws r \<in> set ws \<and> key r < key (fold put ws r) \<and> (\<forall>w\<in>set ws. key w \<le> key (fold put ws r)))"
proof (induction ws arbitrary: r)
  case (Cons w ws)
  show ?case using Cons.IH [of "put w r"] by (auto simp: put split: if_splits)
qed simp

lemma fold_put_set:
  assumes "inj_on key (set ws)" "set ws = set ws'"
  shows "fold put ws r = fold put ws' r"
proof -
  have "x = y" if "x \<in> set ws" "y \<in> set ws" "key x = key y" for x y
    using assms(1) that by (auto dest: inj_onD)
  then show ?thesis
    using fold_put_cases [of ws r] fold_put_cases [of ws' r] assms(2) by (metis linorder_not_less order_antisym)
qed

lemma key_fold_put: "key (fold put ws r) = foldl (\<lambda>m w. max m (key w)) (key r) ws"
  by (induction ws arbitrary: r) (simp_all add: key_put max.commute)

lemma key_fold_put_le: "key r \<le> key (fold put ws r)"
  using fold_put_cases [of ws r] by auto

text \<open>Replaying a set of writes is the same as writing its outcome, on anything already as new.\<close>

lemma put_fold_put:
  assumes "inj_on key (set ws)" "key r0 \<le> key x"
  shows "put (fold put ws r0) x = fold put ws x"
proof (rule disjE [OF fold_put_cases [of ws r0]])
  assume old: "fold put ws r0 = r0 \<and> (\<forall>w\<in>set ws. key w \<le> key r0)"
  then have "fold put ws x = x" using fold_put_cases [of ws x] assms(2) by (metis leD order_trans)
  then show ?thesis using old assms(2) by (auto simp: put)
next
  assume new: "fold put ws r0 \<in> set ws \<and> key r0 < key (fold put ws r0) \<and>
    (\<forall>w\<in>set ws. key w \<le> key (fold put ws r0))"
  show ?thesis
  proof (rule disjE [OF fold_put_cases [of ws x]])
    assume "fold put ws x = x \<and> (\<forall>w\<in>set ws. key w \<le> key x)"
    then show ?thesis using new by (auto simp: put)
  next
    assume x: "fold put ws x \<in> set ws \<and> key x < key (fold put ws x) \<and>
      (\<forall>w\<in>set ws. key w \<le> key (fold put ws x))"
    then have "key (fold put ws x) = key (fold put ws r0)" using new by (simp add: order_antisym)
    then have "fold put ws x = fold put ws r0" using assms(1) new x by (auto dest: inj_onD)
    then show ?thesis using x by (simp add: put)
  qed
qed

lemma fold_put_newest: "\<forall>w\<in>set ws. key w < key v \<Longrightarrow> key r < key v \<Longrightarrow> put v (fold put ws r) = v"
  using fold_put_cases [of ws r] by (auto simp: put)

end

text \<open>The three registers of a group: additions and removals of an account, and the name.\<close>

type_synonym stamp = "number \<times> string option"

definition stamp_key :: "stamp \<Rightarrow> number \<times> string" where
  "stamp_key s = (fst s, or_empty (snd s))"

definition put_stamp :: "stamp \<Rightarrow> stamp \<Rightarrow> stamp" where
  "put_stamp w r = (if wins (fst w) (snd w) (fst r) (snd r) then w else r)"

definition put_name :: "stamp \<times> string \<Rightarrow> stamp \<times> string \<Rightarrow> stamp \<times> string" where
  "put_name w r = (if wins (fst (fst w)) (snd (fst w)) (fst (fst r)) (snd (fst r)) then w else r)"

lemma wins_key: "wins a b c d \<longleftrightarrow> stamp_key (c, d) < stamp_key (a, b)"
  by (auto simp: wins_def stamp_key_def less_prod_def)

interpretation stamps: lww_register stamp_key put_stamp
  by unfold_locales (simp add: put_stamp_def wins_key)

interpretation names: lww_register "stamp_key \<circ> fst" put_name
  by unfold_locales (simp add: put_name_def wins_key)

definition stamp_of :: "GroupState \<Rightarrow> string \<Rightarrow> bool \<Rightarrow> stamp" where
  "stamp_of st a added =
     (let r = record_of (members st) a in if added then (addedAt r, addedBy r) else (removedAt r, removedBy r))"

definition name_of :: "GroupState \<Rightarrow> stamp \<times> string" where
  "name_of st = ((nameUpdatedAt st, nameUpdatedBy st), g_name st)"

definition change_stamp :: "MembershipChange \<Rightarrow> stamp" where
  "change_stamp c = (ch_timestamp c, Some (ch_by c))"

lemma record_of_update [simp]: "record_of (AList.update a r m) b = (if a = b then r else record_of m b)"
  by (simp add: record_of_def update_conv')

lemma stamp_of_apply:
  "stamp_of (applyMembershipChange st c) a k =
     (if a = ch_accountId c \<and> k = ch_added c then put_stamp (change_stamp c) (stamp_of st a k) else stamp_of st a k)"
  by (auto simp: stamp_of_def applyMembershipChange_def Let_def put_stamp_def change_stamp_def)

lemma name_of_apply [simp]: "name_of (applyMembershipChange st c) = name_of st"
  by (simp add: name_of_def applyMembershipChange_def Let_def)

lemma stamp_of_rename [simp]: "stamp_of (applyRename st n t b) = stamp_of st"
  by (intro ext) (simp add: stamp_of_def applyRename_def)

lemma name_of_rename: "name_of (applyRename st n t b) = put_name ((t, Some b), n) (name_of st)"
  by (simp add: name_of_def applyRename_def put_name_def)

lemma distinct_keys_apply [simp]:
  "distinct_keys (members st) \<Longrightarrow> distinct_keys (members (applyMembershipChange st c))"
  by (simp add: applyMembershipChange_def Let_def distinct_update)

lemma members_rename [simp]: "members (applyRename st n t b) = members st"
  by (simp add: applyRename_def)

subsection \<open>Membership is a function of the stamps\<close>

lemma isMember_stamp: "isMember st a \<longleftrightarrow> fst (stamp_of st a False) < fst (stamp_of st a True)"
  by (auto simp: isMember_def stamp_of_def Let_def record_of_def no_record_def split: option.split)

lemma isMember_entry:
  assumes "distinct_keys (members st)"
  shows "isMember st a \<longleftrightarrow> (\<exists>r. (a, r) \<in> set (members st) \<and> removedAt r < addedAt r)"
  by (auto simp: isMember_def map_of_eq_Some_iff [OF assms, symmetric] split: option.split)

lemma set_currentMembers:
  assumes "distinct_keys (members st)"
  shows "set (currentMembers st) = {a. isMember st a}"
  unfolding isMember_entry [OF assms] by (force simp: currentMembers_def)

lemma distinct_currentMembers: "distinct_keys (members st) \<Longrightarrow> distinct (currentMembers st)"
  by (simp add: currentMembers_def distinct_map_filter)

lemma sorted_currentMembers: "sorted (currentMembers st)"
  by (simp add: currentMembers_def)

lemma currentMembers_eqI:
  assumes "distinct_keys (members s)" "distinct_keys (members t)" "\<And>a. isMember s a = isMember t a"
  shows "currentMembers s = currentMembers t"
proof (rule sorted_distinct_set_unique)
  show "sorted (currentMembers s)" "sorted (currentMembers t)" by (simp_all add: currentMembers_def)
  show "set (currentMembers s) = set (currentMembers t)" using assms by (simp add: set_currentMembers)
qed (use assms distinct_currentMembers in auto)

subsection \<open>Sequences of changes\<close>

text \<open>What a group update carries, and applying such changes one after the other.\<close>

datatype group_change = Change MembershipChange | Rename string number string

fun apply_change :: "group_change \<Rightarrow> GroupState \<Rightarrow> GroupState" where
  "apply_change (Change c) st = applyMembershipChange st c"
| "apply_change (Rename n t b) st = applyRename st n t b"

definition apply_changes :: "group_change list \<Rightarrow> GroupState \<Rightarrow> GroupState" where
  "apply_changes cs st = fold apply_change cs st"

fun stamp_writes :: "string \<Rightarrow> bool \<Rightarrow> group_change list \<Rightarrow> stamp list" where
  "stamp_writes a k [] = []"
| "stamp_writes a k (Change c # cs) =
     (if a = ch_accountId c \<and> k = ch_added c then change_stamp c # stamp_writes a k cs else stamp_writes a k cs)"
| "stamp_writes a k (Rename n t b # cs) = stamp_writes a k cs"

fun name_writes :: "group_change list \<Rightarrow> (stamp \<times> string) list" where
  "name_writes [] = []"
| "name_writes (Change c # cs) = name_writes cs"
| "name_writes (Rename n t b # cs) = ((t, Some b), n) # name_writes cs"

lemma stamp_of_changes: "stamp_of (apply_changes cs st) a k = fold put_stamp (stamp_writes a k cs) (stamp_of st a k)"
  unfolding apply_changes_def
  by (induction a k cs arbitrary: st rule: stamp_writes.induct) (simp_all add: stamp_of_apply)

lemma name_of_changes: "name_of (apply_changes cs st) = fold put_name (name_writes cs) (name_of st)"
  unfolding apply_changes_def
  by (induction cs arbitrary: st rule: name_writes.induct) (simp_all add: name_of_rename)

lemma set_stamp_writes:
  "set (stamp_writes a k cs) = {change_stamp c | c. Change c \<in> set cs \<and> a = ch_accountId c \<and> k = ch_added c}"
  by (induction a k cs rule: stamp_writes.induct) auto

lemma set_name_writes: "set (name_writes cs) = {((t, Some b), n) | n t b. Rename n t b \<in> set cs}"
  by (induction cs rule: name_writes.induct) auto

lemma distinct_keys_changes:
  "distinct_keys (members st) \<Longrightarrow> distinct_keys (members (apply_changes cs st))"
  unfolding apply_changes_def
proof (induction cs arbitrary: st)
  case (Cons c cs)
  then show ?case by (cases c) simp_all
qed simp

lemma stamp_writes_inj: "inj_on stamp_key (set (stamp_writes a k cs))"
  by (auto simp: inj_on_def set_stamp_writes change_stamp_def stamp_key_def or_empty_def)

lemma stamp_of_changes_set:
  assumes "set cs = set cs'"
  shows "stamp_of (apply_changes cs st) = stamp_of (apply_changes cs' st)"
proof (intro ext)
  fix a k
  have "set (stamp_writes a k cs) = set (stamp_writes a k cs')" using assms by (simp add: set_stamp_writes)
  then show "stamp_of (apply_changes cs st) a k = stamp_of (apply_changes cs' st) a k"
    unfolding stamp_of_changes by (rule stamps.fold_put_set [OF stamp_writes_inj])
qed

text \<open>No author stamps two different names with one timestamp.\<close>

definition renames_stamped_once :: "group_change list \<Rightarrow> bool" where
  "renames_stamped_once cs \<longleftrightarrow>
     (\<forall>n n' t b. Rename n t b \<in> set cs \<longrightarrow> Rename n' t b \<in> set cs \<longrightarrow> n = n')"

lemma name_of_changes_set:
  assumes "set cs = set cs'" "renames_stamped_once cs"
  shows "name_of (apply_changes cs st) = name_of (apply_changes cs' st)"
  unfolding name_of_changes
proof (rule names.fold_put_set)
  show "inj_on (stamp_key \<circ> fst) (set (name_writes cs))"
    using assms(2) unfolding inj_on_def set_name_writes renames_stamped_once_def
    by (auto simp: stamp_key_def or_empty_def)
qed (use assms(1) in \<open>simp add: set_name_writes\<close>)

subsection \<open>Stamping a change\<close>

lemma latest_bound:
  fixes m :: "(string \<times> MemberRecord) list"
  defines "step \<equiv> \<lambda>latest (k :: string, record). max (max latest (addedAt record)) (removedAt record)"
  shows "t \<le> foldl step t m \<and> (\<forall>(a, r)\<in>set m. addedAt r \<le> foldl step t m \<and> removedAt r \<le> foldl step t m)"
proof (induction m arbitrary: t)
  case (Cons x m)
  show ?case using Cons.IH [of "step t x"] by (cases x) (auto simp: step_def)
qed simp

lemma nextTimestamp_above:
  "nameUpdatedAt st < nextTimestamp st now" "createdAt st < nextTimestamp st now"
  "(a, r) \<in> set (members st) \<Longrightarrow> addedAt r < nextTimestamp st now \<and> removedAt r < nextTimestamp st now"
  using latest_bound [of "max (nameUpdatedAt st) (createdAt st)" "members st"]
  unfolding nextTimestamp_def latestTimestamp_def by auto

lemma nextTimestamp_above_stamps:
  assumes "0 \<le> createdAt st"
  shows "fst (stamp_of st a k) < nextTimestamp st now"
proof (cases "map_of (members st) a")
  case None
  then show ?thesis using nextTimestamp_above(2) [of st now] assms
    by (simp add: stamp_of_def Let_def record_of_def no_record_def)
next
  case (Some r)
  then show ?thesis using nextTimestamp_above(3) [OF map_of_SomeD [OF Some], of now]
    by (simp add: stamp_of_def Let_def record_of_def)
qed

lemma put_stamp_newer: "fst r < fst w \<Longrightarrow> put_stamp w r = w"
  by (simp add: put_stamp_def wins_def)

subsection \<open>Merging\<close>

text \<open>Timestamps on the wire and in a stored group count from the epoch.\<close>

definition stamps_nonneg :: "GroupState \<Rightarrow> bool" where
  "stamps_nonneg st \<longleftrightarrow> (\<forall>(a, r)\<in>set (members st). 0 \<le> addedAt r \<and> 0 \<le> removedAt r)"

lemma stamps_nonneg_stamp: "stamps_nonneg st \<Longrightarrow> 0 \<le> fst (stamp_of st a k)"
  by (auto simp: stamps_nonneg_def stamp_of_def Let_def record_of_def no_record_def
      split: option.split dest!: map_of_SomeD)

lemma stamps_nonnegI:
  assumes "distinct_keys (members st)" "\<And>a k. 0 \<le> fst (stamp_of st a k)"
  shows "stamps_nonneg st"
  unfolding stamps_nonneg_def
proof clarify
  fix a q assume "(a, q) \<in> set (members st)"
  then have "record_of (members st) a = q" using assms(1) by (simp add: record_of_def)
  then show "0 \<le> addedAt q \<and> 0 \<le> removedAt q"
    using assms(2) [of a True] assms(2) [of a False] by (simp add: stamp_of_def Let_def)
qed

lemma record_of_merge_fold:
  assumes "distinct_keys rs"
  shows "record_of (foldl (\<lambda>m (a, r). AList.update a (merge_record (record_of m a) r) m) m rs) b
       = (case map_of rs b of None \<Rightarrow> record_of m b | Some r \<Rightarrow> merge_record (record_of m b) r)"
  using assms
proof (induction rs arbitrary: m)
  case (Cons x rs)
  obtain a r where x: "x = (a, r)" by (cases x)
  then have "map_of rs a = None" using Cons.prems by (auto simp: map_of_eq_None_iff)
  then show ?case using Cons x by (auto split: option.split)
qed simp

lemma distinct_keys_merge_fold:
  "distinct_keys m \<Longrightarrow>
   distinct_keys (foldl (\<lambda>m (a, r). AList.update a (merge_record (record_of m a) r) m) m rs)"
  by (induction rs arbitrary: m) (auto simp: distinct_update)

lemma mergeGroups_eq:
  assumes "g_id l = g_id r"
  obtains m where "mergeGroups l r = Inr m"
    "members m = foldl (\<lambda>m (a, r). AList.update a (merge_record (record_of m a) r) m) (members l) (members r)"
    "name_of m = put_name (name_of r) (name_of l)" "g_id m = g_id l"
  using assms
  by (simp add: mergeGroups_def Let_def name_of_def put_name_def)
     (auto simp: wins_def max_def split: if_splits)

lemma merge_stamp:
  assumes "mergeGroups l r = Inr m" "distinct_keys (members r)" "stamps_nonneg l"
  shows "fst (stamp_of m a k) = max (fst (stamp_of l a k)) (fst (stamp_of r a k))"
proof -
  have "members m = foldl (\<lambda>m (a, r). AList.update a (merge_record (record_of m a) r) m) (members l) (members r)"
    using assms(1) by (auto simp: mergeGroups_def Let_def split: if_splits)
  then have "record_of (members m) a
      = (case map_of (members r) a of None \<Rightarrow> record_of (members l) a
         | Some q \<Rightarrow> merge_record (record_of (members l) a) q)"
    using record_of_merge_fold [OF assms(2)] by simp
  then show ?thesis
    using stamps_nonneg_stamp [OF assms(3), of a k]
    by (auto simp: stamp_of_def Let_def record_of_def [of "members r"] no_record_def merge_record_def
        split: option.split)
qed

lemma distinct_keys_merge:
  "mergeGroups l r = Inr m \<Longrightarrow> distinct_keys (members l) \<Longrightarrow> distinct_keys (members m)"
  by (auto simp: mergeGroups_def Let_def distinct_keys_merge_fold split: if_splits)

lemma merge_nonneg:
  assumes "mergeGroups l r = Inr m" "distinct_keys (members l)" "distinct_keys (members r)" "stamps_nonneg l"
  shows "stamps_nonneg m"
proof -
  have "0 \<le> fst (stamp_of m a k)" for a k
    using merge_stamp [OF assms(1,3,4), of a k] stamps_nonneg_stamp [OF assms(4), of a k] by simp
  then show ?thesis by (rule stamps_nonnegI [OF distinct_keys_merge [OF assms(1,2)]])
qed

lemma g_id_changes [simp]: "g_id (apply_changes cs st) = g_id st"
  unfolding apply_changes_def
proof (induction cs arbitrary: st)
  case (Cons c cs)
  then show ?case by (cases c) (simp_all add: applyMembershipChange_def applyRename_def Let_def)
qed simp

lemma fst_put_stamp: "fst (put_stamp w r) = max (fst w) (fst r)"
  by (auto simp: put_stamp_def wins_def)

lemma stamp_key_le: "stamp_key s \<le> stamp_key t \<Longrightarrow> fst s \<le> fst t"
  by (auto simp: stamp_key_def less_eq_prod_def)

lemma fst_stamp_changes_mono: "fst (stamp_of st a k) \<le> fst (stamp_of (apply_changes cs st) a k)"
  unfolding stamp_of_changes by (rule stamp_key_le) (rule stamps.key_fold_put_le)

lemma apply_changes_append: "apply_changes (cs @ cs') st = apply_changes cs' (apply_changes cs st)"
  by (simp add: apply_changes_def)

lemma stamp_writes_append: "stamp_writes a k (cs @ cs') = stamp_writes a k cs @ stamp_writes a k cs'"
  by (induction a k cs rule: stamp_writes.induct) simp_all

lemma replay_stamp:
  "fst (stamp_of (apply_changes (cs @ cs') st) a k) =
   max (fst (stamp_of (apply_changes cs st) a k)) (fst (stamp_of (apply_changes cs' st) a k))"
proof -
  let ?x = "stamp_of (apply_changes cs st) a k"
  have "stamp_key (stamp_of st a k) \<le> stamp_key ?x"
    unfolding stamp_of_changes by (rule stamps.key_fold_put_le)
  then have "fold put_stamp (stamp_writes a k cs') ?x
      = put_stamp (fold put_stamp (stamp_writes a k cs') (stamp_of st a k)) ?x"
    by (rule stamps.put_fold_put [OF stamp_writes_inj, symmetric])
  then show ?thesis
    by (simp add: apply_changes_append stamp_of_changes [of cs'] fst_put_stamp max.commute)
qed

lemma members_nonneg_change:
  assumes "stamps_nonneg st" "distinct_keys (members st)"
  shows "stamps_nonneg (apply_changes cs st)"
  by (rule stamps_nonnegI [OF distinct_keys_changes [OF assms(2)]])
     (meson fst_stamp_changes_mono stamps_nonneg_stamp [OF assms(1)] order_trans)

lemma name_writes_append: "name_writes (cs @ cs') = name_writes cs @ name_writes cs'"
  by (induction cs rule: name_writes.induct) simp_all

lemma replay_name:
  assumes "renames_stamped_once cs'"
  shows "name_of (apply_changes (cs @ cs') st) = put_name (name_of (apply_changes cs' st)) (name_of (apply_changes cs st))"
proof -
  have inj: "inj_on (stamp_key \<circ> fst) (set (name_writes cs'))"
    using assms unfolding inj_on_def set_name_writes renames_stamped_once_def
    by (auto simp: stamp_key_def or_empty_def)
  have "(stamp_key \<circ> fst) (name_of st) \<le> (stamp_key \<circ> fst) (name_of (apply_changes cs st))"
    unfolding name_of_changes by (rule names.key_fold_put_le)
  from names.put_fold_put [OF inj this] show ?thesis
    by (simp add: apply_changes_append name_of_changes [of cs'])
qed

lemma createGroup_record:
  "map_of (foldl (\<lambda>m a. AList.update a r m) m xs) a = (if a \<in> set xs then Some r else map_of m a)"
  by (induction xs arbitrary: m) (auto simp: update_conv')

lemma distinct_keys_createGroup:
  "distinct_keys m \<Longrightarrow> distinct_keys (foldl (\<lambda>m a. AList.update a r m) m xs)"
  by (induction xs arbitrary: m) (simp_all add: distinct_update)

subsection \<open>Concrete groups\<close>

definition demo_group :: GroupState where
  "demo_group = \<lparr>g_id = ''g'', g_name = ''n'', nameUpdatedAt = 1, nameUpdatedBy = Some ''a'', createdBy = ''a'',
     createdAt = 1, members = [(''a'', \<lparr>addedAt = 1, removedAt = 0, addedBy = Some ''a'', removedBy = None\<rparr>)]\<rparr>"

definition demo_change :: "string \<Rightarrow> bool \<Rightarrow> number \<Rightarrow> string \<Rightarrow> group_change" where
  "demo_change who added t author =
     Change \<lparr>ch_accountId = who, ch_added = added, ch_timestamp = t, ch_by = author\<rparr>"

lemma demo_group_ok: "distinct_keys (members demo_group)" "stamps_nonneg demo_group"
  by (simp_all add: demo_group_def stamps_nonneg_def)

subsection \<open>Properties\<close>

text \<open>
  Claim C22. Convergence: two members that have seen the same set of changes, in any order and with
  any repetitions, agree on every account's membership, on the list they display, and (as long as
  no author stamps two names with one timestamp) on the name.
\<close>

theorem group_changes_converge:
  assumes "distinct_keys (members st)" "renames_stamped_once cs" "set cs = set cs'"
  shows "currentMembers (apply_changes cs st) = currentMembers (apply_changes cs' st) \<and>
         (\<forall>a. isMember (apply_changes cs st) a = isMember (apply_changes cs' st) a) \<and>
         g_name (apply_changes cs st) = g_name (apply_changes cs' st)"
proof -
  have same: "isMember (apply_changes cs st) a = isMember (apply_changes cs' st) a" for a
    by (simp add: isMember_stamp stamp_of_changes_set [OF assms(3)])
  have "name_of (apply_changes cs st) = name_of (apply_changes cs' st)"
    by (rule name_of_changes_set [OF assms(3,2)])
  then show ?thesis
    using same currentMembers_eqI [OF distinct_keys_changes [OF assms(1)] distinct_keys_changes [OF assms(1)] same]
    by (simp add: name_of_def)
qed

theorem group_changes_converge_witness:
  "currentMembers (apply_changes [demo_change ''b'' True 5 ''a'', demo_change ''b'' False 7 ''a''] demo_group)
   = currentMembers (apply_changes [demo_change ''b'' False 7 ''a'', demo_change ''b'' True 5 ''a'',
       demo_change ''b'' False 7 ''a''] demo_group)"
proof -
  have "renames_stamped_once [demo_change ''b'' True 5 ''a'', demo_change ''b'' False 7 ''a'']"
    by (simp add: renames_stamped_once_def demo_change_def)
  moreover have "set [demo_change ''b'' True 5 ''a'', demo_change ''b'' False 7 ''a'']
      = set [demo_change ''b'' False 7 ''a'', demo_change ''b'' True 5 ''a'', demo_change ''b'' False 7 ''a'']"
    by auto
  ultimately show ?thesis using group_changes_converge [OF demo_group_ok(1)] by blast
qed

text \<open>
  Merging is replaying: when two members start from the same state and apply different
  changes, merging their states succeeds and gives the membership, the displayed list and the name
  that applying all of the changes would give. A member that was offline needs the peer's state,
  not the history.
\<close>

theorem merge_is_replay:
  assumes "distinct_keys (members st)" "stamps_nonneg st" "renames_stamped_once cs'"
  shows "\<exists>m. mergeGroups (apply_changes cs st) (apply_changes cs' st) = Inr m \<and>
     currentMembers m = currentMembers (apply_changes (cs @ cs') st) \<and>
     (\<forall>a. isMember m a = isMember (apply_changes (cs @ cs') st) a) \<and>
     g_name m = g_name (apply_changes (cs @ cs') st)"
proof -
  let ?l = "apply_changes cs st" and ?r = "apply_changes cs' st" and ?b = "apply_changes (cs @ cs') st"
  have gid: "g_id ?l = g_id ?r" by simp
  obtain m where m: "mergeGroups ?l ?r = Inr m" "name_of m = put_name (name_of ?r) (name_of ?l)"
    using mergeGroups_eq [OF gid] .
  have d: "distinct_keys (members ?l)" "distinct_keys (members ?r)" "distinct_keys (members ?b)"
    using distinct_keys_changes [OF assms(1)] by blast+
  have "fst (stamp_of m a k) = fst (stamp_of ?b a k)" for a k
    using merge_stamp [OF m(1) d(2) members_nonneg_change [OF assms(2,1)]] replay_stamp by simp
  then have same: "isMember m a = isMember ?b a" for a by (simp add: isMember_stamp)
  moreover have "name_of m = name_of ?b" using m(2) replay_name [OF assms(3)] by simp
  ultimately show ?thesis
    using m(1) currentMembers_eqI [OF distinct_keys_merge [OF m(1) d(1)] d(3) same] by (simp add: name_of_def)
qed

theorem merge_is_replay_witness:
  "\<exists>m. mergeGroups (apply_changes [demo_change ''b'' True 5 ''a''] demo_group)
          (apply_changes [demo_change ''a'' False 6 ''a''] demo_group) = Inr m \<and> isMember m ''b''"
proof -
  have "isMember (apply_changes ([demo_change ''b'' True 5 ''a''] @ [demo_change ''a'' False 6 ''a'']) demo_group) ''b''"
    by (simp add: apply_changes_def demo_change_def demo_group_def applyMembershipChange_def record_of_def
        no_record_def wins_def or_empty_def isMember_def)
  then show ?thesis
    using merge_is_replay [OF demo_group_ok, of "[demo_change ''a'' False 6 ''a'']" "[demo_change ''b'' True 5 ''a'']"]
    by (auto simp: renames_stamped_once_def demo_change_def)
qed

text \<open>
  A change stamped with \<open>nextTimestamp\<close> always takes effect on the state it was made
  against, however far behind the author's clock is: the account it adds is a member, the account
  it removes is not, and a rename sticks.
\<close>

theorem authored_change_supersedes:
  assumes "0 \<le> createdAt st"
  shows "isMember (applyMembershipChange st
           \<lparr>ch_accountId = a, ch_added = added, ch_timestamp = nextTimestamp st now, ch_by = author\<rparr>) a = added \<and>
         g_name (applyRename st name (nextTimestamp st now) author) = name"
proof -
  let ?t = "nextTimestamp st now"
  let ?c = "\<lparr>ch_accountId = a, ch_added = added, ch_timestamp = ?t, ch_by = author\<rparr>"
  have old: "fst (stamp_of st a k) < ?t" for k by (rule nextTimestamp_above_stamps [OF assms])
  have new: "stamp_of (applyMembershipChange st ?c) a added = (?t, Some author)"
    using put_stamp_newer [of "stamp_of st a added" "(?t, Some author)"] old
    by (simp add: stamp_of_apply change_stamp_def)
  have kept: "stamp_of (applyMembershipChange st ?c) a (\<not> added) = stamp_of st a (\<not> added)"
    by (simp add: stamp_of_apply)
  have "isMember (applyMembershipChange st ?c) a = added"
    using new kept old [of "\<not> added"] by (cases added) (simp_all add: isMember_stamp)
  then show ?thesis using nextTimestamp_above(1) [of st now] by (simp add: applyRename_def wins_def)
qed

theorem authored_change_supersedes_witness:
  "\<not> isMember (applyMembershipChange demo_group
      \<lparr>ch_accountId = ''a'', ch_added = False, ch_timestamp = nextTimestamp demo_group (- 9), ch_by = ''a''\<rparr>) ''a''"
  using authored_change_supersedes [of demo_group "''a''" False "- 9" "''a''"] by (simp add: demo_group_def)

text \<open>
  A created group has exactly its creator and the listed accounts as members, shown
  sorted and without repetition; an empty id is the only refusal.
\<close>

theorem createGroup_members:
  assumes "0 < timestamp"
  shows "(gid = [] \<longrightarrow> createGroup gid name creator ms timestamp = Inl (GroupError ''group id is required'')) \<and>
         (gid \<noteq> [] \<longrightarrow> (\<exists>st. createGroup gid name creator ms timestamp = Inr st \<and> distinct_keys (members st) \<and>
            (\<forall>a. isMember st a \<longleftrightarrow> a \<in> insert creator (set ms)) \<and>
            currentMembers st = sorted_list_of_set (insert creator (set ms))))"
proof (cases "gid = []")
  case False
  let ?r = "\<lparr>addedAt = timestamp, removedAt = 0, addedBy = Some creator, removedBy = None\<rparr>"
  let ?m = "foldl (\<lambda>m a. AList.update a ?r m) [] (set_from (creator # ms))"
  obtain st where st: "createGroup gid name creator ms timestamp = Inr st" "members st = ?m"
    using False by (simp add: createGroup_def)
  have d: "distinct_keys (members st)" unfolding st(2) by (rule distinct_keys_createGroup) simp
  have mem: "isMember st a \<longleftrightarrow> a \<in> insert creator (set ms)" for a
    unfolding isMember_def st(2) createGroup_record using assms by simp
  have "set (currentMembers st) = insert creator (set ms)"
    using set_currentMembers [OF d] mem by blast
  then have "currentMembers st = sorted_list_of_set (insert creator (set ms))"
    using sorted_distinct_set_unique [of "currentMembers st" "sorted_list_of_set (insert creator (set ms))"]
      distinct_currentMembers [OF d] sorted_currentMembers [of st]
    by (simp del: sorted_list_of_set_insert_remove)
  then show ?thesis using False st(1) d mem by blast
qed (simp add: createGroup_def)

theorem createGroup_members_witness:
  "\<exists>st. createGroup ''g'' ''n'' ''z'' [''b'', ''z'', ''b''] 3 = Inr st \<and> isMember st ''z'' \<and> isMember st ''b''"
  using createGroup_members [of 3 "''g''" "''n''" "''z''" "[''b'', ''z'', ''b'']"] by auto

text \<open>
  Merging is a join on membership: commutative, associative and idempotent, so members
  that exchange states in any pattern end with the same members. Groups with different ids are
  refused.
\<close>

theorem merge_membership_join:
  assumes "g_id x = g_id y" "g_id y = g_id z"
    "\<forall>s\<in>{x, y, z}. distinct_keys (members s) \<and> stamps_nonneg s"
  shows "\<exists>xy yx xyz yz xyz' xx.
     mergeGroups x y = Inr xy \<and> mergeGroups y x = Inr yx \<and> mergeGroups xy z = Inr xyz \<and>
     mergeGroups y z = Inr yz \<and> mergeGroups x yz = Inr xyz' \<and> mergeGroups x x = Inr xx \<and>
     (\<forall>a. isMember xy a = isMember yx a \<and> isMember xyz a = isMember xyz' a \<and> isMember xx a = isMember x a)"
proof -
  have ok: "distinct_keys (members x)" "distinct_keys (members y)" "distinct_keys (members z)"
    "stamps_nonneg x" "stamps_nonneg y" "stamps_nonneg z" using assms(3) by simp_all
  obtain xy where xy: "mergeGroups x y = Inr xy" "g_id xy = g_id x" by (rule mergeGroups_eq [OF assms(1)])
  obtain yx where yx: "mergeGroups y x = Inr yx" by (rule mergeGroups_eq [OF assms(1) [symmetric]])
  obtain yz where yz: "mergeGroups y z = Inr yz" "g_id yz = g_id y" by (rule mergeGroups_eq [OF assms(2)])
  have g: "g_id xy = g_id z" "g_id x = g_id yz" using xy(2) yz(2) assms by simp_all
  obtain xyz where xyz: "mergeGroups xy z = Inr xyz" by (rule mergeGroups_eq [OF g(1)])
  obtain xyz' where xyz': "mergeGroups x yz = Inr xyz'" by (rule mergeGroups_eq [OF g(2)])
  obtain xx where xx: "mergeGroups x x = Inr xx" using mergeGroups_eq [of x x] by blast
  note d = distinct_keys_merge [OF xy(1) ok(1)] distinct_keys_merge [OF yz(1) ok(2)]
  note n = merge_nonneg [OF xy(1) ok(1,2,4)]
  have "isMember xy a = isMember yx a" "isMember xyz a = isMember xyz' a" "isMember xx a = isMember x a" for a
    by (simp_all add: isMember_stamp merge_stamp [OF xy(1) ok(2,4)] merge_stamp [OF yx ok(1,5)]
        merge_stamp [OF xyz ok(3) n] merge_stamp [OF xyz' d(2) ok(4)] merge_stamp [OF yz(1) ok(3,5)]
        merge_stamp [OF xx ok(1,4)] max.commute max.assoc max.left_commute)
  then show ?thesis using xy yx xyz yz xyz' xx by blast
qed

theorem merge_membership_join_witness:
  "\<exists>xx. mergeGroups demo_group demo_group = Inr xx \<and> isMember xx ''a''"
  using merge_membership_join [of demo_group demo_group demo_group] demo_group_ok
  by (auto simp: demo_group_def isMember_def)

text \<open>
  The author recorded with a change is not merged as the pairwise maximum: when both
  sides hold the same time for an addition, each keeps its own author, so the two merged states
  differ although \<open>applyMembershipChange\<close> would have picked the greater author on both. Membership
  is not affected.
\<close>

theorem merge_keeps_local_author:
  "\<exists>c d ml mr. mergeGroups (applyMembershipChange demo_group c) (applyMembershipChange demo_group d) = Inr ml \<and>
     mergeGroups (applyMembershipChange demo_group d) (applyMembershipChange demo_group c) = Inr mr \<and>
     addedBy (record_of (members ml) ''b'') = Some ''a'' \<and> addedBy (record_of (members mr) ''b'') = Some ''z''"
proof -
  let ?c = "\<lambda>who. \<lparr>ch_accountId = ''b'', ch_added = True, ch_timestamp = 5, ch_by = who\<rparr>"
  let ?r = "\<lambda>who. \<lparr>addedAt = 5, removedAt = 0, addedBy = Some who, removedBy = None\<rparr>"
  have m: "members (applyMembershipChange demo_group (?c who))
      = [(''a'', \<lparr>addedAt = 1, removedAt = 0, addedBy = Some ''a'', removedBy = None\<rparr>), (''b'', ?r who)]" for who
    by (simp add: applyMembershipChange_def demo_group_def record_of_def no_record_def wins_def)
  have g: "g_id (applyMembershipChange demo_group (?c who)) = ''g''" for who
    by (simp add: applyMembershipChange_def demo_group_def Let_def)
  have by_local: "\<exists>x. mergeGroups (applyMembershipChange demo_group (?c who)) (applyMembershipChange demo_group (?c who')) = Inr x
      \<and> addedBy (record_of (members x) ''b'') = Some who" for who who'
    by (simp add: mergeGroups_def g m Let_def) (simp add: record_of_def merge_record_def)
  show ?thesis using by_local by blast
qed

end
