(* ===== verification/Content.thy ===== *)
theory Content
  imports Json
begin

section \<open>Message content (\<open>crypto/content.ts\<close>)\<close>

text \<open>
  The content types, the frame they travel in, and its validation. \<open>decodeContent\<close> parses JSON,
  checks the frame and the fields \<open>validate\<close> names, and returns the object as it came; the view of
  that object as a typed value reads a field \<open>validate\<close> does not look at as an optional one: a
  timestamp that is not a number, or a name that is not a string, is absent. The elements of a
  member list are converted to strings, which is what using them as object keys does.
\<close>


definition CONTENT_VERSION :: nat where "CONTENT_VERSION = 1"
definition MAX_CHUNK_BYTES :: nat where "MAX_CHUNK_BYTES = 32 * 1024"

datatype receipt_kind = Delivered | ReadReceipt

record AttachmentChunkContent =
  at_id :: string
  at_name :: "string option"
  at_mimeType :: "string option"
  at_size :: nat
  at_chunkIndex :: nat
  at_chunkCount :: nat
  at_data :: string
  at_timestamp :: "number option"
  at_caption :: "string option"

datatype MessageContent =
    TextContent string string number "string option"
      \<comment> \<open>id, body, timestamp, replyTo\<close>
  | ReceiptContent receipt_kind "string list" "number option"
  | TypingContent number
  | DeleteContent string "number option"
  | EditContent string string "number option"
  | ReactionContent string string bool "number option"
  | AttachmentContent AttachmentChunkContent
  | GroupCreateContent string string "string list" "number option"
  | GroupUpdateContent string "string option" "string list option" "string list option" number
  | GroupTextContent string string string number "string option"
  | UnsupportedContent string

definition KNOWN_TYPES :: "string list" where
  "KNOWN_TYPES = [''text'', ''receipt'', ''typing'', ''delete'', ''edit'', ''reaction'', ''attachment'',
                  ''group-create'', ''group-update'', ''group-text'']"

subsection \<open>Encoding\<close>

abbreviation jstr :: "string option \<Rightarrow> json option" where
  "jstr \<equiv> map_option JStr"

abbreviation jnum :: "number option \<Rightarrow> json option" where
  "jnum \<equiv> map_option JNum"

abbreviation jstrs :: "string list \<Rightarrow> json" where
  "jstrs xs \<equiv> JArr (map JStr xs)"

definition kind_name :: "receipt_kind \<Rightarrow> string" where
  "kind_name k = (case k of Delivered \<Rightarrow> ''delivered'' | ReadReceipt \<Rightarrow> ''read'')"

fun content_json :: "MessageContent \<Rightarrow> json" where
  "content_json (TextContent i b t r) =
     JObj ([(''type'', JStr ''text''), (''id'', JStr i), (''body'', JStr b), (''timestamp'', JNum t)]
           @ opt_field ''replyTo'' (jstr r))"
| "content_json (ReceiptContent k ids t) =
     JObj ([(''type'', JStr ''receipt''), (''kind'', JStr (kind_name k)), (''messageIds'', jstrs ids)]
           @ opt_field ''timestamp'' (jnum t))"
| "content_json (TypingContent ttl) = JObj [(''type'', JStr ''typing''), (''ttlMs'', JNum ttl)]"
| "content_json (DeleteContent tid t) =
     JObj ([(''type'', JStr ''delete''), (''targetId'', JStr tid)] @ opt_field ''timestamp'' (jnum t))"
| "content_json (EditContent tid b t) =
     JObj ([(''type'', JStr ''edit''), (''targetId'', JStr tid), (''body'', JStr b)] @ opt_field ''timestamp'' (jnum t))"
| "content_json (ReactionContent tid e act t) =
     JObj ([(''type'', JStr ''reaction''), (''targetId'', JStr tid), (''emoji'', JStr e), (''active'', JBool act)]
           @ opt_field ''timestamp'' (jnum t))"
| "content_json (AttachmentContent c) =
     JObj ([(''type'', JStr ''attachment''), (''id'', JStr (at_id c))] @ opt_field ''name'' (jstr (at_name c))
           @ opt_field ''mimeType'' (jstr (at_mimeType c))
           @ [(''size'', jnat (at_size c)), (''chunkIndex'', jnat (at_chunkIndex c)),
              (''chunkCount'', jnat (at_chunkCount c)), (''data'', JStr (at_data c))]
           @ opt_field ''timestamp'' (jnum (at_timestamp c)) @ opt_field ''caption'' (jstr (at_caption c)))"
| "content_json (GroupCreateContent g n ms t) =
     JObj ([(''type'', JStr ''group-create''), (''groupId'', JStr g), (''name'', JStr n), (''members'', jstrs ms)]
           @ opt_field ''timestamp'' (jnum t))"
| "content_json (GroupUpdateContent g n adds rems t) =
     JObj ([(''type'', JStr ''group-update''), (''groupId'', JStr g)] @ opt_field ''name'' (jstr n)
           @ opt_field ''addMembers'' (map_option jstrs adds) @ opt_field ''removeMembers'' (map_option jstrs rems)
           @ [(''timestamp'', JNum t)])"
| "content_json (GroupTextContent g i b t r) =
     JObj ([(''type'', JStr ''group-text''), (''groupId'', JStr g), (''id'', JStr i), (''body'', JStr b),
            (''timestamp'', JNum t)] @ opt_field ''replyTo'' (jstr r))"
| "content_json (UnsupportedContent ty) = JObj [(''type'', JStr ''unsupported''), (''originalType'', JStr ty)]"

definition encodeContent :: "MessageContent \<Rightarrow> bytes result" where
  "encodeContent content =
     (case content of
        UnsupportedContent _ \<Rightarrow> Inl (ContentError ''cannot encode unsupported content'')
      | _ \<Rightarrow> Inr (utf8_encode (json_print (JObj [(''v'', jnat CONTENT_VERSION), (''c'', content_json content)]))))"

subsection \<open>Validation\<close>

text \<open>The tests of \<open>validate\<close> on a field; a double overflows to infinity at \<open>2 ^ 1024 - 2 ^ 970\<close>.\<close>

definition is_string :: "json option \<Rightarrow> bool" where
  "is_string v = (case v of Some (JStr _) \<Rightarrow> True | _ \<Rightarrow> False)"

definition is_nonempty_string :: "json option \<Rightarrow> bool" where
  "is_nonempty_string v = (case v of Some (JStr s) \<Rightarrow> s \<noteq> [] | _ \<Rightarrow> False)"

definition finite_num :: "rat \<Rightarrow> bool" where
  "finite_num q \<longleftrightarrow> \<bar>q\<bar> < 2 ^ 1024 - 2 ^ 970"

definition is_finite_num :: "json option \<Rightarrow> bool" where
  "is_finite_num v = (case v of Some (JNum q) \<Rightarrow> finite_num q | _ \<Rightarrow> False)"

definition int_test :: "(rat \<Rightarrow> bool) \<Rightarrow> json option \<Rightarrow> bool" where
  "int_test P v = (case v of Some (JNum q) \<Rightarrow> finite_num q \<and> is_integer q \<and> P q | _ \<Rightarrow> False)"

definition num_value :: "json option \<Rightarrow> rat" where
  "num_value v = (case v of Some (JNum q) \<Rightarrow> q | _ \<Rightarrow> 0)"

definition is_array :: "json option \<Rightarrow> bool" where
  "is_array v = (case v of Some (JArr _) \<Rightarrow> True | _ \<Rightarrow> False)"

text \<open>\<open>(x?.length ?? 0) > 0\<close>.\<close>

definition has_length :: "json option \<Rightarrow> bool" where
  "has_length v = (case v of Some (JArr xs) \<Rightarrow> xs \<noteq> [] | Some (JStr s) \<Rightarrow> s \<noteq> []
     | Some (JObj kvs) \<Rightarrow> (case map_of kvs ''length'' of Some (JNum q) \<Rightarrow> q > 0 | _ \<Rightarrow> False) | _ \<Rightarrow> False)"

fun require_all :: "string \<Rightarrow> (bool \<times> string) list \<Rightarrow> unit result" where
  "require_all ty [] = Inr ()"
| "require_all ty ((ok, fld) # checks) =
     (if ok then require_all ty checks else Inl (ContentError (ty @ '': invalid '' @ fld)))"

definition validate :: "string \<Rightarrow> json \<Rightarrow> unit result" where
  "validate ty c =
     require_all ty
       (if ty = ''text'' then
          [(is_nonempty_string (field c ''id''), ''id''), (is_string (field c ''body''), ''body''),
           (is_finite_num (field c ''timestamp''), ''timestamp'')]
        else if ty = ''receipt'' then
          [(field c ''kind'' = Some (JStr ''delivered'') \<or> field c ''kind'' = Some (JStr ''read''), ''kind''),
           (is_array (field c ''messageIds'') \<and> has_length (field c ''messageIds''), ''messageIds'')]
        else if ty = ''typing'' then
          [(is_finite_num (field c ''ttlMs'') \<and> num_value (field c ''ttlMs'') > 0, ''ttlMs'')]
        else if ty = ''delete'' then [(is_string (field c ''targetId''), ''targetId'')]
        else if ty = ''edit'' then
          [(is_string (field c ''targetId''), ''targetId''), (is_string (field c ''body''), ''body'')]
        else if ty = ''reaction'' then
          [(is_string (field c ''targetId''), ''targetId''), (is_nonempty_string (field c ''emoji''), ''emoji''),
           (field c ''active'' = Some (JBool True) \<or> field c ''active'' = Some (JBool False), ''active'')]
        else if ty = ''attachment'' then
          [(is_nonempty_string (field c ''id''), ''id''),
           (int_test (\<lambda>q. q > 0) (field c ''chunkCount''), ''chunkCount''),
           (int_test (\<lambda>q. q \<ge> 0 \<and> q < num_value (field c ''chunkCount'')) (field c ''chunkIndex''), ''chunkIndex''),
           (is_string (field c ''data''), ''data''),
           (int_test (\<lambda>q. q \<ge> 0) (field c ''size''), ''size'')]
        else if ty = ''group-create'' then
          [(is_nonempty_string (field c ''groupId''), ''groupId''), (is_string (field c ''name''), ''name''),
           (is_array (field c ''members''), ''members'')]
        else if ty = ''group-update'' then
          [(is_nonempty_string (field c ''groupId''), ''groupId''),
           (is_finite_num (field c ''timestamp''), ''timestamp''),
           (field c ''name'' \<noteq> None \<or> has_length (field c ''addMembers'') \<or> has_length (field c ''removeMembers''),
            ''change'')]
        else if ty = ''group-text'' then
          [(is_nonempty_string (field c ''groupId''), ''groupId''), (is_nonempty_string (field c ''id''), ''id''),
           (is_string (field c ''body''), ''body''), (is_finite_num (field c ''timestamp''), ''timestamp'')]
        else [])"

subsection \<open>Decoding\<close>

definition str_view :: "json option \<Rightarrow> string option" where
  "str_view v = (case v of Some (JStr s) \<Rightarrow> Some s | _ \<Rightarrow> None)"

definition num_view :: "json option \<Rightarrow> number option" where
  "num_view v = (case v of Some (JNum q) \<Rightarrow> Some q | _ \<Rightarrow> None)"

definition strs_view :: "json option \<Rightarrow> string list option" where
  "strs_view v = (case v of Some (JArr xs) \<Rightarrow> Some (map js_string xs) | Some (JStr s) \<Rightarrow> Some (map (\<lambda>c. [c]) s)
     | _ \<Rightarrow> None)"

text \<open>The strings among the elements: a receipt for anything else names no message.\<close>

fun strings_among :: "json list \<Rightarrow> string list" where
  "strings_among [] = []"
| "strings_among (JStr s # xs) = s # strings_among xs"
| "strings_among (_ # xs) = strings_among xs"

definition ids_of :: "json option \<Rightarrow> string list" where
  "ids_of v = (case v of Some (JArr xs) \<Rightarrow> strings_among xs | _ \<Rightarrow> [])"

definition text_of :: "json option \<Rightarrow> string" where
  "text_of v = (case str_view v of None \<Rightarrow> [] | Some s \<Rightarrow> s)"

definition nat_of :: "json option \<Rightarrow> nat" where
  "nat_of v = nat \<lfloor>num_value v\<rfloor>"

definition list_of :: "json option \<Rightarrow> string list" where
  "list_of v = (case strs_view v of None \<Rightarrow> [] | Some xs \<Rightarrow> xs)"

definition content_view :: "string \<Rightarrow> json \<Rightarrow> MessageContent" where
  "content_view ty c =
     (if ty = ''text'' then
        TextContent (text_of (field c ''id'')) (text_of (field c ''body'')) (num_value (field c ''timestamp''))
          (str_view (field c ''replyTo''))
      else if ty = ''receipt'' then
        ReceiptContent (if field c ''kind'' = Some (JStr ''read'') then ReadReceipt else Delivered)
          (ids_of (field c ''messageIds'')) (num_view (field c ''timestamp''))
      else if ty = ''typing'' then TypingContent (num_value (field c ''ttlMs''))
      else if ty = ''delete'' then DeleteContent (text_of (field c ''targetId'')) (num_view (field c ''timestamp''))
      else if ty = ''edit'' then
        EditContent (text_of (field c ''targetId'')) (text_of (field c ''body'')) (num_view (field c ''timestamp''))
      else if ty = ''reaction'' then
        ReactionContent (text_of (field c ''targetId'')) (text_of (field c ''emoji''))
          (field c ''active'' = Some (JBool True)) (num_view (field c ''timestamp''))
      else if ty = ''attachment'' then
        AttachmentContent
          \<lparr>at_id = text_of (field c ''id''), at_name = str_view (field c ''name''),
           at_mimeType = str_view (field c ''mimeType''), at_size = nat_of (field c ''size''),
           at_chunkIndex = nat_of (field c ''chunkIndex''), at_chunkCount = nat_of (field c ''chunkCount''),
           at_data = text_of (field c ''data''), at_timestamp = num_view (field c ''timestamp''),
           at_caption = str_view (field c ''caption'')\<rparr>
      else if ty = ''group-create'' then
        GroupCreateContent (text_of (field c ''groupId'')) (text_of (field c ''name'')) (list_of (field c ''members''))
          (num_view (field c ''timestamp''))
      else if ty = ''group-update'' then
        GroupUpdateContent (text_of (field c ''groupId'')) (map_option js_string (field c ''name''))
          (strs_view (field c ''addMembers'')) (strs_view (field c ''removeMembers'')) (num_value (field c ''timestamp''))
      else GroupTextContent (text_of (field c ''groupId'')) (text_of (field c ''id'')) (text_of (field c ''body''))
             (num_value (field c ''timestamp'')) (str_view (field c ''replyTo'')))"

definition decode_frame :: "json \<Rightarrow> MessageContent result" where
  "decode_frame framed =
     (if \<not> truthy_json framed \<or> \<not> is_object framed \<or> num_view (field framed ''v'') = None
      then Inl (ContentError ''content frame is malformed'')
      else if num_value (field framed ''v'') \<noteq> of_nat CONTENT_VERSION
      then Inr (UnsupportedContent (''v'' @ print_number (num_value (field framed ''v''))))
      else case field framed ''c'' of
             None \<Rightarrow> Inl (ContentError ''content body is malformed'')
           | Some c \<Rightarrow>
               if \<not> truthy_json c \<or> \<not> is_object c then Inl (ContentError ''content body is malformed'')
               else case field c ''type'' of
                      Some (JStr ty) \<Rightarrow>
                        if ty \<notin> set KNOWN_TYPES then Inr (UnsupportedContent ty)
                        else rbind (validate ty c) (\<lambda>_. Inr (content_view ty c))
                    | _ \<Rightarrow> Inl (ContentError ''content body is malformed''))"

definition decodeContent :: "bytes \<Rightarrow> MessageContent result" where
  "decodeContent bytes =
     (case json_parse (utf8_decode bytes) of
        None \<Rightarrow> Inl (ContentError ''content is not valid JSON'')
      | Some framed \<Rightarrow> decode_frame framed)"

subsection \<open>Well-formed content\<close>

definition opt_num_ok :: "number option \<Rightarrow> bool" where
  "opt_num_ok t = (case t of None \<Rightarrow> True | Some q \<Rightarrow> num_ok q)"

definition stamp_ok :: "number \<Rightarrow> bool" where
  "stamp_ok t \<longleftrightarrow> num_ok t \<and> finite_num t"

definition chunk_ok :: "AttachmentChunkContent \<Rightarrow> bool" where
  "chunk_ok c \<longleftrightarrow> at_id c \<noteq> [] \<and> 0 < at_chunkCount c \<and> at_chunkIndex c < at_chunkCount c \<and>
     finite_num (of_nat (at_chunkCount c)) \<and> finite_num (of_nat (at_size c)) \<and> opt_num_ok (at_timestamp c)"

fun content_ok :: "MessageContent \<Rightarrow> bool" where
  "content_ok (TextContent i b t r) = (i \<noteq> [] \<and> stamp_ok t)"
| "content_ok (ReceiptContent k ids t) = (ids \<noteq> [] \<and> opt_num_ok t)"
| "content_ok (TypingContent ttl) = (stamp_ok ttl \<and> 0 < ttl)"
| "content_ok (DeleteContent tid t) = opt_num_ok t"
| "content_ok (EditContent tid b t) = opt_num_ok t"
| "content_ok (ReactionContent tid e act t) = (e \<noteq> [] \<and> opt_num_ok t)"
| "content_ok (AttachmentContent c) = chunk_ok c"
| "content_ok (GroupCreateContent g n ms t) = (g \<noteq> [] \<and> opt_num_ok t)"
| "content_ok (GroupUpdateContent g n adds rems t) =
     (g \<noteq> [] \<and> stamp_ok t \<and> (n \<noteq> None \<or> (adds \<noteq> None \<and> adds \<noteq> Some []) \<or> (rems \<noteq> None \<and> rems \<noteq> Some [])))"
| "content_ok (GroupTextContent g i b t r) = (g \<noteq> [] \<and> i \<noteq> [] \<and> stamp_ok t)"
| "content_ok (UnsupportedContent ty) = False"

lemmas field_tests = is_string_def is_nonempty_string_def is_finite_num_def int_test_def num_value_def is_array_def
  has_length_def str_view_def num_view_def strs_view_def text_of_def nat_of_def list_of_def ids_of_def

lemma strings_among_map [simp]: "strings_among (map JStr xs) = xs"
  by (induction xs) simp_all

lemma js_string_map [simp]: "map js_string (map JStr xs) = xs" "map (js_string \<circ> JStr) xs = xs"
  by (induction xs) simp_all

lemma field_append_opt: "field (JObj (xs @ opt_field k v)) k' =
  (case map_of xs k' of Some y \<Rightarrow> Some y | None \<Rightarrow> if k' = k then v else None)"
  by (simp add: map_of_opt_field map_add_def split: option.split)

fun type_name :: "MessageContent \<Rightarrow> string" where
  "type_name (TextContent _ _ _ _) = ''text''"
| "type_name (ReceiptContent _ _ _) = ''receipt''"
| "type_name (TypingContent _) = ''typing''"
| "type_name (DeleteContent _ _) = ''delete''"
| "type_name (EditContent _ _ _) = ''edit''"
| "type_name (ReactionContent _ _ _ _) = ''reaction''"
| "type_name (AttachmentContent _) = ''attachment''"
| "type_name (GroupCreateContent _ _ _ _) = ''group-create''"
| "type_name (GroupUpdateContent _ _ _ _ _) = ''group-update''"
| "type_name (GroupTextContent _ _ _ _ _) = ''group-text''"
| "type_name (UnsupportedContent _) = ''unsupported''"

lemma type_of_json: "field (content_json c) ''type'' = Some (JStr (type_name c))"
  by (cases c) simp_all

lemma type_known: "content_ok c \<Longrightarrow> type_name c \<in> set KNOWN_TYPES"
  by (cases c) (simp_all add: KNOWN_TYPES_def)

lemma content_json_object: "truthy_json (content_json c) \<and> is_object (content_json c)"
  by (cases c) simp_all

lemma is_integer_of_nat [simp]: "is_integer (of_nat n)"
  by (simp add: is_integer_def)

lemma finite_num_less: "finite_num (of_nat n) \<Longrightarrow> m \<le> n \<Longrightarrow> finite_num (of_nat m)"
proof -
  assume "finite_num (of_nat n)" "m \<le> n"
  moreover have "(of_nat m :: rat) \<le> of_nat n" using \<open>m \<le> n\<close> by simp
  ultimately show ?thesis unfolding finite_num_def by (metis abs_of_nat order_le_less_trans)
qed

lemma view_attachment:
  assumes "chunk_ok c"
  shows "validate ''attachment'' (content_json (AttachmentContent c)) = Inr ()"
    "content_view ''attachment'' (content_json (AttachmentContent c)) = AttachmentContent c"
proof -
  let ?j = "content_json (AttachmentContent c)"
  have f: "field ?j ''id'' = Some (JStr (at_id c))" "field ?j ''name'' = jstr (at_name c)"
    "field ?j ''mimeType'' = jstr (at_mimeType c)" "field ?j ''size'' = Some (jnat (at_size c))"
    "field ?j ''chunkIndex'' = Some (jnat (at_chunkIndex c))" "field ?j ''chunkCount'' = Some (jnat (at_chunkCount c))"
    "field ?j ''data'' = Some (JStr (at_data c))" "field ?j ''timestamp'' = jnum (at_timestamp c)"
    "field ?j ''caption'' = jstr (at_caption c)"
    by (cases "at_name c"; cases "at_mimeType c"; cases "at_timestamp c"; cases "at_caption c"; simp)+
  have s: "str_view (jstr x) = x" for x by (cases x) (simp_all add: str_view_def)
  have t: "num_view (jnum x) = x" for x by (cases x) (simp_all add: num_view_def)
  have "finite_num (of_nat (at_chunkIndex c))"
    using assms by (auto simp: chunk_ok_def intro: finite_num_less [OF _ less_imp_le])
  then show "validate ''attachment'' ?j = Inr ()"
    unfolding validate_def f using assms by (simp add: field_tests chunk_ok_def jnat_def)
  show "content_view ''attachment'' ?j = AttachmentContent c"
    unfolding content_view_def f s t by (simp add: field_tests jnat_def)
qed

lemma view_content:
  assumes "content_ok c"
  shows "validate (type_name c) (content_json c) = Inr () \<and> content_view (type_name c) (content_json c) = c"
proof (cases c)
  case (AttachmentContent a)
  then show ?thesis using view_attachment assms by simp
next
  case (TextContent i b t r)
  then show ?thesis using assms by (cases r) (simp_all add: validate_def content_view_def field_tests stamp_ok_def)
next
  case (ReceiptContent k ids t)
  then show ?thesis using assms
    by (cases t; cases k) (simp_all add: validate_def content_view_def field_tests kind_name_def)
next
  case (TypingContent ttl)
  then show ?thesis using assms by (simp add: validate_def content_view_def field_tests stamp_ok_def)
next
  case (DeleteContent tid t)
  then show ?thesis using assms by (cases t) (simp_all add: validate_def content_view_def field_tests)
next
  case (EditContent tid b t)
  then show ?thesis using assms by (cases t) (simp_all add: validate_def content_view_def field_tests)
next
  case (ReactionContent tid e act t)
  then show ?thesis using assms by (cases t; cases act) (simp_all add: validate_def content_view_def field_tests)
next
  case (GroupCreateContent g n ms t)
  then show ?thesis using assms by (cases t) (simp_all add: validate_def content_view_def field_tests)
next
  case (GroupUpdateContent g n adds rems t)
  then show ?thesis using assms
    by (cases n; cases adds; cases rems) (simp_all add: validate_def content_view_def field_tests stamp_ok_def)
next
  case (GroupTextContent g i b t r)
  then show ?thesis using assms by (cases r) (simp_all add: validate_def content_view_def field_tests stamp_ok_def)
next
  case (UnsupportedContent ty)
  then show ?thesis using assms by simp
qed

lemma json_ok_content:
  assumes "content_ok c"
  shows "json_ok (content_json c)"
proof (cases c)
  case (AttachmentContent a)
  then show ?thesis using assms
    by (cases "at_name a"; cases "at_mimeType a"; cases "at_timestamp a"; cases "at_caption a")
       (simp_all add: chunk_ok_def opt_num_ok_def)
next
  case (TextContent i b t r)
  then show ?thesis using assms by (cases r) (simp_all add: stamp_ok_def)
next
  case (ReceiptContent k ids t)
  then show ?thesis using assms by (cases t) (simp_all add: opt_num_ok_def)
next
  case (TypingContent ttl)
  then show ?thesis using assms by (simp add: stamp_ok_def)
next
  case (DeleteContent tid t)
  then show ?thesis using assms by (cases t) (simp_all add: opt_num_ok_def)
next
  case (EditContent tid b t)
  then show ?thesis using assms by (cases t) (simp_all add: opt_num_ok_def)
next
  case (ReactionContent tid e act t)
  then show ?thesis using assms by (cases t) (simp_all add: opt_num_ok_def)
next
  case (GroupCreateContent g n ms t)
  then show ?thesis using assms by (cases t) (simp_all add: opt_num_ok_def)
next
  case (GroupUpdateContent g n adds rems t)
  then show ?thesis using assms by (cases n; cases adds; cases rems) (simp_all add: stamp_ok_def)
next
  case (GroupTextContent g i b t r)
  then show ?thesis using assms by (cases r) (simp_all add: stamp_ok_def)
next
  case (UnsupportedContent ty)
  then show ?thesis by simp
qed

lemma decode_printed: "json_ok f \<Longrightarrow> decodeContent (utf8_encode (json_print f)) = decode_frame f"
  by (simp only: decodeContent_def utf8_decode_encode json.dec_enc option.case)

lemma decode_encodeContent:
  assumes "content_ok c"
  obtains b where "encodeContent c = Inr b" "decodeContent b = Inr c"
proof -
  let ?f = "JObj [(''v'', jnat CONTENT_VERSION), (''c'', content_json c)]"
  have "encodeContent c = Inr (utf8_encode (json_print ?f))" using assms by (cases c) (simp_all add: encodeContent_def)
  moreover have "json_ok ?f" using json_ok_content [OF assms] by simp
  then have "decodeContent (utf8_encode (json_print ?f)) = decode_frame ?f" by (rule decode_printed)
  moreover have "decode_frame ?f = Inr c"
    using view_content [OF assms] content_json_object [of c] type_known [OF assms]
    by (simp add: decode_frame_def type_of_json num_view_def num_value_def jnat_def)
  ultimately show thesis using that by simp
qed

interpretation content: codec encodeContent
  "\<lambda>r. case r of Inl _ \<Rightarrow> None | Inr b \<Rightarrow> (case decodeContent b of Inl _ \<Rightarrow> None | Inr c \<Rightarrow> Some c)" content_ok
proof
  fix c assume "content_ok c"
  then obtain b where "encodeContent c = Inr b" "decodeContent b = Inr c" by (rule decode_encodeContent)
  then show "(case encodeContent c of Inl _ \<Rightarrow> None
      | Inr b \<Rightarrow> (case decodeContent b of Inl _ \<Rightarrow> None | Inr c \<Rightarrow> Some c)) = Some c" by simp
qed

subsection \<open>What a decoded message guarantees\<close>

fun content_safe :: "MessageContent \<Rightarrow> bool" where
  "content_safe (TextContent i b t r) = (i \<noteq> [] \<and> finite_num t)"
| "content_safe (TypingContent ttl) = (0 < ttl \<and> finite_num ttl)"
| "content_safe (ReactionContent tid e act t) = (e \<noteq> [])"
| "content_safe (AttachmentContent c) = (at_id c \<noteq> [] \<and> at_chunkIndex c < at_chunkCount c)"
| "content_safe (GroupCreateContent g n ms t) = (g \<noteq> [])"
| "content_safe (GroupUpdateContent g n adds rems t) = (g \<noteq> [] \<and> finite_num t)"
| "content_safe (GroupTextContent g i b t r) = (g \<noteq> [] \<and> i \<noteq> [] \<and> finite_num t)"
| "content_safe _ = True"

lemma nonempty_string_text: "is_nonempty_string v \<Longrightarrow> text_of v \<noteq> []"
  by (auto simp: field_tests split: option.splits json.splits)

lemma finite_num_value: "is_finite_num v \<Longrightarrow> finite_num (num_value v)"
  by (auto simp: field_tests split: option.splits json.splits)

lemma int_test_nat:
  assumes "int_test (\<lambda>q. 0 < q) n" "int_test (\<lambda>q. 0 \<le> q \<and> q < num_value n) i"
  shows "nat_of i < nat_of n"
proof -
  obtain p q where p: "n = Some (JNum p)" "is_integer p" "0 < p" and q: "i = Some (JNum q)" "0 \<le> q" "q < num_value n"
    using assms by (auto simp: int_test_def split: option.splits json.splits)
  obtain k where k: "p = of_int k" using p(2) unfolding is_integer_def by metis
  have "\<lfloor>q\<rfloor> < \<lfloor>p\<rfloor>" using p q by (simp add: k num_value_def floor_less_iff)
  moreover have "0 \<le> \<lfloor>q\<rfloor>" using q(2) by simp
  ultimately have "nat \<lfloor>q\<rfloor> < nat \<lfloor>p\<rfloor>" by linarith
  then show ?thesis unfolding nat_of_def p(1) q(1) by (simp only: num_value_def option.case json.case)
qed

lemma require_all_Inr: "require_all ty checks = Inr () \<longleftrightarrow> (\<forall>c\<in>set checks. fst c)"
  by (induction ty checks rule: require_all.induct) auto

lemma validated_safe:
  assumes "validate ty c = Inr ()" "ty \<in> set KNOWN_TYPES"
  shows "content_safe (content_view ty c)"
proof -
  note v = validate_def require_all_Inr content_view_def nonempty_string_text finite_num_value
  have attachment: "content_safe (content_view ''attachment'' c)" if a: "ty = ''attachment''"
  proof -
    have "int_test (\<lambda>q. 0 < q) (field c ''chunkCount'')" "is_nonempty_string (field c ''id'')"
      "int_test (\<lambda>q. 0 \<le> q \<and> q < num_value (field c ''chunkCount'')) (field c ''chunkIndex'')"
      using assms(1) a by (simp_all add: validate_def require_all_Inr del: require_all.simps)
    then show ?thesis by (simp add: content_view_def nonempty_string_text int_test_nat)
  qed
  from assms(2) show ?thesis unfolding KNOWN_TYPES_def list.set
    by (elim insertE emptyE) (use assms(1) attachment in \<open>simp_all add: v del: require_all.simps\<close>)
qed

lemma decode_frame_safe: "decode_frame f = Inr c \<Longrightarrow> content_safe c"
  by (auto simp: decode_frame_def rbind_eq_Inr validated_safe
      split: if_splits option.splits json.splits)

subsection \<open>Properties\<close>

text \<open>
  Claim C20. Content survives the wire: every well-formed message of every type is encoded, and its
  bytes decode to the same message, optional fields included.
\<close>

theorem content_roundtrip:
  "content_ok c \<Longrightarrow> \<exists>b. encodeContent c = Inr b \<and> decodeContent b = Inr c"
  using decode_encodeContent by metis

theorem content_roundtrip_witness:
  "\<exists>b. encodeContent (TextContent ''m1'' ''hi'' 5 None) = Inr b \<and>
       decodeContent b = Inr (TextContent ''m1'' ''hi'' 5 None)"
proof (rule content_roundtrip)
  have "num_ok 5" using num_ok_of_int [of 5] by simp
  then show "content_ok (TextContent ''m1'' ''hi'' 5 None)" by (simp add: stamp_ok_def finite_num_def)
qed

text \<open>
  Forward compatibility: a frame of this version whose body names an unknown type, and any
  frame of another version, decode to \<open>unsupported\<close> rather than to an error, whatever the rest of
  them holds.
\<close>

theorem unknown_content_is_unsupported:
  assumes "json_ok (JObj kvs)"
  shows "(field (JObj kvs) ''v'' = Some (JNum 1) \<and> field (JObj kvs) ''c'' = Some (JObj fs) \<and>
            field (JObj fs) ''type'' = Some (JStr ty) \<and> ty \<notin> set KNOWN_TYPES \<longrightarrow>
            decodeContent (utf8_encode (json_print (JObj kvs))) = Inr (UnsupportedContent ty)) \<and>
         (field (JObj kvs) ''v'' = Some (JNum q) \<and> q \<noteq> 1 \<longrightarrow>
            decodeContent (utf8_encode (json_print (JObj kvs))) = Inr (UnsupportedContent (''v'' @ print_number q)))"
  unfolding decode_printed [OF assms]
  by (auto simp: decode_frame_def num_view_def num_value_def CONTENT_VERSION_def simp del: field.simps)

theorem unknown_content_is_unsupported_witness:
  "decodeContent (utf8_encode (json_print
     (JObj [(''v'', JNum 1), (''c'', JObj [(''type'', JStr ''poll''), (''q'', JNull)])])))
   = Inr (UnsupportedContent ''poll'')"
proof -
  have "num_ok 1" using num_ok_of_int [of 1] by simp
  then show ?thesis
    using unknown_content_is_unsupported [of "[(''v'', JNum 1), (''c'', JObj [(''type'', JStr ''poll''), (''q'', JNull)])]"
        "[(''type'', JStr ''poll''), (''q'', JNull)]" "''poll''" 1]
    by (simp add: KNOWN_TYPES_def)
qed

text \<open>
  Nothing malformed gets past the decoder: ids of texts, groups and attachments are not
  empty, timestamps of texts and group updates and the lifetime of a typing signal are finite, and
  a chunk's index lies below its count.
\<close>

theorem decoded_content_is_safe:
  "decodeContent b = Inr c \<Longrightarrow> content_safe c"
  using decode_frame_safe by (auto simp: decodeContent_def split: option.splits)

theorem decoded_content_is_safe_witness:
  "content_safe (TextContent ''m1'' ''hi'' 5 None)"
proof -
  have "num_ok 5" using num_ok_of_int [of 5] by simp
  then obtain b where "decodeContent b = Inr (TextContent ''m1'' ''hi'' 5 None)"
    using decode_encodeContent [of "TextContent ''m1'' ''hi'' 5 None"] by (auto simp: stamp_ok_def finite_num_def)
  then show ?thesis by (rule decoded_content_is_safe)
qed

text \<open>
  \<open>validate\<close> does not look at the timestamp of a deletion or of a group creation: a frame
  that omits it is accepted, and the handlers receive an absent timestamp.
\<close>

theorem missing_timestamps_accepted:
  "decode_frame (JObj [(''v'', JNum 1), (''c'', JObj [(''type'', JStr ''delete''), (''targetId'', JStr tid)])])
     = Inr (DeleteContent tid None) \<and>
   decode_frame (JObj [(''v'', JNum 1), (''c'', JObj [(''type'', JStr ''group-create''), (''groupId'', JStr ''g''),
       (''name'', JStr n), (''members'', JArr [])])])
     = Inr (GroupCreateContent ''g'' n [] None)"
  by (simp add: decode_frame_def CONTENT_VERSION_def KNOWN_TYPES_def validate_def content_view_def field_tests)

end
