(* ===== verification/Attachment.thy ===== *)
theory Attachment
  imports Content Base64
begin

section \<open>Attachments (the second half of \<open>crypto/content.ts\<close>)\<close>

text \<open>
  Splitting a file into chunks that fit an envelope, and the assembler that puts them together as
  they arrive. The assembler is mutated in place: \<open>add_chunk\<close> is an effect on its two fields, and
  what it throws leaves the fields as the statements before the throw left them.
\<close>

record AttachmentInput =
  ai_id :: string
  ai_name :: string
  ai_mimeType :: string
  ai_bytes :: bytes
  ai_timestamp :: number
  ai_caption :: "string option"

definition chunk_total :: "bytes \<Rightarrow> nat" where
  "chunk_total bs = max 1 ((length bs + MAX_CHUNK_BYTES - 1) div MAX_CHUNK_BYTES)"

definition chunk_slice :: "bytes \<Rightarrow> nat \<Rightarrow> bytes" where
  "chunk_slice bs i = take MAX_CHUNK_BYTES (drop (i * MAX_CHUNK_BYTES) bs)"

definition chunk_of :: "AttachmentInput \<Rightarrow> nat \<Rightarrow> AttachmentChunkContent" where
  "chunk_of input i =
     (let total = chunk_total (ai_bytes input) in
      \<lparr>at_id = ai_id input, at_name = Some (ai_name input), at_mimeType = Some (ai_mimeType input),
       at_size = length (ai_bytes input), at_chunkIndex = i, at_chunkCount = total,
       at_data = encodeB64 (chunk_slice (ai_bytes input) i), at_timestamp = Some (ai_timestamp input),
       at_caption = (if i = total - 1 then ai_caption input else None)\<rparr>)"

definition chunkAttachment :: "AttachmentInput \<Rightarrow> AttachmentChunkContent list" where
  "chunkAttachment input = map (chunk_of input) [0..<chunk_total (ai_bytes input)]"

record AttachmentAssembler =
  asm_parts :: "(nat \<times> bytes) list"
  asm_meta :: "AttachmentChunkContent option"

record AttachmentFile =
  file_name :: "string option"
  file_mimeType :: "string option"
  file_bytes :: bytes
  file_caption :: "string option"

definition new_assembler :: AttachmentAssembler where
  "new_assembler = \<lparr>asm_parts = [], asm_meta = None\<rparr>"

fun ordered_parts :: "(nat \<times> bytes) list \<Rightarrow> nat list \<Rightarrow> bytes list result" where
  "ordered_parts parts [] = Inr []"
| "ordered_parts parts (i # is) =
     (case map_of parts i of
        None \<Rightarrow> Inl (ContentError (''missing chunk '' @ show_nat i))
      | Some part \<Rightarrow> rbind (ordered_parts parts is) (\<lambda>rest. Inr (part # rest)))"

definition assemble :: "AttachmentChunkContent \<Rightarrow> AttachmentChunkContent \<Rightarrow> (nat \<times> bytes) list \<Rightarrow> AttachmentFile result" where
  "assemble meta chunk parts =
     rbind (ordered_parts parts [0..<at_chunkCount chunk]) (\<lambda>ordered.
     let bytes = concat ordered in
     if length bytes \<noteq> at_size meta
     then Inl (ContentError (''assembled '' @ show_nat (length bytes) @ '' bytes, expected '' @ show_nat (at_size meta)))
     else Inr \<lparr>file_name = at_name meta, file_mimeType = at_mimeType meta, file_bytes = bytes,
               file_caption = at_caption meta\<rparr>)"

definition note_chunk :: "AttachmentChunkContent \<Rightarrow> AttachmentAssembler \<Rightarrow> AttachmentAssembler" where
  "note_chunk chunk asm =
     (let meta = (case asm_meta asm of None \<Rightarrow> chunk | Some m \<Rightarrow> m);
          meta = (if at_caption chunk \<noteq> None then meta\<lparr>at_caption := at_caption chunk\<rparr> else meta)
      in asm\<lparr>asm_meta := Some meta\<rparr>)"

definition add_chunk :: "AttachmentChunkContent \<Rightarrow> (AttachmentAssembler, AttachmentFile option) effect" where
  "add_chunk chunk = (\<lambda>asm.
     if (\<exists>m\<in>set_option (asm_meta asm). at_id m \<noteq> at_id chunk)
     then (asm, Inl (ContentError ''chunk belongs to a different attachment''))
     else if (\<exists>m\<in>set_option (asm_meta asm). at_chunkCount m \<noteq> at_chunkCount chunk)
     then (asm, Inl (ContentError ''chunk count changed mid-transfer''))
     else let asm = note_chunk chunk asm in
       case decodeB64 (at_data chunk) of
         Inl e \<Rightarrow> (asm, Inl e)
       | Inr part \<Rightarrow>
           let asm = asm\<lparr>asm_parts := AList.update (at_chunkIndex chunk) part (asm_parts asm)\<rparr> in
           if length (asm_parts asm) \<noteq> at_chunkCount chunk then (asm, Inr None)
           else (case asm_meta asm of
                   None \<Rightarrow> (asm, Inl TypeError)
                 | Some meta \<Rightarrow> (asm, rbind (assemble meta chunk (asm_parts asm)) (\<lambda>file. Inr (Some file)))))"

definition asm_progress :: "AttachmentAssembler \<Rightarrow> nat \<times> nat" where
  "asm_progress asm = (length (asm_parts asm), case asm_meta asm of None \<Rightarrow> 0 | Some m \<Rightarrow> at_chunkCount m)"

subsection \<open>Slices make the file\<close>

lemma concat_slices: "concat (map (chunk_slice bs) [0..<n]) = take (n * MAX_CHUNK_BYTES) bs"
proof (induction n)
  case (Suc n)
  have "Suc n * MAX_CHUNK_BYTES = n * MAX_CHUNK_BYTES + MAX_CHUNK_BYTES" by simp
  then show ?case using Suc by (simp only: take_add upt_Suc_append zero_le map_append concat_append) (simp add: chunk_slice_def)
qed simp

lemma chunk_total_covers: "length bs \<le> chunk_total bs * MAX_CHUNK_BYTES"
proof -
  have "length bs \<le> (length bs + MAX_CHUNK_BYTES - 1) div MAX_CHUNK_BYTES * MAX_CHUNK_BYTES"
    unfolding MAX_CHUNK_BYTES_def by simp
  also have "\<dots> \<le> chunk_total bs * MAX_CHUNK_BYTES" unfolding chunk_total_def by (intro mult_right_mono) simp_all
  finally show ?thesis .
qed

lemma chunk_total_pos: "0 < chunk_total bs"
  by (simp add: chunk_total_def)

lemma all_slices: "concat (map (chunk_slice bs) [0..<chunk_total bs]) = bs"
  by (simp add: concat_slices chunk_total_covers)

lemma slice_bound: "length (chunk_slice bs i) \<le> MAX_CHUNK_BYTES"
  by (simp add: chunk_slice_def)

subsection \<open>The assembler\<close>

text \<open>The state after the chunks with the indices in \<open>seen\<close> have arrived.\<close>

definition assembling :: "AttachmentInput \<Rightarrow> nat set \<Rightarrow> AttachmentAssembler \<Rightarrow> bool" where
  "assembling input seen asm \<longleftrightarrow>
     (let total = chunk_total (ai_bytes input) in
      seen \<subseteq> {..<total} \<and> distinct_keys (asm_parts asm) \<and>
      map_of (asm_parts asm) = (\<lambda>i. if i \<in> seen then Some (chunk_slice (ai_bytes input) i) else None) \<and>
      (case asm_meta asm of
         None \<Rightarrow> seen = {}
       | Some m \<Rightarrow> seen \<noteq> {} \<and> at_id m = ai_id input \<and> at_chunkCount m = total \<and> at_name m = Some (ai_name input) \<and>
           at_mimeType m = Some (ai_mimeType input) \<and> at_size m = length (ai_bytes input) \<and>
           at_caption m = (if total - 1 \<in> seen then ai_caption input else None)))"

definition whole_file :: "AttachmentInput \<Rightarrow> AttachmentFile" where
  "whole_file input = \<lparr>file_name = Some (ai_name input), file_mimeType = Some (ai_mimeType input),
     file_bytes = ai_bytes input, file_caption = ai_caption input\<rparr>"

lemma assembling_start: "assembling input {} new_assembler"
  by (auto simp: assembling_def new_assembler_def)

lemma length_parts:
  assumes "assembling input seen asm"
  shows "length (asm_parts asm) = card seen"
proof -
  have "dom (map_of (asm_parts asm)) = seen" using assms by (auto simp: assembling_def Let_def split: if_splits)
  then have "fst ` set (asm_parts asm) = seen" by (simp add: dom_map_of_conv_image_fst)
  moreover have "distinct_keys (asm_parts asm)" using assms by (simp add: assembling_def Let_def)
  ultimately show ?thesis by (metis distinct_card length_map set_map)
qed

lemma ordered_parts_all:
  "\<forall>i\<in>set is. map_of parts i = Some (f i) \<Longrightarrow> ordered_parts parts is = Inr (map f is)"
  by (induction "is") simp_all

lemma assembling_add:
  assumes "assembling input seen asm" "i < chunk_total (ai_bytes input)"
  shows "\<exists>asm'. add_chunk (chunk_of input i) asm =
      (asm', Inr (if insert i seen = {..<chunk_total (ai_bytes input)} then Some (whole_file input) else None)) \<and>
    assembling input (insert i seen) asm'"
proof -
  let ?n = "chunk_total (ai_bytes input)" and ?c = "chunk_of input i"
  let ?asm = "(note_chunk ?c asm)\<lparr>asm_parts := AList.update i (chunk_slice (ai_bytes input) i) (asm_parts asm)\<rparr>"
  have c: "at_id ?c = ai_id input" "at_chunkCount ?c = ?n" "at_chunkIndex ?c = i"
    "decodeB64 (at_data ?c) = Inr (chunk_slice (ai_bytes input) i)"
    by (simp_all add: chunk_of_def Let_def)
  have ok: "\<not> (\<exists>m\<in>set_option (asm_meta asm). at_id m \<noteq> at_id ?c)"
    "\<not> (\<exists>m\<in>set_option (asm_meta asm). at_chunkCount m \<noteq> at_chunkCount ?c)"
    using assms(1) c by (auto simp: assembling_def Let_def split: option.splits)
  have parts: "asm_parts (note_chunk ?c asm) = asm_parts asm" by (simp add: note_chunk_def Let_def)
  have inv: "assembling input (insert i seen) ?asm"
    using assms unfolding assembling_def Let_def
    by (cases "asm_meta asm")
       (auto simp: note_chunk_def chunk_of_def Let_def update_conv' distinct_update split: if_splits)
  have step: "add_chunk ?c asm =
      (if length (asm_parts ?asm) \<noteq> ?n then (?asm, Inr None)
       else (case asm_meta ?asm of None \<Rightarrow> (?asm, Inl TypeError)
             | Some meta \<Rightarrow> (?asm, rbind (assemble meta ?c (asm_parts ?asm)) (\<lambda>file. Inr (Some file)))))"
    using ok c parts by (simp add: add_chunk_def Let_def split: option.split)
  show ?thesis
  proof (cases "insert i seen = {..<?n}")
    case False
    have "insert i seen \<subset> {..<?n}" using inv False by (auto simp: assembling_def Let_def)
    then have "card (insert i seen) < ?n" using psubset_card_mono [of "{..<?n}" "insert i seen"] by simp
    then show ?thesis using step length_parts [OF inv] inv False by (intro exI [of _ ?asm]) simp
  next
    case True
    obtain m where m: "asm_meta ?asm = Some m" using inv by (cases "asm_meta ?asm") (auto simp: assembling_def Let_def)
    have "ordered_parts (asm_parts ?asm) [0..<?n] = Inr (map (chunk_slice (ai_bytes input)) [0..<?n])"
      using inv True by (intro ordered_parts_all) (simp add: assembling_def Let_def)
    moreover have last: "?n - 1 \<in> insert i seen" using True chunk_total_pos [of "ai_bytes input"] by simp
    have "at_name m = Some (ai_name input)" "at_mimeType m = Some (ai_mimeType input)"
      "at_size m = length (ai_bytes input)" "at_caption m = ai_caption input"
      using inv m last by (simp_all add: assembling_def Let_def)
    ultimately have "assemble m ?c (asm_parts ?asm) = Inr (whole_file input)"
      using c all_slices [of "ai_bytes input"] by (simp add: assemble_def whole_file_def)
    then show ?thesis using step length_parts [OF inv] inv True m by (intro exI [of _ ?asm]) simp
  qed
qed

text \<open>Adding a list of chunks one after the other.\<close>

fun add_chunks :: "AttachmentChunkContent list \<Rightarrow> AttachmentAssembler \<Rightarrow> AttachmentAssembler \<times> AttachmentFile option result list" where
  "add_chunks [] asm = (asm, [])"
| "add_chunks (c # cs) asm =
     (let (asm1, r) = add_chunk c asm; (asm2, rs) = add_chunks cs asm1 in (asm2, r # rs))"

lemma assembling_all:
  assumes "assembling input seen asm" "set is \<subseteq> {..<chunk_total (ai_bytes input)}"
  shows "snd (add_chunks (map (chunk_of input) is) asm) =
    map (\<lambda>k. Inr (if seen \<union> set (take (Suc k) is) = {..<chunk_total (ai_bytes input)}
                   then Some (whole_file input) else None)) [0..<length is]"
  using assms
proof (induction "is" arbitrary: seen asm)
  case (Cons i "is")
  let ?n = "chunk_total (ai_bytes input)"
  obtain asm' where a: "add_chunk (chunk_of input i) asm =
      (asm', Inr (if insert i seen = {..<?n} then Some (whole_file input) else None))"
    "assembling input (insert i seen) asm'"
    using assembling_add [OF Cons.prems(1), of i] Cons.prems(2) by auto
  have "snd (add_chunks (map (chunk_of input) is) asm') =
      map (\<lambda>k. Inr (if insert i seen \<union> set (take (Suc k) is) = {..<?n} then Some (whole_file input) else None))
        [0..<length is]"
    by (rule Cons.IH [OF a(2)]) (use Cons.prems(2) in simp)
  then show ?case
    using a(1) by (simp add: case_prod_unfold map_upt_Suc del: upt_Suc)
qed simp

lemma chunk_of_ok:
  assumes "ai_id input \<noteq> []" "num_ok (ai_timestamp input)" "length (ai_bytes input) < 2 ^ 53"
    "i < chunk_total (ai_bytes input)"
  shows "chunk_ok (chunk_of input i)"
proof -
  have n: "chunk_total (ai_bytes input) \<le> Suc (length (ai_bytes input))"
    unfolding chunk_total_def MAX_CHUNK_BYTES_def by simp
  have big: "finite_num (of_nat (2 ^ 54))" by (simp add: finite_num_def)
  have "finite_num (of_nat (chunk_total (ai_bytes input)))" "finite_num (of_nat (length (ai_bytes input)))"
    using assms(3) n by (auto intro!: finite_num_less [OF big])
  then show ?thesis using assms by (simp add: chunk_ok_def chunk_of_def Let_def opt_num_ok_def)
qed

definition demo_input :: AttachmentInput where
  "demo_input = \<lparr>ai_id = ''f'', ai_name = ''a.txt'', ai_mimeType = ''text/plain'', ai_bytes = replicate 40000 7,
     ai_timestamp = 5, ai_caption = Some ''hi''\<rparr>"

subsection \<open>Properties\<close>

text \<open>
  Claim C21. Reassembly: hand the assembler the chunks of a file in any order, with any repetitions.
  No call throws; a call returns the file exactly when, with it, every chunk has arrived at least
  once, and then name, type, bytes and caption are those of the file that was split.
\<close>

theorem attachment_any_order:
  assumes "set order \<subseteq> {..<length (chunkAttachment input)}"
  shows "snd (add_chunks (map (\<lambda>i. chunkAttachment input ! i) order) new_assembler) =
    map (\<lambda>k. Inr (if set (take (Suc k) order) = {..<length (chunkAttachment input)}
                   then Some (whole_file input) else None)) [0..<length order]"
proof -
  have n: "length (chunkAttachment input) = chunk_total (ai_bytes input)" by (simp add: chunkAttachment_def)
  have "map (\<lambda>i. chunkAttachment input ! i) order = map (chunk_of input) order"
    using assms n by (auto simp: chunkAttachment_def)
  then show ?thesis
    using assembling_all [OF assembling_start, of order input] assms unfolding n by (simp only: Un_empty_left)
qed

theorem attachment_any_order_witness:
  "snd (add_chunks (map (\<lambda>i. chunkAttachment demo_input ! i) [1, 1, 0]) new_assembler)
   = [Inr None, Inr None, Inr (Some (whole_file demo_input))]"
proof -
  have n: "length (chunkAttachment demo_input) = 2"
    by (simp add: chunkAttachment_def chunk_total_def demo_input_def MAX_CHUNK_BYTES_def)
  have "{..<2 :: nat} = {0, 1}" by auto
  then show ?thesis
    using attachment_any_order [of "[1, 1, 0]" demo_input] unfolding n by (simp add: upt_rec insert_commute)
qed

text \<open>
  Every chunk of a file fits the envelope and passes the receiver's validation: at most
  32 KiB of data (at most 43692 characters of base64), an index below the count, and all of it
  accepted by \<open>encodeContent\<close> and returned unchanged by \<open>decodeContent\<close>.
\<close>

theorem attachment_chunks_travel:
  assumes "ai_id input \<noteq> []" "num_ok (ai_timestamp input)" "length (ai_bytes input) < 2 ^ 53"
    "c \<in> set (chunkAttachment input)"
  shows "length (at_data c) \<le> 43692 \<and>
     (\<exists>b. encodeContent (AttachmentContent c) = Inr b \<and> decodeContent b = Inr (AttachmentContent c))"
proof -
  obtain i where i: "c = chunk_of input i" "i < chunk_total (ai_bytes input)"
    using assms(4) by (auto simp: chunkAttachment_def)
  have "content_ok (AttachmentContent c)" using chunk_of_ok [OF assms(1-3) i(2)] i(1) by simp
  moreover have "length (at_data c) \<le> 43692"
    using length_encodeB64 [of "chunk_slice (ai_bytes input) i"] slice_bound [of "ai_bytes input" i] i(1)
    unfolding MAX_CHUNK_BYTES_def by (simp add: chunk_of_def Let_def)
  ultimately show ?thesis by (metis decode_encodeContent)
qed

theorem attachment_chunks_travel_witness:
  "\<exists>b. encodeContent (AttachmentContent (chunk_of demo_input 1)) = Inr b \<and>
       decodeContent b = Inr (AttachmentContent (chunk_of demo_input 1))"
proof -
  have "num_ok (ai_timestamp demo_input)" using num_ok_of_int [of 5] by (simp add: demo_input_def)
  moreover have "chunk_of demo_input 1 \<in> set (chunkAttachment demo_input)"
    by (simp add: chunkAttachment_def chunk_total_def demo_input_def MAX_CHUNK_BYTES_def)
  ultimately show ?thesis
    using attachment_chunks_travel [of demo_input "chunk_of demo_input 1"] by (simp add: demo_input_def)
qed

end
