(* ===== verification/Safety.thy ===== *)
theory Safety
  imports Json Sodium
begin

section \<open>Safety numbers (\<open>crypto/safety.ts\<close>)\<close>

text \<open>
  The iterated hash of an identity key, its rendering as thirty decimal digits, and the number two
  people compare. The rendering uses JavaScript's 32-bit operators: a shift count is taken modulo
  32, the operands are 32-bit words, and \<open>>>> 0\<close> reads the result as unsigned.
\<close>

unbundle bit_operations_syntax

definition SAFETY_DOMAIN :: string where "SAFETY_DOMAIN = ''shatters-safety-v1''"
definition ITERATIONS :: nat where "ITERATIONS = 5200"
definition DIGITS_PER_KEY :: nat where "DIGITS_PER_KEY = 30"

definition js_shl :: "byte \<Rightarrow> nat \<Rightarrow> 32 word" where
  "js_shl b n = push_bit (n mod 32) (ucast b)"

definition digest_chain :: "sodium \<Rightarrow> bytes \<Rightarrow> bytes" where
  "digest_chain S identityKey =
     ((\<lambda>digest. hash_sha256 S (digest @ identityKey)) ^^ (ITERATIONS - 1))
       (hash_sha256 S (utf8_encode SAFETY_DOMAIN @ identityKey))"

definition group_word :: "bytes \<Rightarrow> nat \<Rightarrow> 32 word" where
  "group_word digest i =
     js_shl (digest ! (i mod length digest)) 32 OR js_shl (digest ! ((i + 1) mod length digest)) 24
     OR js_shl (digest ! ((i + 2) mod length digest)) 16 OR js_shl (digest ! ((i + 3) mod length digest)) 8
     OR ucast (digest ! ((i + 4) mod length digest))"

definition digit_group :: "bytes \<Rightarrow> nat \<Rightarrow> string" where
  "digit_group digest i = pad_left 5 (show_nat (unat (group_word digest i) mod 100000))"

lemma length_digit_group [simp]: "length (digit_group digest i) = 5"
  unfolding digit_group_def by (rule pad_left_digits(1)) simp_all

function digits_loop :: "bytes \<Rightarrow> nat \<Rightarrow> string \<Rightarrow> string" where
  "digits_loop digest i out =
     (if length out < DIGITS_PER_KEY then digits_loop digest (i + 5) (out @ digit_group digest i) else out)"
  by pat_completeness auto
termination
  by (relation "measure (\<lambda>(digest, i, out). DIGITS_PER_KEY - length out)") (auto simp: DIGITS_PER_KEY_def)

declare digits_loop.simps [simp del]

definition fingerprint :: "sodium \<Rightarrow> bytes \<Rightarrow> string" where
  "fingerprint S identityKey = take DIGITS_PER_KEY (digits_loop (digest_chain S identityKey) 0 [])"

definition safetyNumber :: "sodium \<Rightarrow> bytes \<Rightarrow> bytes \<Rightarrow> string" where
  "safetyNumber S ownIdentityKey peerIdentityKey =
     (let a = fingerprint S ownIdentityKey; b = fingerprint S peerIdentityKey in if a < b then a @ b else b @ a)"

fun groups_of_five :: "string \<Rightarrow> string list" where
  "groups_of_five [] = []"
| "groups_of_five (c # cs) = take 5 (c # cs) # groups_of_five (drop 5 (c # cs))"

fun join :: "string \<Rightarrow> string list \<Rightarrow> string" where
  "join sep [] = []"
| "join sep [x] = x"
| "join sep (x # y # ys) = x @ sep @ join sep (y # ys)"

definition formatSafetyNumber :: "string \<Rightarrow> string" where
  "formatSafetyNumber digits = join '' '' (groups_of_five digits)"

subsection \<open>Shape\<close>

lemma digits_loop_six:
  "digits_loop d 0 [] = digit_group d 0 @ digit_group d 5 @ digit_group d 10 @ digit_group d 15
     @ digit_group d 20 @ digit_group d 25"
  by (simp add: digits_loop.simps [of d] DIGITS_PER_KEY_def)

lemma length_fingerprint [simp]: "length (fingerprint S k) = 30"
  by (simp add: fingerprint_def digits_loop_six DIGITS_PER_KEY_def)

lemma fingerprint_digits: "\<forall>c\<in>set (fingerprint S k). is_digit c"
proof -
  have "\<forall>c\<in>set (digit_group d i). is_digit c" for d i
    unfolding digit_group_def by (rule pad_left_digits(3)) simp_all
  then show ?thesis
    unfolding fingerprint_def digits_loop_six by (auto dest!: in_set_takeD)
qed

lemma safetyNumber_pair:
  "safetyNumber S a b = safetyNumber S c d \<longleftrightarrow>
   {fingerprint S a, fingerprint S b} = {fingerprint S c, fingerprint S d}"
proof -
  let ?f = "fingerprint S"
  have eq: "x @ y = u @ v \<longleftrightarrow> x = u \<and> y = v" if "length x = length u" for x y u v :: string
    using that by simp
  show ?thesis
    unfolding safetyNumber_def Let_def by (auto simp: doubleton_eq_iff)
qed

lemma concat_groups [simp]: "concat (groups_of_five d) = d"
  by (induction d rule: groups_of_five.induct) (simp_all del: take_Suc_Cons drop_Suc_Cons)

lemma length_groups: "length (groups_of_five d) = (length d + 4) div 5"
  by (induction d rule: groups_of_five.induct) simp_all

lemma length_join: "length (join '' '' xs) = length (concat xs) + (length xs - 1)"
  by (induction "'' ''" xs rule: join.induct) simp_all

lemma filter_join:
  "CHR '' '' \<notin> set (concat xs) \<Longrightarrow> filter (\<lambda>c. c \<noteq> CHR '' '') (join '' '' xs) = concat xs"
proof (induction "'' ''" xs rule: join.induct)
  case (2 x)
  then show ?case by (auto simp: filter_id_conv)
next
  case (3 x y ys)
  then show ?case by (auto simp: filter_id_conv)
qed simp

text \<open>Shifting by 32 is shifting by nothing.\<close>

lemma js_shl_32: "js_shl b 32 = ucast b"
  by (simp add: js_shl_def)

lemma group_word_folds:
  "group_word digest i =
     js_shl (digest ! ((i + 1) mod length digest)) 24 OR js_shl (digest ! ((i + 2) mod length digest)) 16
     OR js_shl (digest ! ((i + 3) mod length digest)) 8
     OR ucast (digest ! (i mod length digest) OR digest ! ((i + 4) mod length digest))"
  by (simp add: group_word_def js_shl_32 unsigned_or_eq ac_simps)

subsection \<open>Properties\<close>

text \<open>
  Claim C32. Both devices show the same number: it is symmetric in the two keys, it has exactly
  sixty decimal digits, and it is equal for two pairs of keys exactly when the two unordered pairs
  of fingerprints are equal.
\<close>

theorem safety_number_comparable:
  "safetyNumber S a b = safetyNumber S b a \<and> length (safetyNumber S a b) = 60 \<and>
   list_all is_digit (safetyNumber S a b) \<and>
   (safetyNumber S a b = safetyNumber S c d \<longleftrightarrow>
      {fingerprint S a, fingerprint S b} = {fingerprint S c, fingerprint S d})"
proof -
  have "safetyNumber S a b = safetyNumber S b a" by (simp add: safetyNumber_pair insert_commute)
  moreover have "list_all is_digit (safetyNumber S a b)"
    using fingerprint_digits by (auto simp: safetyNumber_def Let_def list_all_iff)
  moreover have "length (safetyNumber S a b) = 60" by (simp add: safetyNumber_def Let_def)
  ultimately show ?thesis using safetyNumber_pair by blast
qed

text \<open>
  The first byte of each group of five is lost as a byte of its own: because \<open>x << 32\<close> is
  \<open>x\<close> in JavaScript, it is merged into the last byte with a bitwise or, and the group's digits
  depend on four bytes only. Exchanging the two bytes, or clearing the first and setting its bits in the
  last, leaves the digits unchanged.
\<close>

theorem safety_group_drops_high_byte:
  "digit_group [b0, b1, b2, b3, b4] 0 = digit_group [b4, b1, b2, b3, b0] 0 \<and>
   digit_group [b0, b1, b2, b3, b4] 0 = digit_group [0, b1, b2, b3, b0 OR b4] 0"
  by (simp add: digit_group_def group_word_folds or.commute)

text \<open>
  Formatting only inserts spaces: removing them gives the digits back, and a safety number
  is shown as twelve groups of five.
\<close>

theorem formatSafetyNumber_groups:
  "filter (\<lambda>c. c \<noteq> CHR '' '') (formatSafetyNumber (safetyNumber S a b)) = safetyNumber S a b \<and>
   length (formatSafetyNumber (safetyNumber S a b)) = 71"
proof -
  have "\<forall>c\<in>set (safetyNumber S a b). is_digit c"
    using fingerprint_digits by (auto simp: safetyNumber_def Let_def)
  then have "CHR '' '' \<notin> set (safetyNumber S a b)" by (auto simp: is_digit_def)
  moreover have "length (safetyNumber S a b) = 60" by (simp add: safetyNumber_def Let_def)
  ultimately show ?thesis
    by (simp add: formatSafetyNumber_def filter_join length_join length_groups concat_groups flip: length_concat)
qed

end
