(* ===== verification/Chat_Types.thy ===== *)
theory Chat_Types
  imports Content Group Serialize
begin

section \<open>Stored chat data (\<open>store/types.ts\<close>) and its records\<close>

text \<open>
  Conversations, messages, the device identity and group states, and the JSON objects the vault
  keeps of them. The code reads a record back with an unchecked cast; here a reader returns
  \<open>None\<close> when a required field is missing or of another type, which no record written by the code
  is (the round-trip lemmas below). A timestamp is optional: \<open>content.ts\<close> lets some types through
  without one. Objects used as dictionaries are association lists of their own properties; the
  order in which JavaScript lists integer-like keys is not observed anywhere.
\<close>

datatype MessageStatus = Pending | Sent | StDelivered | StRead | Failed

datatype MessageDirection = Outgoing | Incoming

record StoredAttachment =
  sa_name :: "string option"
  sa_mimeType :: "string option"
  sa_size :: nat
  sa_blobRef :: string

record StoredMessage =
  m_id :: string
  m_conversationId :: string
  m_direction :: MessageDirection
  m_body :: string
  m_timestamp :: "number option"
  m_status :: MessageStatus
  m_envelopeId :: "string option"
  m_attachment :: "StoredAttachment option"
  m_deletedAt :: "number option"
  m_senderId :: "string option"
  m_reactions :: "(string \<times> string list) list option"

record Conversation =
  c_id :: string
  c_displayName :: "string option"
  c_lastActivity :: "number option"
  c_unreadCount :: nat
  c_typingUntil :: "number option"
  c_isGroup :: "bool option"
  c_peerIdentityKey :: "string option"
  c_verifiedIdentityKey :: "string option"
  c_identityChangedFrom :: "string option"

record StoredPair =
  sp_publicKey :: string
  sp_privateKey :: string

record StoredIdentity =
  si_accountId :: string
  si_signingPublicKey :: string
  si_signingPrivateKey :: string
  si_dhPublicKey :: string
  si_dhPrivateKey :: string
  si_signedPrekeyId :: nat
  si_signedPrekeyPublic :: string
  si_signedPrekeyPrivate :: string
  si_signedPrekeySignature :: string
  si_oneTimePrekeys :: "(nat \<times> StoredPair) list"

subsection \<open>Writing\<close>

fun status_name :: "MessageStatus \<Rightarrow> string" where
  "status_name Pending = ''pending''"
| "status_name Sent = ''sent''"
| "status_name StDelivered = ''delivered''"
| "status_name StRead = ''read''"
| "status_name Failed = ''failed''"

fun direction_name :: "MessageDirection \<Rightarrow> string" where
  "direction_name Outgoing = ''outgoing''"
| "direction_name Incoming = ''incoming''"

definition attachment_json :: "StoredAttachment \<Rightarrow> json" where
  "attachment_json a =
     jobj [(''name'', jstr (sa_name a)), (''mimeType'', jstr (sa_mimeType a)), (''size'', Some (jnat (sa_size a))),
           (''blobRef'', Some (JStr (sa_blobRef a)))]"

definition reactions_json :: "(string \<times> string list) list \<Rightarrow> json" where
  "reactions_json rs = JObj (map (\<lambda>(emoji, who). (emoji, jstrs who)) rs)"

definition message_json :: "StoredMessage \<Rightarrow> json" where
  "message_json m =
     jobj [(''id'', Some (JStr (m_id m))), (''conversationId'', Some (JStr (m_conversationId m))),
           (''direction'', Some (JStr (direction_name (m_direction m)))), (''body'', Some (JStr (m_body m))),
           (''timestamp'', jnum (m_timestamp m)), (''status'', Some (JStr (status_name (m_status m)))),
           (''envelopeId'', jstr (m_envelopeId m)), (''attachment'', map_option attachment_json (m_attachment m)),
           (''deletedAt'', jnum (m_deletedAt m)), (''senderId'', jstr (m_senderId m)),
           (''reactions'', map_option reactions_json (m_reactions m))]"

definition conversation_json :: "Conversation \<Rightarrow> json" where
  "conversation_json c =
     jobj [(''id'', Some (JStr (c_id c))), (''displayName'', jstr (c_displayName c)),
           (''lastActivity'', jnum (c_lastActivity c)), (''unreadCount'', Some (jnat (c_unreadCount c))),
           (''typingUntil'', jnum (c_typingUntil c)), (''isGroup'', map_option JBool (c_isGroup c)),
           (''peerIdentityKey'', jstr (c_peerIdentityKey c)), (''verifiedIdentityKey'', jstr (c_verifiedIdentityKey c)),
           (''identityChangedFrom'', jstr (c_identityChangedFrom c))]"

definition pair_json :: "StoredPair \<Rightarrow> json" where
  "pair_json p = jobj [(''publicKey'', Some (JStr (sp_publicKey p))), (''privateKey'', Some (JStr (sp_privateKey p)))]"

definition identity_json :: "StoredIdentity \<Rightarrow> json" where
  "identity_json s =
     jobj [(''accountId'', Some (JStr (si_accountId s))), (''signingPublicKey'', Some (JStr (si_signingPublicKey s))),
           (''signingPrivateKey'', Some (JStr (si_signingPrivateKey s))), (''dhPublicKey'', Some (JStr (si_dhPublicKey s))),
           (''dhPrivateKey'', Some (JStr (si_dhPrivateKey s))), (''signedPrekeyId'', Some (jnat (si_signedPrekeyId s))),
           (''signedPrekeyPublic'', Some (JStr (si_signedPrekeyPublic s))),
           (''signedPrekeyPrivate'', Some (JStr (si_signedPrekeyPrivate s))),
           (''signedPrekeySignature'', Some (JStr (si_signedPrekeySignature s))),
           (''oneTimePrekeys'', Some (JObj (map (\<lambda>(i, p). (show_nat i, pair_json p)) (si_oneTimePrekeys s))))]"

definition member_json :: "MemberRecord \<Rightarrow> json" where
  "member_json r =
     jobj [(''addedAt'', Some (JNum (addedAt r))), (''removedAt'', Some (JNum (removedAt r))),
           (''addedBy'', jstr (addedBy r)), (''removedBy'', jstr (removedBy r))]"

definition group_json :: "GroupState \<Rightarrow> json" where
  "group_json g =
     jobj [(''id'', Some (JStr (g_id g))), (''name'', Some (JStr (g_name g))),
           (''nameUpdatedAt'', Some (JNum (nameUpdatedAt g))), (''nameUpdatedBy'', jstr (nameUpdatedBy g)),
           (''createdBy'', Some (JStr (createdBy g))), (''createdAt'', Some (JNum (createdAt g))),
           (''members'', Some (JObj (map (\<lambda>(a, r). (a, member_json r)) (members g))))]"

subsection \<open>Reading\<close>

definition nat_view :: "json option \<Rightarrow> nat option" where
  "nat_view v = (case v of Some x \<Rightarrow> if is_nat_num x then Some (nat_of_num x) else None | None \<Rightarrow> None)"

definition bool_view :: "json option \<Rightarrow> bool option" where
  "bool_view v = (case v of Some (JBool b) \<Rightarrow> Some b | _ \<Rightarrow> None)"

definition read_status :: "string \<Rightarrow> MessageStatus option" where
  "read_status s = find (\<lambda>st. status_name st = s) [Pending, Sent, StDelivered, StRead, Failed]"

definition read_direction :: "string \<Rightarrow> MessageDirection option" where
  "read_direction s = find (\<lambda>d. direction_name d = s) [Outgoing, Incoming]"

definition read_attachment :: "json \<Rightarrow> StoredAttachment option" where
  "read_attachment j =
     Option.bind (nat_view (field j ''size'')) (\<lambda>size.
     Option.bind (str_view (field j ''blobRef'')) (\<lambda>ref.
     Some \<lparr>sa_name = str_view (field j ''name''), sa_mimeType = str_view (field j ''mimeType''), sa_size = size,
          sa_blobRef = ref\<rparr>))"

fun read_reactions :: "json \<Rightarrow> (string \<times> string list) list option" where
  "read_reactions (JObj kvs) = Some (map (\<lambda>(emoji, v). (emoji, list_of (Some v))) kvs)"
| "read_reactions _ = None"

definition read_stored_message :: "json \<Rightarrow> StoredMessage option" where
  "read_stored_message j =
     Option.bind (str_view (field j ''id'')) (\<lambda>i.
     Option.bind (str_view (field j ''conversationId'')) (\<lambda>c.
     Option.bind (Option.bind (str_view (field j ''direction'')) read_direction) (\<lambda>dir.
     Option.bind (str_view (field j ''body'')) (\<lambda>body.
     Option.bind (Option.bind (str_view (field j ''status'')) read_status) (\<lambda>st.
     Some \<lparr>m_id = i, m_conversationId = c, m_direction = dir, m_body = body,
          m_timestamp = num_view (field j ''timestamp''), m_status = st, m_envelopeId = str_view (field j ''envelopeId''),
          m_attachment = Option.bind (field j ''attachment'') read_attachment,
          m_deletedAt = num_view (field j ''deletedAt''), m_senderId = str_view (field j ''senderId''),
          m_reactions = Option.bind (field j ''reactions'') read_reactions\<rparr>)))))"

definition read_conversation :: "json \<Rightarrow> Conversation option" where
  "read_conversation j =
     Option.bind (str_view (field j ''id'')) (\<lambda>i.
     Option.bind (nat_view (field j ''unreadCount'')) (\<lambda>unread.
     Some \<lparr>c_id = i, c_displayName = str_view (field j ''displayName''),
          c_lastActivity = num_view (field j ''lastActivity''), c_unreadCount = unread,
          c_typingUntil = num_view (field j ''typingUntil''), c_isGroup = bool_view (field j ''isGroup''),
          c_peerIdentityKey = str_view (field j ''peerIdentityKey''),
          c_verifiedIdentityKey = str_view (field j ''verifiedIdentityKey''),
          c_identityChangedFrom = str_view (field j ''identityChangedFrom'')\<rparr>))"

definition read_pair :: "json \<Rightarrow> StoredPair option" where
  "read_pair j =
     Option.bind (str_view (field j ''publicKey'')) (\<lambda>pub.
     Option.bind (str_view (field j ''privateKey'')) (\<lambda>priv. Some \<lparr>sp_publicKey = pub, sp_privateKey = priv\<rparr>))"

fun read_table :: "(string \<Rightarrow> 'k) \<Rightarrow> (json \<Rightarrow> 'v option) \<Rightarrow> json \<Rightarrow> ('k \<times> 'v) list option" where
  "read_table rk rv (JObj kvs) =
     map_option (zip (map (rk \<circ> fst) kvs)) (read_all rv (map snd kvs))"
| "read_table rk rv _ = None"

definition read_identity :: "json \<Rightarrow> StoredIdentity option" where
  "read_identity j =
     Option.bind (str_view (field j ''accountId'')) (\<lambda>acc.
     Option.bind (str_view (field j ''signingPublicKey'')) (\<lambda>spub.
     Option.bind (str_view (field j ''signingPrivateKey'')) (\<lambda>spriv.
     Option.bind (str_view (field j ''dhPublicKey'')) (\<lambda>dpub.
     Option.bind (str_view (field j ''dhPrivateKey'')) (\<lambda>dpriv.
     Option.bind (nat_view (field j ''signedPrekeyId'')) (\<lambda>pid.
     Option.bind (str_view (field j ''signedPrekeyPublic'')) (\<lambda>ppub.
     Option.bind (str_view (field j ''signedPrekeyPrivate'')) (\<lambda>ppriv.
     Option.bind (str_view (field j ''signedPrekeySignature'')) (\<lambda>psig.
     Option.bind (Option.bind (field j ''oneTimePrekeys'') (read_table read_digits read_pair)) (\<lambda>otk.
     Some \<lparr>si_accountId = acc, si_signingPublicKey = spub, si_signingPrivateKey = spriv, si_dhPublicKey = dpub,
          si_dhPrivateKey = dpriv, si_signedPrekeyId = pid, si_signedPrekeyPublic = ppub,
          si_signedPrekeyPrivate = ppriv, si_signedPrekeySignature = psig, si_oneTimePrekeys = otk\<rparr>))))))))))"

definition read_member :: "json \<Rightarrow> MemberRecord option" where
  "read_member j =
     Option.bind (num_view (field j ''addedAt'')) (\<lambda>a.
     Option.bind (num_view (field j ''removedAt'')) (\<lambda>r.
     Some \<lparr>addedAt = a, removedAt = r, addedBy = str_view (field j ''addedBy''), removedBy = str_view (field j ''removedBy'')\<rparr>))"

definition read_group :: "json \<Rightarrow> GroupState option" where
  "read_group j =
     Option.bind (str_view (field j ''id'')) (\<lambda>i.
     Option.bind (str_view (field j ''name'')) (\<lambda>n.
     Option.bind (num_view (field j ''nameUpdatedAt'')) (\<lambda>nat.
     Option.bind (str_view (field j ''createdBy'')) (\<lambda>cb.
     Option.bind (num_view (field j ''createdAt'')) (\<lambda>ca.
     Option.bind (Option.bind (field j ''members'') (read_table (\<lambda>k. k) read_member)) (\<lambda>ms.
     Some \<lparr>g_id = i, g_name = n, nameUpdatedAt = nat, nameUpdatedBy = str_view (field j ''nameUpdatedBy''),
          createdBy = cb, createdAt = ca, members = ms\<rparr>))))))"

subsection \<open>What is written is read back\<close>

definition message_ok :: "StoredMessage \<Rightarrow> bool" where
  "message_ok m \<longleftrightarrow> opt_num_ok (m_timestamp m) \<and> opt_num_ok (m_deletedAt m) \<and>
     (case m_reactions m of None \<Rightarrow> True | Some rs \<Rightarrow> distinct_keys rs)"

definition conversation_ok :: "Conversation \<Rightarrow> bool" where
  "conversation_ok c \<longleftrightarrow> opt_num_ok (c_lastActivity c) \<and> opt_num_ok (c_typingUntil c)"

definition stored_identity_ok :: "StoredIdentity \<Rightarrow> bool" where
  "stored_identity_ok s \<longleftrightarrow> distinct_keys (si_oneTimePrekeys s)"

definition member_ok :: "MemberRecord \<Rightarrow> bool" where
  "member_ok r \<longleftrightarrow> num_ok (addedAt r) \<and> num_ok (removedAt r)"

definition group_ok :: "GroupState \<Rightarrow> bool" where
  "group_ok g \<longleftrightarrow> num_ok (nameUpdatedAt g) \<and> num_ok (createdAt g) \<and> distinct_keys (members g) \<and>
     (\<forall>r\<in>set (members g). member_ok (snd r))"

lemma view_simps [simp]:
  "str_view (Some (JStr s)) = Some s" "str_view (jstr x) = x" "num_view (jnum t) = t" "num_view (Some (JNum q)) = Some q"
  "nat_view (Some (jnat n)) = Some n" "bool_view (map_option JBool b) = b"
  by (cases x; cases t; cases b; simp add: str_view_def num_view_def nat_view_def bool_view_def)+

lemma json_ok_views [simp]:
  "case x of None \<Rightarrow> True | Some y \<Rightarrow> (json_ok \<circ> JStr) y"
  "case b of None \<Rightarrow> True | Some y \<Rightarrow> (json_ok \<circ> JBool) y"
  "(case t of None \<Rightarrow> True | Some y \<Rightarrow> (json_ok \<circ> JNum) y) = opt_num_ok t"
  by (cases x; cases b; cases t; simp add: opt_num_ok_def)+

lemma read_status_name [simp]: "read_status (status_name st) = Some st"
  by (cases st) (simp_all add: read_status_def)

lemma read_direction_name [simp]: "read_direction (direction_name d) = Some d"
  by (cases d) (simp_all add: read_direction_def)

lemma read_attachment_json [simp]: "read_attachment (attachment_json a) = Some a"
  by (simp add: read_attachment_def attachment_json_def field_jobj)

lemma json_ok_attachment [simp]: "json_ok (attachment_json a)"
  unfolding attachment_json_def by (rule json_ok_jobj) simp_all

lemma list_of_jstrs [simp]: "list_of (Some (jstrs xs)) = xs"
  by (simp add: list_of_def strs_view_def)

lemma read_reactions_json [simp]: "read_reactions (reactions_json rs) = Some rs"
  by (simp add: reactions_json_def comp_def case_prod_unfold)

lemma json_ok_reactions: "distinct_keys rs \<Longrightarrow> json_ok (reactions_json rs)"
  by (simp add: reactions_json_def comp_def case_prod_unfold)

lemma bind_map_option: "Option.bind (map_option f x) g = Option.bind x (g \<circ> f)"
  by (cases x) simp_all

lemma read_message_json [simp]: "read_stored_message (message_json m) = Some m"
proof -
  have "Option.bind x (read_attachment \<circ> attachment_json) = x" "Option.bind y (read_reactions \<circ> reactions_json) = y" for x y
    by (cases x; cases y; simp)+
  then show ?thesis by (simp add: read_stored_message_def message_json_def field_jobj bind_map_option)
qed

lemma json_ok_message: "message_ok m \<Longrightarrow> json_ok (message_json m)"
  unfolding message_json_def
  by (rule json_ok_jobj) (auto simp: message_ok_def json_ok_reactions split: option.split)

lemma read_conversation_json [simp]: "read_conversation (conversation_json c) = Some c"
  by (simp add: read_conversation_def conversation_json_def field_jobj)

lemma json_ok_conversation: "conversation_ok c \<Longrightarrow> json_ok (conversation_json c)"
  unfolding conversation_json_def by (rule json_ok_jobj) (simp_all add: conversation_ok_def)

lemma read_pair_json [simp]: "read_pair (pair_json p) = Some p"
  by (simp add: read_pair_def pair_json_def field_jobj)

lemma json_ok_pair [simp]: "json_ok (pair_json p)"
  unfolding pair_json_def by (rule json_ok_jobj) simp_all

lemma read_table_json:
  assumes "\<And>k. rk (wk k) = k" "\<And>k v. (k, v) \<in> set kvs \<Longrightarrow> rv (wv v) = Some v"
  shows "read_table rk rv (JObj (map (\<lambda>(k, v). (wk k, wv v)) kvs)) = Some kvs"
proof -
  have "read_all rv (map wv (map snd kvs)) = Some (map snd kvs)" by (rule read_all_map) (use assms(2) in auto)
  then show ?thesis by (simp add: assms(1) comp_def case_prod_unfold zip_map_fst_snd)
qed

lemma read_prekeys_json: "read_table read_digits read_pair (JObj (map (\<lambda>(i, p). (show_nat i, pair_json p)) xs)) = Some xs"
  by (rule read_table_json) simp_all

lemma json_ok_table:
  assumes "inj wk" "distinct_keys kvs" "\<And>k v. (k, v) \<in> set kvs \<Longrightarrow> json_ok (wv v)"
  shows "json_ok (JObj (map (\<lambda>(k, v). (wk k, wv v)) kvs))"
proof -
  have "map fst (map (\<lambda>(k, v). (wk k, wv v)) kvs) = map wk (map fst kvs)" by (simp add: comp_def case_prod_unfold)
  then show ?thesis using assms by (auto simp: distinct_map inj_on_def inj_def)
qed

lemma inj_show_nat: "inj show_nat"
  using decimal.enc_inject by (simp add: inj_def)

lemma read_identity_json [simp]: "read_identity (identity_json s) = Some s"
  by (simp add: read_identity_def identity_json_def field_jobj read_prekeys_json del: read_table.simps)

lemma json_ok_identity: "stored_identity_ok s \<Longrightarrow> json_ok (identity_json s)"
  unfolding identity_json_def
  by (rule json_ok_jobj) (simp_all add: stored_identity_ok_def json_ok_table [OF inj_show_nat] del: json_ok.simps(3))

lemma read_member_json [simp]: "read_member (member_json r) = Some r"
  by (simp add: read_member_def member_json_def field_jobj)

lemma read_members_json: "read_table (\<lambda>k. k) read_member (JObj (map (\<lambda>(a, r). (a, member_json r)) xs)) = Some xs"
  by (rule read_table_json) simp_all

lemma json_ok_member: "member_ok r \<Longrightarrow> json_ok (member_json r)"
  unfolding member_json_def by (rule json_ok_jobj) (simp_all add: member_ok_def)

lemma read_group_json [simp]: "read_group (group_json g) = Some g"
  by (simp add: read_group_def group_json_def field_jobj read_members_json del: read_table.simps)

lemma json_ok_group:
  assumes "group_ok g"
  shows "json_ok (group_json g)"
proof -
  have "json_ok (JObj (map (\<lambda>(k, v). ((\<lambda>x. x) k, member_json v)) (members g)))"
    using assms by (intro json_ok_table) (auto simp: group_ok_def json_ok_member)
  then show ?thesis unfolding group_json_def
    using assms by (intro json_ok_jobj) (simp_all add: group_ok_def del: json_ok.simps(3))
qed

interpretation message_record: codec message_json read_stored_message "\<lambda>_. True"
  by unfold_locales simp

interpretation conversation_record: codec conversation_json read_conversation "\<lambda>_. True"
  by unfold_locales simp

interpretation identity_record: codec identity_json read_identity "\<lambda>_. True"
  by unfold_locales simp

interpretation group_record: codec group_json read_group "\<lambda>_. True"
  by unfold_locales simp

end
