(* ===== verification/Adapter.thy ===== *)
theory Adapter
  imports Prelude
begin

section \<open>Storage adapters (\<open>storage/adapter.ts\<close>)\<close>

text \<open>
  The key-value interface of the vault and its two implementations. \<open>StorageAdapter\<close> is the
  interface as a record of effects on the implementation's own state. \<open>MemoryAdapter\<close> is a map.
  \<open>IndexedDbAdapter\<close> keeps a lazily opened handle on a database; every request to the database,
  the one that opens it included, may be rejected, which the model takes from a list of outcomes
  (\<open>True\<close> for a rejection, success once the list is used up). The locale \<open>storage_adapter\<close> is what
  the vault relies on, \<open>reliable_adapter\<close> adds that nothing is rejected.
\<close>

record 'a StorageAdapter =
  ad_get :: "string \<Rightarrow> ('a, bytes option) effect"
  ad_set :: "string \<Rightarrow> bytes \<Rightarrow> ('a, unit) effect"
  ad_delete :: "string \<Rightarrow> ('a, unit) effect"
  ad_keys :: "string \<Rightarrow> ('a, string list) effect"
  ad_clear :: "('a, unit) effect"

type_synonym entries = "(string \<times> bytes) list"

text \<open>\<open>filter(startsWith).sort()\<close>, the order of both implementations.\<close>

definition keys_with :: "string \<Rightarrow> string list \<Rightarrow> string list" where
  "keys_with pre ks = sort (filter (prefix pre) ks)"

definition MemoryAdapter :: "entries StorageAdapter" where
  "MemoryAdapter =
     \<lparr>ad_get = \<lambda>k. sget (\<lambda>m. map_of m k),
      ad_set = \<lambda>k v. smodify (AList.update k v),
      ad_delete = \<lambda>k. smodify (AList.delete k),
      ad_keys = \<lambda>pre. sget (\<lambda>m. keys_with pre (map fst m)),
      ad_clear = smodify (\<lambda>_. [])\<rparr>"

subsection \<open>IndexedDB\<close>

record IndexedDb =
  idb_open :: bool
  idb_store :: entries
  idb_outcomes :: "bool list"

text \<open>One request to the database.\<close>

definition idb_request :: "(IndexedDb, unit) effect" where
  "idb_request = (\<lambda>d. case idb_outcomes d of
       [] \<Rightarrow> (d, Inr ())
     | rejected # rest \<Rightarrow> (d\<lparr>idb_outcomes := rest\<rparr>, if rejected then Inl StorageError else Inr ()))"

definition idb_handle :: "(IndexedDb, unit) effect" where
  "idb_handle = (\<lambda>d.
     if idb_open d then (d, Inr ())
     else sbind idb_request (\<lambda>_. smodify (\<lambda>d. d\<lparr>idb_open := True\<rparr>)) d)"

definition idb_run :: "(IndexedDb, 'b) effect \<Rightarrow> (IndexedDb, 'b) effect" where
  "idb_run action = sbind idb_handle (\<lambda>_. sbind idb_request (\<lambda>_. action))"

definition IndexedDbAdapter :: "IndexedDb StorageAdapter" where
  "IndexedDbAdapter =
     \<lparr>ad_get = \<lambda>k. idb_run (sget (\<lambda>d. map_of (idb_store d) k)),
      ad_set = \<lambda>k v. idb_run (smodify (\<lambda>d. d\<lparr>idb_store := AList.update k v (idb_store d)\<rparr>)),
      ad_delete = \<lambda>k. idb_run (smodify (\<lambda>d. d\<lparr>idb_store := AList.delete k (idb_store d)\<rparr>)),
      ad_keys = \<lambda>pre. idb_run (sget (\<lambda>d. keys_with pre (map fst (idb_store d)))),
      ad_clear = idb_run (smodify (\<lambda>d. d\<lparr>idb_store := []\<rparr>))\<rparr>"

subsection \<open>The contract\<close>

locale storage_adapter =
  fixes A :: "'a StorageAdapter"
    and invar :: "'a \<Rightarrow> bool"
    and view :: "'a \<Rightarrow> string \<Rightarrow> bytes option"
  assumes get_step: "invar s \<Longrightarrow> ad_get A k s = (s', r) \<Longrightarrow>
      invar s' \<and> view s' = view s \<and> (\<forall>x. r = Inr x \<longrightarrow> x = view s k)"
    and set_step: "invar s \<Longrightarrow> ad_set A k v s = (s', w) \<Longrightarrow>
      invar s' \<and> view s' = (if isl w then view s else (view s)(k \<mapsto> v))"
    and delete_step: "invar s \<Longrightarrow> ad_delete A k s = (s', w) \<Longrightarrow>
      invar s' \<and> view s' = (if isl w then view s else (view s)(k := None))"
    and keys_step: "invar s \<Longrightarrow> ad_keys A pre s = (s', l) \<Longrightarrow>
      invar s' \<and> view s' = view s \<and>
      (\<forall>ks. l = Inr ks \<longrightarrow> sorted ks \<and> distinct ks \<and> set ks = {k. view s k \<noteq> None \<and> prefix pre k})"
    and clear_step: "invar s \<Longrightarrow> ad_clear A s = (s', w) \<Longrightarrow>
      invar s' \<and> view s' = (if isl w then view s else Map.empty)"

locale reliable_adapter = storage_adapter +
  assumes get_accepts: "invar s \<Longrightarrow> isr (snd (ad_get A k s))"
    and set_accepts: "invar s \<Longrightarrow> isr (snd (ad_set A k v s))"
    and delete_accepts: "invar s \<Longrightarrow> isr (snd (ad_delete A k s))"
    and keys_accepts: "invar s \<Longrightarrow> isr (snd (ad_keys A pre s))"
begin

lemma reliable_get:
  assumes "invar s"
  obtains s' where "ad_get A k s = (s', Inr (view s k))" "invar s'" "view s' = view s"
  using assms get_step [OF assms] get_accepts [OF assms, of k]
  by (cases "ad_get A k s"; cases "snd (ad_get A k s)") auto

lemma reliable_set:
  assumes "invar s"
  obtains s' where "ad_set A k v s = (s', Inr ())" "invar s'" "view s' = (view s)(k \<mapsto> v)"
  using assms set_step [OF assms] set_accepts [OF assms, of k v]
  by (cases "ad_set A k v s"; cases "snd (ad_set A k v s)") auto

lemma reliable_delete:
  assumes "invar s"
  obtains s' where "ad_delete A k s = (s', Inr ())" "invar s'" "view s' = (view s)(k := None)"
  using assms delete_step [OF assms] delete_accepts [OF assms, of k]
  by (cases "ad_delete A k s"; cases "snd (ad_delete A k s)") auto

lemma reliable_keys:
  assumes "invar s"
  obtains s' ks where "ad_keys A pre s = (s', Inr ks)" "invar s'" "view s' = view s"
    "sorted ks" "distinct ks" "set ks = {k. view s k \<noteq> None \<and> prefix pre k}"
  using assms keys_step [OF assms] keys_accepts [OF assms, of pre]
  by (cases "ad_keys A pre s"; cases "snd (ad_keys A pre s)") auto

end

lemma keys_with_spec:
  assumes "distinct_keys m"
  shows "sorted (keys_with pre (map fst m))" "distinct (keys_with pre (map fst m))"
    "set (keys_with pre (map fst m)) = {k. map_of m k \<noteq> None \<and> prefix pre k}"
  using assms map_of_eq_None_iff [of m] by (auto simp: keys_with_def)

interpretation memory: reliable_adapter MemoryAdapter distinct_keys map_of
  by unfold_locales
    (auto simp: MemoryAdapter_def update_conv' delete_conv' distinct_update distinct_delete keys_with_spec)

text \<open>Every call of the IndexedDB adapter goes through \<open>run\<close>: it acts on the store or is rejected.\<close>

lemma idb_request_outcome:
  "\<exists>d1 r. idb_request d = (d1, r) \<and> idb_store d1 = idb_store d \<and> (r = Inr () \<or> r = Inl StorageError)"
  by (auto simp: idb_request_def split: list.split)

lemma idb_handle_outcome:
  "\<exists>d1 r. idb_handle d = (d1, r) \<and> idb_store d1 = idb_store d \<and> (r = Inr () \<or> r = Inl StorageError)"
  using idb_request_outcome [of d] by (auto simp: idb_handle_def sbind_def)

lemma idb_run_cases:
  obtains d' where "idb_run act d = (d', Inl StorageError)" "idb_store d' = idb_store d"
  | d' where "idb_run act d = act d'" "idb_store d' = idb_store d"
proof -
  obtain d1 r1 where 1: "idb_handle d = (d1, r1)" "idb_store d1 = idb_store d" "r1 = Inr () \<or> r1 = Inl StorageError"
    using idb_handle_outcome by blast
  obtain d2 r2 where 2: "idb_request d1 = (d2, r2)" "idb_store d2 = idb_store d1" "r2 = Inr () \<or> r2 = Inl StorageError"
    using idb_request_outcome by blast
  from 1 2 show thesis by (auto simp: idb_run_def sbind_def intro: that)
qed

lemma idb_run_get:
  assumes "idb_run (sget f) d = (d', r)"
  shows "idb_store d' = idb_store d" "r = Inr x \<Longrightarrow> \<exists>d1. idb_store d1 = idb_store d \<and> x = f d1"
  using assms by (cases rule: idb_run_cases [of "sget f" d]; auto)+

lemma idb_run_modify:
  assumes "idb_run (smodify (\<lambda>d. d\<lparr>idb_store := f (idb_store d)\<rparr>)) d = (d', r)"
  shows "idb_store d' = (if isl r then idb_store d else f (idb_store d))"
  using assms by (cases rule: idb_run_cases [of "smodify (\<lambda>d. d\<lparr>idb_store := f (idb_store d)\<rparr>)" d]) auto

interpretation indexed_db: storage_adapter IndexedDbAdapter "distinct_keys \<circ> idb_store" "map_of \<circ> idb_store"
proof (unfold_locales, goal_cases)
  case (1 s k s' r)
  then show ?case using idb_run_get [of "\<lambda>d. map_of (idb_store d) k" s s' r] by (auto simp: IndexedDbAdapter_def)
next
  case (2 s k v s' r)
  then show ?case using idb_run_modify [of "AList.update k v" s s' r]
    by (simp add: IndexedDbAdapter_def update_conv' distinct_update)
next
  case (3 s k s' r)
  then show ?case using idb_run_modify [of "AList.delete k" s s' r]
    by (simp add: IndexedDbAdapter_def delete_conv' distinct_delete)
next
  case (4 s pre s' r)
  then have run: "idb_run (sget (\<lambda>d. keys_with pre (map fst (idb_store d)))) s = (s', r)"
    by (simp add: IndexedDbAdapter_def)
  have "\<forall>ks. r = Inr ks \<longrightarrow> ks = keys_with pre (map fst (idb_store s))" using idb_run_get(2) [OF run] by fastforce
  then show ?case using idb_run_get(1) [OF run] keys_with_spec [of "idb_store s" pre] 4(1) by (metis comp_apply)
next
  case (5 s s' r)
  then show ?case using idb_run_modify [of "\<lambda>_. []" s s' r] by (simp add: IndexedDbAdapter_def)
qed

text \<open>As long as no request is rejected the browser's adapter is reliable, too.\<close>

lemma idb_run_accepts:
  "idb_outcomes d = [] \<Longrightarrow> idb_run act d = act (d\<lparr>idb_open := True\<rparr>)"
  by (cases d) (auto simp: idb_run_def idb_handle_def idb_request_def sbind_def split: prod.splits sum.splits)

interpretation indexed_db_up: reliable_adapter IndexedDbAdapter
  "\<lambda>d. distinct_keys (idb_store d) \<and> idb_outcomes d = []" "map_of \<circ> idb_store"
  by unfold_locales
    (auto simp: IndexedDbAdapter_def idb_run_accepts update_conv' delete_conv' distinct_update distinct_delete
      keys_with_spec)

end
