(* ===== verification/Vault.thy ===== *)
theory Vault
  imports Adapter Sodium Json
begin

section \<open>Encrypted vault (\<open>storage/vault.ts\<close>)\<close>

text \<open>
  Sealed records over a storage adapter. A \<open>Vault\<close> holds the derivation parameters and, while it
  is unlocked, the key; its operations are effects on the device: the adapter's state and the
  random source, whose \<open>i\<close>-th draw of \<open>n\<close> bytes is \<open>dev_random i n\<close>. Argon2id and libsodium's
  base64 are third-party code and a parameter, the record \<open>pwhash\<close>. The parameters read back from
  storage are whatever JSON is there: only \<open>algorithm\<close> is checked, the other fields go to libsodium
  as they are, \<open>None\<close> for a missing one.
\<close>

record pwhash =
  pw_hash :: "nat \<Rightarrow> string \<Rightarrow> bytes \<Rightarrow> json option \<Rightarrow> json option \<Rightarrow> bytes option"
    \<comment> \<open>\<open>crypto_pwhash(length, passphrase, salt, opsLimit, memLimit, ARGON2ID13)\<close>\<close>
  pw_to_base64 :: "bytes \<Rightarrow> string"
  pw_from_base64 :: "json option \<Rightarrow> bytes option"
  SALTBYTES :: nat
  OPSLIMIT_MODERATE :: nat
  OPSLIMIT_INTERACTIVE :: nat
  MEMLIMIT_MODERATE :: nat
  MEMLIMIT_INTERACTIVE :: nat

text \<open>What is documented of them: base64 comes back, and the limits offered are accepted.\<close>

definition pwhash_law :: "pwhash \<Rightarrow> bool" where
  "pwhash_law P \<longleftrightarrow>
     (\<forall>b. pw_from_base64 P (Some (JStr (pw_to_base64 P b))) = Some b) \<and>
     (\<forall>n pass salt. length salt = SALTBYTES P \<longrightarrow>
        (\<forall>(ops, mem) \<in> {(OPSLIMIT_MODERATE P, MEMLIMIT_MODERATE P), (OPSLIMIT_INTERACTIVE P, MEMLIMIT_INTERACTIVE P)}.
           \<exists>k. pw_hash P n pass salt (Some (jnat ops)) (Some (jnat mem)) = Some k \<and> length k = n))"

record 'a device =
  dev_adapter :: 'a
  dev_random :: "nat \<Rightarrow> nat \<Rightarrow> bytes"
  dev_drawn :: nat

definition randombytes_buf :: "nat \<Rightarrow> ('a device, bytes) effect" where
  "randombytes_buf n = (\<lambda>d. (d\<lparr>dev_drawn := Suc (dev_drawn d)\<rparr>, Inr (dev_random d (dev_drawn d) n)))"

definition on_adapter :: "('a, 'b) effect \<Rightarrow> ('a device, 'b) effect" where
  "on_adapter m = (\<lambda>d. case m (dev_adapter d) of (a, r) \<Rightarrow> (d\<lparr>dev_adapter := a\<rparr>, r))"

definition PARAMS_KEY :: string where "PARAMS_KEY = ''vault:params''"
definition RECORD_PREFIX :: string where "RECORD_PREFIX = ''vault:record:''"
definition CANARY_NAME :: string where "CANARY_NAME = ''__canary__''"
definition CANARY_PLAINTEXT :: string where "CANARY_PLAINTEXT = ''shatters-vault-v1''"
definition V_KEY_LENGTH :: nat where "V_KEY_LENGTH = 32"
definition V_NONCE_LENGTH :: nat where "V_NONCE_LENGTH = 24"

record KdfParams =
  kdf_algorithm :: string
  kdf_salt :: "json option"
  kdf_opsLimit :: "json option"
  kdf_memLimit :: "json option"

datatype VaultStrength = Interactive | Moderate

record Vault =
  v_params :: KdfParams
  v_key :: "bytes option"

definition recordKey :: "string \<Rightarrow> string" where
  "recordKey name = RECORD_PREFIX @ name"

definition deriveKey :: "pwhash \<Rightarrow> string \<Rightarrow> KdfParams \<Rightarrow> bytes result" where
  "deriveKey P passphrase params =
     rbind (of_option SodiumError (pw_from_base64 P (kdf_salt params))) (\<lambda>salt.
     of_option SodiumError (pw_hash P V_KEY_LENGTH passphrase salt (kdf_opsLimit params) (kdf_memLimit params)))"

definition vault_locked :: "Vault \<Rightarrow> bool" where
  "vault_locked v \<longleftrightarrow> v_key v = None"

definition vault_lock :: "Vault \<Rightarrow> Vault" where
  "vault_lock v = v\<lparr>v_key := None\<rparr>"

definition requireKey :: "Vault \<Rightarrow> bytes result" where
  "requireKey v = of_option VaultLockedError (v_key v)"

subsection \<open>Records\<close>

definition vault_put :: "sodium \<Rightarrow> 'a StorageAdapter \<Rightarrow> Vault \<Rightarrow> string \<Rightarrow> bytes \<Rightarrow> ('a device, unit) effect" where
  "vault_put S A v name payload =
     sbind (slift (requireKey v)) (\<lambda>key.
     sbind (randombytes_buf V_NONCE_LENGTH) (\<lambda>nonce.
     sbind (slift (of_option SodiumError (aead_encrypt S payload (utf8_encode name) nonce key))) (\<lambda>sealed.
     on_adapter (ad_set A (recordKey name) (nonce @ sealed)))))"

text \<open>Opening what the adapter returned for a name.\<close>

definition open_record :: "sodium \<Rightarrow> bytes \<Rightarrow> string \<Rightarrow> bytes \<Rightarrow> bytes result" where
  "open_record S key name framed =
     (if length framed \<le> V_NONCE_LENGTH then Inl (VaultError (''record '' @ name @ '' is truncated''))
      else of_option (VaultError (''record '' @ name @ '' failed to authenticate''))
             (aead_decrypt S (drop V_NONCE_LENGTH framed) (utf8_encode name) (take V_NONCE_LENGTH framed) key))"

definition vault_get :: "sodium \<Rightarrow> 'a StorageAdapter \<Rightarrow> Vault \<Rightarrow> string \<Rightarrow> ('a device, bytes option) effect" where
  "vault_get S A v name =
     sbind (slift (requireKey v)) (\<lambda>key.
     sbind (on_adapter (ad_get A (recordKey name))) (\<lambda>framed. case framed of
       None \<Rightarrow> sreturn None
     | Some framed \<Rightarrow> slift (rbind (open_record S key name framed) (\<lambda>p. Inr (Some p)))))"

definition vault_delete :: "'a StorageAdapter \<Rightarrow> Vault \<Rightarrow> string \<Rightarrow> ('a device, unit) effect" where
  "vault_delete A v name =
     sbind (slift (requireKey v)) (\<lambda>_. on_adapter (ad_delete A (recordKey name)))"

text \<open>
  A vault as its callers hold it: the three methods everything else is built from, each an effect
  on the device. \<open>vault_ops\<close> is the vault object \<open>v\<close> over the adapter \<open>A\<close>.
\<close>

record 'd VaultOps =
  vo_get :: "string \<Rightarrow> ('d, bytes option) effect"
  vo_put :: "string \<Rightarrow> bytes \<Rightarrow> ('d, unit) effect"
  vo_delete :: "string \<Rightarrow> ('d, unit) effect"

definition vault_ops :: "sodium \<Rightarrow> 'a StorageAdapter \<Rightarrow> Vault \<Rightarrow> 'a device VaultOps" where
  "vault_ops S A v = \<lparr>vo_get = vault_get S A v, vo_put = vault_put S A v, vo_delete = vault_delete A v\<rparr>"

definition putString :: "'d VaultOps \<Rightarrow> string \<Rightarrow> string \<Rightarrow> ('d, unit) effect" where
  "putString V name s = vo_put V name (utf8_encode s)"

definition getString :: "'d VaultOps \<Rightarrow> string \<Rightarrow> ('d, string option) effect" where
  "getString V name = sbind (vo_get V name) (\<lambda>raw. sreturn (map_option utf8_decode raw))"

definition putJSON :: "'d VaultOps \<Rightarrow> string \<Rightarrow> json \<Rightarrow> ('d, unit) effect" where
  "putJSON V name j = putString V name (json_print j)"

definition getJSON :: "'d VaultOps \<Rightarrow> string \<Rightarrow> ('d, json option) effect" where
  "getJSON V name =
     sbind (getString V name) (\<lambda>raw. case raw of
       None \<Rightarrow> sreturn None
     | Some text \<Rightarrow> slift (rbind (of_option SyntaxError (json_parse text)) (\<lambda>j. Inr (Some j))))"

definition vault_list :: "'a StorageAdapter \<Rightarrow> Vault \<Rightarrow> string \<Rightarrow> ('a device, string list) effect" where
  "vault_list A v pre =
     sbind (slift (requireKey v)) (\<lambda>_.
     sbind (on_adapter (ad_keys A (RECORD_PREFIX @ pre))) (\<lambda>ks.
     sreturn (filter (\<lambda>name. name \<noteq> CANARY_NAME) (map (drop (length RECORD_PREFIX)) ks))))"

fun delete_all :: "'a StorageAdapter \<Rightarrow> string list \<Rightarrow> ('a device, unit) effect" where
  "delete_all A [] = sreturn ()"
| "delete_all A (k # ks) = sbind (on_adapter (ad_delete A k)) (\<lambda>_. delete_all A ks)"

definition vault_destroy :: "'a StorageAdapter \<Rightarrow> Vault \<Rightarrow> ('a device, Vault) effect" where
  "vault_destroy A v =
     sbind (on_adapter (ad_keys A RECORD_PREFIX)) (\<lambda>ks.
     sbind (delete_all A ks) (\<lambda>_.
     sbind (on_adapter (ad_delete A PARAMS_KEY)) (\<lambda>_.
     sreturn (vault_lock v))))"

subsection \<open>Creating and unlocking\<close>

definition vault_exists :: "'a StorageAdapter \<Rightarrow> ('a device, bool) effect" where
  "vault_exists A = sbind (on_adapter (ad_get A PARAMS_KEY)) (\<lambda>raw. sreturn (raw \<noteq> None))"

definition params_json :: "KdfParams \<Rightarrow> json" where
  "params_json p =
     JObj ((''algorithm'', JStr (kdf_algorithm p)) # opt_field ''salt'' (kdf_salt p)
           @ opt_field ''opsLimit'' (kdf_opsLimit p) @ opt_field ''memLimit'' (kdf_memLimit p))"

definition new_params :: "pwhash \<Rightarrow> VaultStrength \<Rightarrow> bytes \<Rightarrow> KdfParams" where
  "new_params P strength salt =
     \<lparr>kdf_algorithm = ''argon2id13'', kdf_salt = Some (JStr (pw_to_base64 P salt)),
      kdf_opsLimit = Some (jnat (if strength = Moderate then OPSLIMIT_MODERATE P else OPSLIMIT_INTERACTIVE P)),
      kdf_memLimit = Some (jnat (if strength = Moderate then MEMLIMIT_MODERATE P else MEMLIMIT_INTERACTIVE P))\<rparr>"

definition vault_create ::
  "sodium \<Rightarrow> pwhash \<Rightarrow> 'a StorageAdapter \<Rightarrow> string \<Rightarrow> VaultStrength \<Rightarrow> ('a device, Vault) effect" where
  "vault_create S P A passphrase strength =
     sbind (vault_exists A) (\<lambda>there.
     sbind (slift (require (\<not> there) (VaultError ''a vault already exists in this storage''))) (\<lambda>_.
     sbind (slift (require (passphrase \<noteq> []) (VaultError ''passphrase must not be empty''))) (\<lambda>_.
     sbind (randombytes_buf (SALTBYTES P)) (\<lambda>salt.
     let params = new_params P strength salt in
     sbind (slift (deriveKey P passphrase params)) (\<lambda>key.
     let vault = \<lparr>v_params = params, v_key = Some key\<rparr> in
     sbind (on_adapter (ad_set A PARAMS_KEY (utf8_encode (json_print (params_json params))))) (\<lambda>_.
     sbind (putString (vault_ops S A vault) CANARY_NAME CANARY_PLAINTEXT) (\<lambda>_.
     sreturn vault)))))))"

definition read_params :: "bytes \<Rightarrow> KdfParams result" where
  "read_params raw =
     rbind (of_option (VaultError ''vault parameters are corrupt'') (json_parse (utf8_decode raw))) (\<lambda>j.
     rbind (field_of (Some j) ''algorithm'') (\<lambda>alg.
     rbind (require (alg = Some (JStr ''argon2id13'')) (VaultError (''unsupported vault algorithm '' @ to_string alg))) (\<lambda>_.
     Inr \<lparr>kdf_algorithm = ''argon2id13'', kdf_salt = field j ''salt'', kdf_opsLimit = field j ''opsLimit'',
          kdf_memLimit = field j ''memLimit''\<rparr>)))"

text \<open>\<open>.catch(() => undefined)\<close>.\<close>

definition or_none :: "('s, 'b option) effect \<Rightarrow> ('s, 'b option) effect" where
  "or_none m = (\<lambda>s. case m s of (t, Inl _) \<Rightarrow> (t, Inr None) | (t, Inr x) \<Rightarrow> (t, Inr x))"

definition vault_unlock :: "sodium \<Rightarrow> pwhash \<Rightarrow> 'a StorageAdapter \<Rightarrow> string \<Rightarrow> ('a device, Vault) effect" where
  "vault_unlock S P A passphrase =
     sbind (on_adapter (ad_get A PARAMS_KEY)) (\<lambda>raw. case raw of
       None \<Rightarrow> sthrow (VaultError ''no vault in this storage'')
     | Some raw \<Rightarrow>
       sbind (slift (read_params raw)) (\<lambda>params.
       sbind (slift (deriveKey P passphrase params)) (\<lambda>key.
       let vault = \<lparr>v_params = params, v_key = Some key\<rparr> in
       sbind (or_none (getString (vault_ops S A vault) CANARY_NAME)) (\<lambda>canary.
       if canary \<noteq> Some CANARY_PLAINTEXT then sthrow (VaultError ''incorrect passphrase'')
       else sreturn vault))))"

subsection \<open>What a vault promises its callers\<close>

text \<open>
  \<open>recs d\<close> is the map of plaintexts the device holds. A call that goes from one map to another with
  an outcome that depends on nothing else (the nonces drawn, for one) is a \<open>step\<close>.
\<close>

definition steps :: "('d \<Rightarrow> bool) \<Rightarrow> ('d \<Rightarrow> 'r) \<Rightarrow> ('d, 'b) effect \<Rightarrow> 'r \<Rightarrow> 'b result \<Rightarrow> 'r \<Rightarrow> bool" where
  "steps good recs m R r R' \<longleftrightarrow>
     (\<forall>d. good d \<longrightarrow> recs d = R \<longrightarrow> (\<exists>d'. m d = (d', r) \<and> good d' \<and> recs d' = R'))"

named_theorems step_intros \<open>composition rules for steps\<close>

lemma steps_pure [step_intros]:
  "steps good recs (sreturn x) R (Inr x) R" "steps good recs (slift r) R r R" "steps good recs (sthrow e) R (Inl e) R"
  by (simp_all add: steps_def)

lemma steps_bind:
  "steps good recs m R (Inr x) R1 \<Longrightarrow> steps good recs (f x) R1 r R2 \<Longrightarrow> steps good recs (sbind m f) R r R2"
  unfolding steps_def by (metis sbind_Inr)

lemma steps_bind_error:
  "steps good recs m R (Inl e) R1 \<Longrightarrow> steps good recs (sbind m f) R (Inl e) R1"
  unfolding steps_def by (metis sbind_Inl)

lemma stepsE:
  assumes "steps good recs m R r R'" "good d" "recs d = R"
  obtains d' where "m d = (d', r)" "good d'" "recs d' = R'"
  using assms unfolding steps_def by blast

text \<open>The JSON value of a record; \<open>None\<close> when the record is absent.\<close>

definition json_of :: "(string \<Rightarrow> bytes option) \<Rightarrow> string \<Rightarrow> json option result" where
  "json_of R name =
     (case R name of None \<Rightarrow> Inr None
      | Some raw \<Rightarrow> rbind (of_option SyntaxError (json_parse (utf8_decode raw))) (\<lambda>j. Inr (Some j)))"

definition put_json :: "string \<Rightarrow> json \<Rightarrow> (string \<Rightarrow> bytes option) \<Rightarrow> string \<Rightarrow> bytes option" where
  "put_json name j R = R(name \<mapsto> utf8_encode (json_print j))"

lemma json_of_put [simp]: "json_ok j \<Longrightarrow> json_of (put_json name j R) name = Inr (Some j)"
  by (simp only: json_of_def put_json_def fun_upd_same option.case utf8.dec_enc utf8_decode_encode json.dec_enc
      of_option_simps rbind_simps)

lemma json_of_other [simp]: "name' \<noteq> name \<Longrightarrow> json_of (put_json name j R) name' = json_of R name'"
  "name' \<noteq> name \<Longrightarrow> json_of (R(name \<mapsto> raw)) name' = json_of R name'"
  "name' \<noteq> name \<Longrightarrow> json_of (R(name := None)) name' = json_of R name'"
  "json_of (R(name := None)) name = Inr None"
  by (simp_all add: json_of_def put_json_def)

locale record_vault =
  fixes V :: "'d VaultOps"
    and good :: "'d \<Rightarrow> bool"
    and recs :: "'d \<Rightarrow> string \<Rightarrow> bytes option"
  assumes get_law: "steps good recs (vo_get V name) R (Inr (R name)) R"
    and put_law: "steps good recs (vo_put V name x) R (Inr ()) (R(name \<mapsto> x))"
    and delete_law: "steps good recs (vo_delete V name) R (Inr ()) (R(name := None))"
begin

lemma getString_step: "steps good recs (getString V name) R (Inr (map_option utf8_decode (R name))) R"
  unfolding getString_def by (rule steps_bind [OF get_law]) (rule steps_pure)

lemma putString_step: "steps good recs (putString V name s) R (Inr ()) (R(name \<mapsto> utf8_encode s))"
  unfolding putString_def by (rule put_law)

lemma putJSON_step [step_intros]: "steps good recs (putJSON V name j) R (Inr ()) (put_json name j R)"
  unfolding putJSON_def put_json_def by (rule putString_step)

lemma getJSON_step [step_intros]: "steps good recs (getJSON V name) R (json_of R name) R"
proof -
  have "steps good recs (case map_option utf8_decode (R name) of None \<Rightarrow> sreturn None
      | Some text \<Rightarrow> slift (rbind (of_option SyntaxError (json_parse text)) (\<lambda>j. Inr (Some j)))) R (json_of R name) R"
    by (cases "R name") (simp_all add: json_of_def steps_pure)
  then show ?thesis unfolding getJSON_def by (rule steps_bind [OF getString_step])
qed

end

subsection \<open>The vault keeps the promise\<close>

text \<open>The plaintexts a device holds for a vault, and when all of them can be read.\<close>

definition vault_recs ::
  "sodium \<Rightarrow> ('a \<Rightarrow> string \<Rightarrow> bytes option) \<Rightarrow> Vault \<Rightarrow> 'a device \<Rightarrow> string \<Rightarrow> bytes option" where
  "vault_recs S view v d name =
     (case v_key v of None \<Rightarrow> None
      | Some key \<Rightarrow> (case view (dev_adapter d) (recordKey name) of None \<Rightarrow> None
          | Some framed \<Rightarrow> (case open_record S key name framed of Inl _ \<Rightarrow> None | Inr p \<Rightarrow> Some p)))"

definition device_ok :: "('a \<Rightarrow> bool) \<Rightarrow> 'a device \<Rightarrow> bool" where
  "device_ok invar d \<longleftrightarrow> invar (dev_adapter d) \<and> (\<forall>i n. length (dev_random d i n) = n)"

definition vault_good ::
  "sodium \<Rightarrow> 'a StorageAdapter \<Rightarrow> ('a \<Rightarrow> bool) \<Rightarrow> ('a \<Rightarrow> string \<Rightarrow> bytes option) \<Rightarrow> Vault \<Rightarrow> 'a device \<Rightarrow> bool" where
  "vault_good S A invar view v d \<longleftrightarrow>
     aead_law S \<and> reliable_adapter A invar view \<and> device_ok invar d \<and>
     (\<exists>raw. view (dev_adapter d) PARAMS_KEY = Some raw \<and> read_params raw = Inr (v_params v)) \<and>
     (\<exists>key. v_key v = Some key \<and> length key = 32 \<and>
        (\<forall>name framed. view (dev_adapter d) (recordKey name) = Some framed \<longrightarrow> isr (open_record S key name framed)))"

lemma vault_recs_view:
  "view (dev_adapter d') = view (dev_adapter d) \<Longrightarrow> vault_recs S view v d' = vault_recs S view v d"
  by (rule ext) (simp add: vault_recs_def cong: option.case_cong)

lemma recordKey_inject [simp]: "recordKey a = recordKey b \<longleftrightarrow> a = b"
  by (simp add: recordKey_def)

lemma recordKey_not_params [simp]: "recordKey name \<noteq> PARAMS_KEY" "PARAMS_KEY \<noteq> recordKey name"
  by (simp_all add: recordKey_def PARAMS_KEY_def RECORD_PREFIX_def)

lemma open_sealed:
  assumes "aead_law S" "length nonce = 24" "length key = 32"
  obtains sealed where "aead_encrypt S p (utf8_encode name) nonce key = Some sealed"
    "open_record S key name (nonce @ sealed) = Inr p"
proof -
  obtain c where "aead_encrypt S p (utf8_encode name) nonce key = Some c" "length c = length p + 16"
    "aead_decrypt S c (utf8_encode name) nonce key = Some p"
    using assms unfolding aead_law_def by blast
  then show thesis using assms(2) by (intro that) (auto simp: open_record_def V_NONCE_LENGTH_def)
qed

lemma vault_goodE:
  assumes "vault_good S A invar view v d"
  obtains key where "aead_law S" "reliable_adapter A invar view" "device_ok invar d" "v_key v = Some key"
    "length key = 32" "\<forall>name framed. view (dev_adapter d) (recordKey name) = Some framed \<longrightarrow>
      (\<exists>p. open_record S key name framed = Inr p)"
proof -
  have "isr (r :: error + 'x) \<longleftrightarrow> (\<exists>p. r = Inr p)" for r by (cases r) auto
  then show thesis using assms that unfolding vault_good_def by metis
qed

lemma vault_get_step:
  "steps (vault_good S A invar view v) (vault_recs S view v) (vault_get S A v name) R (Inr (R name)) R"
  unfolding steps_def
proof (intro allI impI)
  fix d assume g: "vault_good S A invar view v d" and R: "vault_recs S view v d = R"
  from g obtain key where o: "reliable_adapter A invar view" "device_ok invar d" "v_key v = Some key"
    "\<forall>name framed. view (dev_adapter d) (recordKey name) = Some framed \<longrightarrow> (\<exists>p. open_record S key name framed = Inr p)"
    by (rule vault_goodE) blast
  obtain a where a: "ad_get A (recordKey name) (dev_adapter d) = (a, Inr (view (dev_adapter d) (recordKey name)))"
    "invar a" "view a = view (dev_adapter d)"
    using reliable_adapter.reliable_get [OF o(1)] o(2) unfolding device_ok_def by metis
  let ?d = "d\<lparr>dev_adapter := a\<rparr>"
  have "vault_get S A v name d = (?d, Inr (R name))"
    using spec [OF spec [OF o(4), of name]] by (cases "view (dev_adapter d) (recordKey name)")
      (force simp: vault_get_def requireKey_def o(3) sbind_def on_adapter_def a(1) vault_recs_def simp flip: R)+
  moreover have "vault_recs S view v ?d = R" using R a(3) vault_recs_view [of view ?d d] by simp
  moreover have "vault_good S A invar view v ?d" using g a by (simp add: vault_good_def device_ok_def)
  ultimately show "\<exists>d'. vault_get S A v name d = (d', Inr (R name)) \<and> vault_good S A invar view v d' \<and>
    vault_recs S view v d' = R" by blast
qed

lemma vault_put_step:
  "steps (vault_good S A invar view v) (vault_recs S view v) (vault_put S A v name x) R (Inr ()) (R(name \<mapsto> x))"
  unfolding steps_def
proof (intro allI impI)
  fix d assume g: "vault_good S A invar view v d" and R: "vault_recs S view v d = R"
  from g obtain key where o: "aead_law S" "reliable_adapter A invar view" "device_ok invar d" "v_key v = Some key"
    "length key = 32"
    by (rule vault_goodE) blast
  let ?nonce = "dev_random d (dev_drawn d) V_NONCE_LENGTH"
  have "length ?nonce = 24" using o(3) by (simp add: device_ok_def V_NONCE_LENGTH_def)
  then obtain sealed where sl: "aead_encrypt S x (utf8_encode name) ?nonce key = Some sealed"
    "open_record S key name (?nonce @ sealed) = Inr x"
    using open_sealed [OF o(1)] o(5) by metis
  obtain a where a: "ad_set A (recordKey name) (?nonce @ sealed) (dev_adapter d) = (a, Inr ())"
    "invar a" "view a = (view (dev_adapter d))(recordKey name \<mapsto> ?nonce @ sealed)"
    using reliable_adapter.reliable_set [OF o(2)] o(3) unfolding device_ok_def by metis
  let ?d = "d\<lparr>dev_adapter := a, dev_drawn := Suc (dev_drawn d)\<rparr>"
  have "vault_put S A v name x d = (?d, Inr ())"
    by (simp add: vault_put_def requireKey_def o(4) sbind_def randombytes_buf_def on_adapter_def sl(1) a(1))
  moreover have "vault_recs S view v ?d = R(name \<mapsto> x)"
    using sl(2) o(4) a(3) by (auto simp: vault_recs_def fun_eq_iff simp flip: R)
  moreover have "vault_good S A invar view v ?d" using g a sl(2) o(4) by (auto simp: vault_good_def device_ok_def)
  ultimately show "\<exists>d'. vault_put S A v name x d = (d', Inr ()) \<and> vault_good S A invar view v d' \<and>
    vault_recs S view v d' = R(name \<mapsto> x)" by blast
qed

lemma vault_delete_step:
  "steps (vault_good S A invar view v) (vault_recs S view v) (vault_delete A v name) R (Inr ()) (R(name := None))"
  unfolding steps_def
proof (intro allI impI)
  fix d assume g: "vault_good S A invar view v d" and R: "vault_recs S view v d = R"
  from g obtain key where o: "reliable_adapter A invar view" "device_ok invar d" "v_key v = Some key"
    by (rule vault_goodE) blast
  obtain a where a: "ad_delete A (recordKey name) (dev_adapter d) = (a, Inr ())"
    "invar a" "view a = (view (dev_adapter d))(recordKey name := None)"
    using reliable_adapter.reliable_delete [OF o(1)] o(2) unfolding device_ok_def by metis
  let ?d = "d\<lparr>dev_adapter := a\<rparr>"
  have "vault_delete A v name d = (?d, Inr ())"
    by (simp add: vault_delete_def requireKey_def o(3) sbind_def on_adapter_def a(1))
  moreover have "vault_recs S view v ?d = R(name := None)"
    using a(3) by (auto simp: vault_recs_def fun_eq_iff o(3) simp flip: R)
  moreover have "vault_good S A invar view v ?d" using g a by (auto simp: vault_good_def device_ok_def)
  ultimately show "\<exists>d'. vault_delete A v name d = (d', Inr ()) \<and> vault_good S A invar view v d' \<and>
    vault_recs S view v d' = R(name := None)" by blast
qed

interpretation sealed_vault: record_vault "vault_ops S A v" "vault_good S A invar view v" "vault_recs S view v"
  for S :: sodium and A :: "'a StorageAdapter" and v invar view
  by unfold_locales (simp_all add: vault_ops_def vault_get_step vault_put_step vault_delete_step)

subsection \<open>Sequences of calls\<close>

text \<open>The specification of a vault is a plain map, with no keys, nonces or adapter.\<close>

definition plain_vault :: "(string \<Rightarrow> bytes option) VaultOps" where
  "plain_vault =
     \<lparr>vo_get = \<lambda>name. sget (\<lambda>R. R name), vo_put = \<lambda>name x. smodify (\<lambda>R. R(name \<mapsto> x)),
      vo_delete = \<lambda>name. smodify (\<lambda>R. R(name := None))\<rparr>"

interpretation plain: record_vault plain_vault "\<lambda>_. True" "\<lambda>R. R"
  by unfold_locales (simp_all add: plain_vault_def steps_def)

datatype vault_call = PutCall string bytes | DeleteCall string | GetCall string

fun call_name :: "vault_call \<Rightarrow> string" where
  "call_name (PutCall name x) = name"
| "call_name (DeleteCall name) = name"
| "call_name (GetCall name) = name"

fun run_call :: "'d VaultOps \<Rightarrow> vault_call \<Rightarrow> ('d, bytes option) effect" where
  "run_call V (PutCall name x) = sbind (vo_put V name x) (\<lambda>_. sreturn None)"
| "run_call V (DeleteCall name) = sbind (vo_delete V name) (\<lambda>_. sreturn None)"
| "run_call V (GetCall name) = vo_get V name"

fun run_calls :: "'d VaultOps \<Rightarrow> vault_call list \<Rightarrow> 'd \<Rightarrow> 'd \<times> bytes option result list" where
  "run_calls V [] d = (d, [])"
| "run_calls V (c # cs) d =
     (case run_call V c d of (d1, r) \<Rightarrow> (case run_calls V cs d1 of (d2, rs) \<Rightarrow> (d2, r # rs)))"

lemma run_call_plain [simp]:
  "run_call plain_vault (PutCall name x) R = (R(name \<mapsto> x), Inr None)"
  "run_call plain_vault (DeleteCall name) R = (R(name := None), Inr None)"
  "run_call plain_vault (GetCall name) R = (R, Inr (R name))"
  by (simp_all add: plain_vault_def sbind_def)

context record_vault
begin

lemma run_call_step:
  "steps good recs (run_call V c) R (snd (run_call plain_vault c R)) (fst (run_call plain_vault c R))"
proof (cases c)
  case (PutCall name x)
  then show ?thesis unfolding PutCall run_call_plain by (simp add: steps_bind [OF put_law] steps_pure)
next
  case (DeleteCall name)
  then show ?thesis unfolding DeleteCall run_call_plain by (simp add: steps_bind [OF delete_law] steps_pure)
next
  case (GetCall name)
  then show ?thesis unfolding GetCall run_call_plain by (simp add: get_law)
qed

lemma run_calls_refine:
  assumes "good d"
  shows "\<exists>d'. run_calls V cs d = (d', snd (run_calls plain_vault cs (recs d))) \<and> good d' \<and>
     recs d' = fst (run_calls plain_vault cs (recs d))"
  using assms
proof (induction cs arbitrary: d)
  case (Cons c cs)
  obtain d1 where 1: "run_call V c d = (d1, snd (run_call plain_vault c (recs d)))" "good d1"
    "recs d1 = fst (run_call plain_vault c (recs d))"
    using run_call_step Cons.prems by (rule stepsE) simp
  obtain d2 where "run_calls V cs d1 = (d2, snd (run_calls plain_vault cs (recs d1)))" "good d2"
    "recs d2 = fst (run_calls plain_vault cs (recs d1))"
    using Cons.IH [OF 1(2)] by blast
  then show ?case using 1 by (simp split: prod.split)
qed simp

end

lemma plain_calls_keep:
  "(\<forall>c\<in>set cs. call_name c \<noteq> name) \<Longrightarrow> fst (run_calls plain_vault cs R) name = R name"
proof (induction cs arbitrary: R)
  case (Cons c cs)
  have "fst (run_call plain_vault c R) name = R name"
    using Cons.prems by (cases c) (auto simp del: run_call.simps)
  then show ?case using Cons.IH [of "fst (run_call plain_vault c R)"] Cons.prems by (auto split: prod.split)
qed simp

subsection \<open>Creating, unlocking, destroying\<close>

lemma read_new_params:
  "read_params (utf8_encode (json_print (params_json (new_params P strength salt)))) = Inr (new_params P strength salt)"
proof -
  let ?p = "new_params P strength salt"
  have "json_ok (params_json ?p)" by (simp add: params_json_def new_params_def)
  then have parse: "json_parse (utf8_decode (utf8_encode (json_print (params_json ?p)))) = Some (params_json ?p)"
    by (simp only: utf8_decode_encode json.dec_enc)
  have "field (params_json ?p) ''algorithm'' = Some (JStr ''argon2id13'')" "field_of (Some (params_json ?p)) f = Inr (field (params_json ?p) f)"
    "field (params_json ?p) ''salt'' = kdf_salt ?p" "field (params_json ?p) ''opsLimit'' = kdf_opsLimit ?p"
    "field (params_json ?p) ''memLimit'' = kdf_memLimit ?p" for f
    by (simp_all add: params_json_def new_params_def field_of_def)
  then show ?thesis unfolding read_params_def parse by (simp add: new_params_def)
qed

lemma derive_new_params:
  assumes "pwhash_law P" "length salt = SALTBYTES P"
  obtains key where "deriveKey P pass (new_params P strength salt) = Inr key" "length key = 32"
proof -
  have "\<exists>k. pw_hash P 32 pass salt (kdf_opsLimit (new_params P strength salt)) (kdf_memLimit (new_params P strength salt)) = Some k
      \<and> length k = 32"
    using assms by (cases strength) (auto simp: pwhash_law_def new_params_def)
  then obtain k where "pw_hash P 32 pass salt (kdf_opsLimit (new_params P strength salt)) (kdf_memLimit (new_params P strength salt)) = Some k"
    "length k = 32" by blast
  moreover have "pw_from_base64 P (kdf_salt (new_params P strength salt)) = Some salt"
    using assms(1) by (simp add: pwhash_law_def new_params_def)
  ultimately show thesis by (intro that) (simp_all add: deriveKey_def V_KEY_LENGTH_def)
qed

definition fresh_storage :: "('a \<Rightarrow> string \<Rightarrow> bytes option) \<Rightarrow> 'a device \<Rightarrow> bool" where
  "fresh_storage view d \<longleftrightarrow>
     view (dev_adapter d) PARAMS_KEY = None \<and> (\<forall>name. view (dev_adapter d) (recordKey name) = None)"

lemma create_ok:
  assumes laws: "aead_law S" "pwhash_law P" "reliable_adapter A invar view"
    and dev: "device_ok invar d" "fresh_storage view d" and pass: "pass \<noteq> []"
  obtains d1 vault where "vault_create S P A pass strength d = (d1, Inr vault)" "vault_good S A invar view vault d1"
    "vault_recs S view vault d1 = [CANARY_NAME \<mapsto> utf8_encode CANARY_PLAINTEXT]"
    "deriveKey P pass (v_params vault) = of_option SodiumError (v_key vault)"
proof -
  obtain a where a: "ad_get A PARAMS_KEY (dev_adapter d) = (a, Inr None)" "invar a" "view a = view (dev_adapter d)"
    using reliable_adapter.reliable_get [OF laws(3)] dev unfolding device_ok_def fresh_storage_def by metis
  let ?salt = "dev_random d (dev_drawn d) (SALTBYTES P)"
  let ?params = "new_params P strength ?salt"
  have "length ?salt = SALTBYTES P" using dev by (simp add: device_ok_def)
  then obtain key where key: "deriveKey P pass ?params = Inr key" "length key = 32"
    using derive_new_params [OF laws(2)] by metis
  let ?vault = "\<lparr>v_params = ?params, v_key = Some key\<rparr>"
  let ?raw = "utf8_encode (json_print (params_json ?params))"
  obtain b where b: "ad_set A PARAMS_KEY ?raw a = (b, Inr ())" "invar b" "view b = (view a)(PARAMS_KEY \<mapsto> ?raw)"
    using reliable_adapter.reliable_set [OF laws(3) a(2)] by metis
  let ?d = "d\<lparr>dev_drawn := Suc (dev_drawn d), dev_adapter := b\<rparr>"
  have good: "vault_good S A invar view ?vault ?d"
    using laws dev a b key read_new_params [of P strength ?salt]
    by (auto simp: vault_good_def device_ok_def fresh_storage_def)
  have none: "vault_recs S view ?vault ?d = Map.empty"
    using dev a b by (auto simp: vault_recs_def fresh_storage_def fun_eq_iff)
  obtain d1 where d1: "putString (vault_ops S A ?vault) CANARY_NAME CANARY_PLAINTEXT ?d = (d1, Inr ())"
    "vault_good S A invar view ?vault d1" "vault_recs S view ?vault d1 = [CANARY_NAME \<mapsto> utf8_encode CANARY_PLAINTEXT]"
    using sealed_vault.putString_step good none by (rule stepsE)
  have "vault_create S P A pass strength d = (d1, Inr ?vault)"
    using pass by (simp add: vault_create_def vault_exists_def sbind_def on_adapter_def a(1) randombytes_buf_def key(1) b(1) d1(1)
        Let_def)
  then show thesis by (rule that) (simp_all add: d1(2,3) key(1))
qed

text \<open>Unlocking reads the parameters and tries the key on the canary.\<close>

lemma unlock_eq:
  assumes good: "vault_good S A invar view v d" and key: "deriveKey P pass (v_params v) = Inr key"
  obtains d' where "vault_unlock S P A pass d =
      (d', if vault_recs S view (v\<lparr>v_key := Some key\<rparr>) d CANARY_NAME = Some (utf8_encode CANARY_PLAINTEXT)
           then Inr (v\<lparr>v_key := Some key\<rparr>) else Inl (VaultError ''incorrect passphrase''))"
    "view (dev_adapter d') = view (dev_adapter d)" "device_ok invar d'"
proof -
  from good obtain raw where o: "reliable_adapter A invar view" "device_ok invar d"
    "view (dev_adapter d) PARAMS_KEY = Some raw" "read_params raw = Inr (v_params v)"
    unfolding vault_good_def by blast
  let ?v = "v\<lparr>v_key := Some key\<rparr>"
  obtain a where a: "ad_get A PARAMS_KEY (dev_adapter d) = (a, Inr (Some raw))" "invar a" "view a = view (dev_adapter d)"
    using reliable_adapter.reliable_get [OF o(1)] o(2,3) unfolding device_ok_def by metis
  obtain b where b: "ad_get A (recordKey CANARY_NAME) a = (b, Inr (view a (recordKey CANARY_NAME)))" "invar b" "view b = view a"
    using reliable_adapter.reliable_get [OF o(1) a(2)] by metis
  let ?d = "d\<lparr>dev_adapter := b\<rparr>"
  have canary: "or_none (getString (vault_ops S A ?v) CANARY_NAME) (d\<lparr>dev_adapter := a\<rparr>)
      = (?d, Inr (map_option utf8_decode (vault_recs S view ?v d CANARY_NAME)))"
    using b(1) a(3)
    by (cases "view (dev_adapter d) (recordKey CANARY_NAME)")
      (auto simp: or_none_def getString_def vault_ops_def vault_get_def requireKey_def sbind_def on_adapter_def vault_recs_def
        split: sum.split)
  have v: "\<lparr>v_params = v_params v, v_key = Some key\<rparr> = ?v" by (cases v) simp
  have dec: "utf8_decode x = s \<longleftrightarrow> x = utf8_encode s" for x s by (metis utf8_decode_encode utf8_encode_decode)
  have "vault_unlock S P A pass d =
      (?d, if vault_recs S view ?v d CANARY_NAME = Some (utf8_encode CANARY_PLAINTEXT)
           then Inr ?v else Inl (VaultError ''incorrect passphrase''))"
    using canary by (simp add: vault_unlock_def sbind_def on_adapter_def a(1) o(4) key v Let_def dec)
  then show thesis by (rule that) (use a b o(2) in \<open>simp_all add: device_ok_def\<close>)
qed

lemma delete_all_ok:
  assumes "reliable_adapter A invar view" "device_ok invar d"
  shows "\<exists>d'. delete_all A ks d = (d', Inr ()) \<and> device_ok invar d' \<and>
     view (dev_adapter d') = (\<lambda>k. if k \<in> set ks then None else view (dev_adapter d) k)"
  using assms(2)
proof (induction ks arbitrary: d)
  case (Cons k ks)
  obtain a where a: "ad_delete A k (dev_adapter d) = (a, Inr ())" "invar a" "view a = (view (dev_adapter d))(k := None)"
    using reliable_adapter.reliable_delete [OF assms(1)] Cons.prems unfolding device_ok_def by metis
  let ?d = "d\<lparr>dev_adapter := a\<rparr>"
  have "device_ok invar ?d" using Cons.prems a(2) by (simp add: device_ok_def)
  then obtain d' where "delete_all A ks ?d = (d', Inr ())" "device_ok invar d'"
    "view (dev_adapter d') = (\<lambda>k. if k \<in> set ks then None else view a k)"
    using Cons.IH by fastforce
  then show ?case using a by (auto simp: sbind_def on_adapter_def fun_eq_iff)
qed simp

lemma destroy_ok:
  assumes "reliable_adapter A invar view" "device_ok invar d"
  obtains d' where "vault_destroy A v d = (d', Inr (vault_lock v))" "device_ok invar d'"
    "view (dev_adapter d') = (\<lambda>k. if k = PARAMS_KEY \<or> prefix RECORD_PREFIX k then None else view (dev_adapter d) k)"
proof -
  have inv: "invar (dev_adapter d)" using assms(2) by (simp add: device_ok_def)
  obtain a ks where a: "ad_keys A RECORD_PREFIX (dev_adapter d) = (a, Inr ks)" "invar a" "view a = view (dev_adapter d)"
    "sorted ks" "distinct ks" "set ks = {k. view (dev_adapter d) k \<noteq> None \<and> prefix RECORD_PREFIX k}"
    using reliable_adapter.reliable_keys [OF assms(1) inv] .
  let ?d = "d\<lparr>dev_adapter := a\<rparr>"
  have ok: "device_ok invar ?d" using assms(2) a(2) by (simp add: device_ok_def)
  from delete_all_ok [OF assms(1) ok, of ks] obtain d1 where d1: "delete_all A ks ?d = (d1, Inr ())"
    "device_ok invar d1" "view (dev_adapter d1) = (\<lambda>k. if k \<in> set ks then None else view (dev_adapter ?d) k)"
    by blast
  obtain b where b: "ad_delete A PARAMS_KEY (dev_adapter d1) = (b, Inr ())" "invar b"
    "view b = (view (dev_adapter d1))(PARAMS_KEY := None)"
    using reliable_adapter.reliable_delete [OF assms(1)] d1(2) unfolding device_ok_def by metis
  have "vault_destroy A v d = (d1\<lparr>dev_adapter := b\<rparr>, Inr (vault_lock v))"
    by (simp add: vault_destroy_def sbind_def on_adapter_def a(1) d1(1) b(1))
  then show thesis
  proof (rule that)
    show "device_ok invar (d1\<lparr>dev_adapter := b\<rparr>)" using d1(2) b(2) by (simp add: device_ok_def)
    show "view (dev_adapter (d1\<lparr>dev_adapter := b\<rparr>)) =
        (\<lambda>k. if k = PARAMS_KEY \<or> prefix RECORD_PREFIX k then None else view (dev_adapter d) k)"
      by (rule ext) (simp add: b(3) d1(3) a(3,6))
  qed
qed

lemma prefix_recordKey: "prefix RECORD_PREFIX k \<longleftrightarrow> (\<exists>name. k = recordKey name)"
  by (auto simp: recordKey_def prefix_def)

subsection \<open>Properties\<close>

text \<open>
  Claim C23. The vault is a map from record names to plaintexts: any sequence of reads, writes and
  deletions over a storage backend that does not reject requests has exactly the outcomes the same
  calls have on a plain map, whatever nonces are drawn, and leaves exactly that map behind, still
  readable. Sealing never loses, mixes up or invents a record.
\<close>

theorem vault_refines_map:
  assumes "vault_good S A invar view v d"
  shows "\<exists>d'. run_calls (vault_ops S A v) calls d = (d', snd (run_calls plain_vault calls (vault_recs S view v d))) \<and>
     vault_good S A invar view v d' \<and>
     vault_recs S view v d' = fst (run_calls plain_vault calls (vault_recs S view v d))"
  using assms by (rule sealed_vault.run_calls_refine)

text \<open>
  Claim C25. A passphrase opens the vault it created and what was stored since. In storage that
  holds no vault, \<open>create\<close> succeeds; after any calls that leave the canary alone, \<open>unlock\<close> with the
  same passphrase returns the same key and parameters and the records are as they were; a
  passphrase whose key does not open the canary is refused as incorrect, with the storage unchanged;
  and a second \<open>create\<close> is refused.
\<close>

theorem passphrase_unlocks:
  assumes "aead_law S" "pwhash_law P" "reliable_adapter A invar view" "device_ok invar d" "fresh_storage view d"
    and "pass \<noteq> []" "\<forall>c\<in>set calls. call_name c \<noteq> CANARY_NAME"
  shows "\<exists>d1 v. vault_create S P A pass strength d = (d1, Inr v) \<and>
     (\<exists>d2 outs. run_calls (vault_ops S A v) calls d1 = (d2, outs) \<and>
       (\<exists>d3. vault_unlock S P A pass d2 = (d3, Inr v) \<and> vault_recs S view v d3 = vault_recs S view v d2) \<and>
       (\<forall>pass' key'. deriveKey P pass' (v_params v) = Inr key' \<longrightarrow>
          vault_recs S view (v\<lparr>v_key := Some key'\<rparr>) d2 CANARY_NAME \<noteq> Some (utf8_encode CANARY_PLAINTEXT) \<longrightarrow>
          (\<exists>d3. vault_unlock S P A pass' d2 = (d3, Inl (VaultError ''incorrect passphrase'')) \<and>
                view (dev_adapter d3) = view (dev_adapter d2))) \<and>
       (\<forall>pass' strength'. snd (vault_create S P A pass' strength' d2)
          = Inl (VaultError ''a vault already exists in this storage'')))"
proof -
  obtain d1 v where v: "vault_create S P A pass strength d = (d1, Inr v)" "vault_good S A invar view v d1"
    "vault_recs S view v d1 = [CANARY_NAME \<mapsto> utf8_encode CANARY_PLAINTEXT]"
    "deriveKey P pass (v_params v) = of_option SodiumError (v_key v)"
    by (rule create_ok [OF assms(1-6)])
  obtain d2 where d2: "run_calls (vault_ops S A v) calls d1 = (d2, snd (run_calls plain_vault calls (vault_recs S view v d1)))"
    "vault_good S A invar view v d2" "vault_recs S view v d2 = fst (run_calls plain_vault calls (vault_recs S view v d1))"
    using sealed_vault.run_calls_refine [OF v(2)] by blast
  have canary: "vault_recs S view v d2 CANARY_NAME = Some (utf8_encode CANARY_PLAINTEXT)"
    unfolding d2(3) v(3) using plain_calls_keep [OF assms(7)] by simp
  obtain key where key: "v_key v = Some key" using d2(2) by (auto simp: vault_good_def)
  then have same: "v\<lparr>v_key := Some key\<rparr> = v" by (cases v) simp
  have "deriveKey P pass (v_params v) = Inr key" using v(4) key by simp
  from unlock_eq [OF d2(2) this] obtain d3 where "vault_unlock S P A pass d2 = (d3, Inr v)"
    "view (dev_adapter d3) = view (dev_adapter d2)"
    unfolding same canary by auto
  then have "\<exists>d3. vault_unlock S P A pass d2 = (d3, Inr v) \<and> vault_recs S view v d3 = vault_recs S view v d2"
    using vault_recs_view by blast
  moreover have "\<exists>d3. vault_unlock S P A pass' d2 = (d3, Inl (VaultError ''incorrect passphrase'')) \<and>
      view (dev_adapter d3) = view (dev_adapter d2)"
    if "deriveKey P pass' (v_params v) = Inr key'"
      "vault_recs S view (v\<lparr>v_key := Some key'\<rparr>) d2 CANARY_NAME \<noteq> Some (utf8_encode CANARY_PLAINTEXT)" for pass' key'
    by (rule unlock_eq [OF d2(2) that(1)]) (use that(2) in auto)
  moreover have "snd (vault_create S P A pass' strength' d2) = Inl (VaultError ''a vault already exists in this storage'')" for pass' strength'
  proof -
    from d2(2) obtain raw where raw: "view (dev_adapter d2) PARAMS_KEY = Some raw" "invar (dev_adapter d2)"
      by (auto simp: vault_good_def device_ok_def)
    then obtain a where "ad_get A PARAMS_KEY (dev_adapter d2) = (a, Inr (Some raw))"
      using reliable_adapter.reliable_get [OF assms(3)] by metis
    then show ?thesis by (simp add: vault_create_def vault_exists_def sbind_def on_adapter_def)
  qed
  ultimately show ?thesis using v(1) d2(1) by blast
qed

text \<open>
  Destroying a vault leaves none of its records and no parameters behind and touches no
  other key of the storage; the vault it returns is locked, every call on it is refused with
  nothing read or written, and a new vault can be created.
\<close>

theorem destroy_leaves_nothing:
  assumes "reliable_adapter A invar view" "device_ok invar d"
  shows "\<exists>d' v'. vault_destroy A v d = (d', Inr v') \<and> fresh_storage view d' \<and> vault_locked v' \<and>
     (\<forall>k. k \<noteq> PARAMS_KEY \<longrightarrow> \<not> prefix RECORD_PREFIX k \<longrightarrow> view (dev_adapter d') k = view (dev_adapter d) k) \<and>
     (\<forall>calls. run_calls (vault_ops S A v') calls d' = (d', map (\<lambda>_. Inl VaultLockedError) calls)) \<and>
     (\<forall>P pass strength. aead_law S \<longrightarrow> pwhash_law P \<longrightarrow> pass \<noteq> [] \<longrightarrow> isr (snd (vault_create S P A pass strength d')))"
proof -
  obtain d' where d': "vault_destroy A v d = (d', Inr (vault_lock v))" "device_ok invar d'"
    "view (dev_adapter d') = (\<lambda>k. if k = PARAMS_KEY \<or> prefix RECORD_PREFIX k then None else view (dev_adapter d) k)"
    by (rule destroy_ok [OF assms])
  have fresh: "fresh_storage view d'" using d'(3) by (auto simp: fresh_storage_def prefix_recordKey)
  have "run_call (vault_ops S A (vault_lock v)) c d' = (d', Inl VaultLockedError)" for c
    by (cases c) (simp_all add: vault_ops_def vault_put_def vault_get_def vault_delete_def requireKey_def vault_lock_def sbind_def)
  then have locked: "run_calls (vault_ops S A (vault_lock v)) calls d' = (d', map (\<lambda>_. Inl VaultLockedError) calls)" for calls
    by (induction calls) simp_all
  have "isr (snd (vault_create S P A pass strength d'))" if "aead_law S" "pwhash_law P" "pass \<noteq> []" for P pass strength
    by (rule create_ok [OF that(1,2) assms(1) d'(2) fresh that(3), of strength]) simp
  moreover have "vault_locked (vault_lock v)" by (simp add: vault_locked_def vault_lock_def)
  moreover have "\<forall>k. k \<noteq> PARAMS_KEY \<longrightarrow> \<not> prefix RECORD_PREFIX k \<longrightarrow> view (dev_adapter d') k = view (dev_adapter d) k"
    using d'(3) by simp
  ultimately show ?thesis using d'(1) fresh locked by blast
qed

subsection \<open>An interrupted creation\<close>

text \<open>
  Claim C26. \<open>create\<close> is not atomic: when the write of the parameters goes through and the write of
  the canary is rejected, \<open>create\<close> throws and leaves a vault behind that exists but that no
  passphrase opens. From then on every \<open>create\<close> in that storage is refused because a vault exists
  and every \<open>unlock\<close> fails, so the storage stays unusable until it is cleared by other means.
\<close>

theorem interrupted_create_wedges:
  assumes "aead_law S" "pwhash_law P" "pass \<noteq> []" "\<And>i n. length (dev_random d i n) = n"
    and "dev_adapter d = \<lparr>idb_open = False, idb_store = [], idb_outcomes = [False, False, False, True]\<rparr>"
  shows "\<exists>d1. vault_create S P IndexedDbAdapter pass strength d = (d1, Inl StorageError) \<and>
     (\<forall>pass' strength'. snd (vault_create S P IndexedDbAdapter pass' strength' d1)
        = Inl (VaultError ''a vault already exists in this storage'')) \<and>
     (\<forall>pass'. isl (snd (vault_unlock S P IndexedDbAdapter pass' d1)))"
proof -
  let ?salt = "dev_random d (dev_drawn d) (SALTBYTES P)"
  let ?params = "new_params P strength ?salt"
  let ?raw = "utf8_encode (json_print (params_json ?params))"
  obtain key where key: "deriveKey P pass ?params = Inr key" "length key = 32"
    using derive_new_params [OF assms(2)] assms(4) by metis
  let ?nonce = "dev_random d (Suc (dev_drawn d)) V_NONCE_LENGTH"
  obtain sealed where sl: "aead_encrypt S (utf8_encode CANARY_PLAINTEXT) (utf8_encode CANARY_NAME) ?nonce key = Some sealed"
    by (rule open_sealed [OF assms(1) _ key(2), of ?nonce "utf8_encode CANARY_PLAINTEXT" CANARY_NAME])
      (simp_all add: V_NONCE_LENGTH_def assms(4))
  let ?d = "d\<lparr>dev_adapter := \<lparr>idb_open = True, idb_store = [(PARAMS_KEY, ?raw)], idb_outcomes = []\<rparr>,
              dev_drawn := Suc (Suc (dev_drawn d))\<rparr>"
  have "vault_create S P IndexedDbAdapter pass strength d = (?d, Inl StorageError)"
    using assms(3,5) key(1) sl
    by (simp add: vault_create_def vault_exists_def sbind_def on_adapter_def IndexedDbAdapter_def idb_run_def idb_handle_def
        idb_request_def randombytes_buf_def Let_def putString_def vault_ops_def vault_put_def requireKey_def)
  moreover have "snd (vault_create S P IndexedDbAdapter pass' strength' ?d)
      = Inl (VaultError ''a vault already exists in this storage'')" for pass' strength'
    by (simp add: vault_create_def vault_exists_def sbind_def on_adapter_def IndexedDbAdapter_def idb_run_def idb_handle_def
        idb_request_def)
  moreover have "isl (snd (vault_unlock S P IndexedDbAdapter pass' ?d))" for pass'
    by (cases "deriveKey P pass' ?params")
      (simp_all add: vault_unlock_def sbind_def on_adapter_def IndexedDbAdapter_def idb_run_def idb_handle_def
        idb_request_def read_new_params Let_def or_none_def getString_def vault_ops_def vault_get_def requireKey_def)
  ultimately show ?thesis by blast
qed

subsection \<open>A concrete device\<close>

definition demo_pwhash :: pwhash where
  "demo_pwhash =
     \<lparr>pw_hash = \<lambda>n pass salt ops mem. Some (take n (utf8_encode pass @ replicate n 0)),
      pw_to_base64 = utf8_decode,
      pw_from_base64 = \<lambda>v. (case v of Some (JStr s) \<Rightarrow> Some (utf8_encode s) | _ \<Rightarrow> None),
      SALTBYTES = 16, OPSLIMIT_MODERATE = 3, OPSLIMIT_INTERACTIVE = 2,
      MEMLIMIT_MODERATE = 256, MEMLIMIT_INTERACTIVE = 64\<rparr>"

definition demo_params :: KdfParams where
  "demo_params = new_params demo_pwhash Moderate (replicate 16 0)"

definition demo_vault :: Vault where
  "demo_vault = \<lparr>v_params = demo_params, v_key = Some (replicate 32 5)\<rparr>"

definition empty_device :: "entries device" where
  "empty_device = \<lparr>dev_adapter = [], dev_random = \<lambda>i n. replicate n 7, dev_drawn = 0\<rparr>"

definition demo_device :: "entries device" where
  "demo_device = empty_device\<lparr>dev_adapter := [(PARAMS_KEY, utf8_encode (json_print (params_json demo_params)))]\<rparr>"

definition demo_idb :: "IndexedDb device" where
  "demo_idb = \<lparr>dev_adapter = \<lparr>idb_open = False, idb_store = [], idb_outcomes = [False, False, False, True]\<rparr>,
               dev_random = \<lambda>i n. replicate n 7, dev_drawn = 0\<rparr>"

lemma demo_pwhash_law: "pwhash_law demo_pwhash"
  by (auto simp: pwhash_law_def demo_pwhash_def)

lemma empty_device_ok: "device_ok distinct_keys empty_device" "fresh_storage map_of empty_device"
  by (simp_all add: device_ok_def fresh_storage_def empty_device_def)

lemma memory_reliable: "reliable_adapter MemoryAdapter distinct_keys map_of"
  by unfold_locales

lemma demo_vault_good: "vault_good demo_sodium MemoryAdapter distinct_keys map_of demo_vault demo_device"
  using demo_aead_law read_new_params
  by (auto simp: vault_good_def memory_reliable device_ok_def demo_device_def empty_device_def demo_vault_def demo_params_def)

lemma demo_vault_empty: "vault_recs demo_sodium map_of demo_vault demo_device = Map.empty"
  by (rule ext) (simp add: vault_recs_def demo_vault_def demo_device_def empty_device_def)

theorem vault_refines_map_witness:
  "\<exists>d'. run_calls (vault_ops demo_sodium MemoryAdapter demo_vault)
     [PutCall ''identity'' [1, 2], GetCall ''identity'', DeleteCall ''identity'', GetCall ''identity''] demo_device
     = (d', [Inr None, Inr (Some [1, 2]), Inr None, Inr None])"
  using vault_refines_map [OF demo_vault_good, of "[PutCall ''identity'' [1, 2], GetCall ''identity'',
      DeleteCall ''identity'', GetCall ''identity'']"]
  by (auto simp: demo_vault_empty simp del: run_call.simps)

theorem passphrase_unlocks_witness:
  "\<exists>d1 v. vault_create demo_sodium demo_pwhash MemoryAdapter ''hunter2'' Moderate empty_device = (d1, Inr v) \<and>
     (\<exists>d2 outs d3. run_calls (vault_ops demo_sodium MemoryAdapter v) [PutCall ''identity'' [1, 2]] d1 = (d2, outs) \<and>
        vault_unlock demo_sodium demo_pwhash MemoryAdapter ''hunter2'' d2 = (d3, Inr v))"
proof -
  have "\<forall>c\<in>set [PutCall ''identity'' [1, 2]]. call_name c \<noteq> CANARY_NAME" by (simp add: CANARY_NAME_def)
  from passphrase_unlocks [OF demo_aead_law demo_pwhash_law memory_reliable empty_device_ok, of "''hunter2''", OF _ this]
  show ?thesis by blast
qed

theorem destroy_leaves_nothing_witness:
  "\<exists>d' v'. vault_destroy MemoryAdapter demo_vault demo_device = (d', Inr v') \<and> fresh_storage map_of d' \<and> vault_locked v'"
proof -
  have "device_ok distinct_keys demo_device" using demo_vault_good by (simp add: vault_good_def)
  from destroy_leaves_nothing [OF memory_reliable this] show ?thesis by blast
qed

theorem interrupted_create_wedges_witness:
  "\<exists>d1. vault_create demo_sodium demo_pwhash IndexedDbAdapter ''hunter2'' Moderate demo_idb = (d1, Inl StorageError) \<and>
     (\<forall>pass'. isl (snd (vault_unlock demo_sodium demo_pwhash IndexedDbAdapter pass' d1)))"
  using interrupted_create_wedges [OF demo_aead_law demo_pwhash_law, of "''hunter2''" demo_idb Moderate]
  by (auto simp: demo_idb_def)

end
