(* ===== verification/Chat_Store.thy ===== *)
theory Chat_Store
  imports Chat_Types Vault
begin

section \<open>Chat store (\<open>store/chat.ts\<close>)\<close>

text \<open>
  The vault with the shapes the client needs. Every operation takes the vault it was built on and
  is an effect on the device. \<open>serialize(key, work)\<close> runs the pieces of work for one key one after
  the other, so a \<open>work\<close> is one uninterrupted effect; where a method does something outside such a
  piece (\<open>incrementUnread\<close> reads before it) the parts are separate definitions, and the method is
  their sequence. The comparators subtract timestamps: \<open>undefined\<close> gives \<open>NaN\<close>, which \<open>sort\<close> takes as
  equal; on such input the standard leaves the order open and \<open>js_sort\<close> is insertion by scanning.
\<close>

definition IDENTITY_KEY :: string where "IDENTITY_KEY = ''identity''"
definition CONVERSATIONS_KEY :: string where "CONVERSATIONS_KEY = ''conversations''"

definition sessionKey :: "string \<Rightarrow> string" where "sessionKey i = ''session:'' @ i"
definition groupKey :: "string \<Rightarrow> string" where "groupKey i = ''group:'' @ i"
definition historyKey :: "string \<Rightarrow> string" where "historyKey i = ''history:'' @ i"
definition blobKey :: "string \<Rightarrow> string" where "blobKey r = ''blob:'' @ r"

text \<open>\<open>(await getJSON(key)) as T\<close>: a JSON value that is not a \<open>T\<close> has no counterpart here.\<close>

definition read_as :: "(json \<Rightarrow> 'a option) \<Rightarrow> json option \<Rightarrow> 'a option result" where
  "read_as f v =
     (case v of None \<Rightarrow> Inr None | Some j \<Rightarrow> (case f j of None \<Rightarrow> Inl TypeError | Some x \<Rightarrow> Inr (Some x)))"

text \<open>\<open>(await getJSON<T[]>(key)) ?? []\<close>.\<close>

definition read_list :: "(json \<Rightarrow> 'a option) \<Rightarrow> json option \<Rightarrow> 'a list result" where
  "read_list f v =
     (case v of None \<Rightarrow> Inr [] | Some JNull \<Rightarrow> Inr [] | Some (JArr js) \<Rightarrow> of_option TypeError (read_all f js)
      | Some _ \<Rightarrow> Inl TypeError)"

definition getList :: "'d VaultOps \<Rightarrow> string \<Rightarrow> (json \<Rightarrow> 'a option) \<Rightarrow> ('d, 'a list) effect" where
  "getList V key f = sbind (getJSON V key) (\<lambda>j. slift (read_list f j))"

definition getRecord :: "'d VaultOps \<Rightarrow> string \<Rightarrow> (json \<Rightarrow> 'a option) \<Rightarrow> ('d, 'a option) effect" where
  "getRecord V key f = sbind (getJSON V key) (\<lambda>j. slift (read_as f j))"

fun js_insert :: "('a \<Rightarrow> 'a \<Rightarrow> bool) \<Rightarrow> 'a \<Rightarrow> 'a list \<Rightarrow> 'a list" where
  "js_insert after x [] = [x]"
| "js_insert after x (y # ys) = (if after y x then x # y # ys else y # js_insert after x ys)"

definition js_sort :: "('a \<Rightarrow> 'a \<Rightarrow> bool) \<Rightarrow> 'a list \<Rightarrow> 'a list" where
  "js_sort after xs = foldl (\<lambda>acc x. js_insert after x acc) [] xs"

text \<open>\<open>findIndex\<close> followed by an update in place.\<close>

fun update_first :: "('a \<Rightarrow> bool) \<Rightarrow> ('a \<Rightarrow> 'a) \<Rightarrow> 'a list \<Rightarrow> 'a list" where
  "update_first P f [] = []"
| "update_first P f (x # xs) = (if P x then f x # xs else x # update_first P f xs)"

subsection \<open>Identity and sessions\<close>

definition saveIdentity :: "'d VaultOps \<Rightarrow> StoredIdentity \<Rightarrow> ('d, unit) effect" where
  "saveIdentity V identity = putJSON V IDENTITY_KEY (identity_json identity)"

definition loadIdentity :: "'d VaultOps \<Rightarrow> ('d, StoredIdentity option) effect" where
  "loadIdentity V = getRecord V IDENTITY_KEY read_identity"

definition saveSession :: "'d VaultOps \<Rightarrow> string \<Rightarrow> Session \<Rightarrow> ('d, unit) effect" where
  "saveSession V conversationId session = putJSON V (sessionKey conversationId) (serializeSession session)"

definition loadSession :: "'d VaultOps \<Rightarrow> string \<Rightarrow> ('d, Session option) effect" where
  "loadSession V conversationId =
     sbind (getJSON V (sessionKey conversationId)) (\<lambda>raw. slift (case raw of
       None \<Rightarrow> Inr None
     | Some j \<Rightarrow> rbind (deserializeSession j) (\<lambda>s. Inr (Some s))))"

definition deleteSession :: "'d VaultOps \<Rightarrow> string \<Rightarrow> ('d, unit) effect" where
  "deleteSession V conversationId = vo_delete V (sessionKey conversationId)"

subsection \<open>Conversations\<close>

definition stored_conversations :: "'d VaultOps \<Rightarrow> ('d, Conversation list) effect" where
  "stored_conversations V = getList V CONVERSATIONS_KEY read_conversation"

definition put_conversations :: "'d VaultOps \<Rightarrow> Conversation list \<Rightarrow> ('d, unit) effect" where
  "put_conversations V cs = putJSON V CONVERSATIONS_KEY (JArr (map conversation_json cs))"

definition before :: "number option \<Rightarrow> number option \<Rightarrow> bool" where
  "before a b = (case (a, b) of (Some x, Some y) \<Rightarrow> x < y | _ \<Rightarrow> False)"

text \<open>\<open>after y x\<close>: the comparator puts \<open>y\<close> strictly behind \<open>x\<close>.\<close>

definition newest_first :: "Conversation list \<Rightarrow> Conversation list" where
  "newest_first = js_sort (\<lambda>y x. before (c_lastActivity y) (c_lastActivity x))"

definition listConversations :: "'d VaultOps \<Rightarrow> ('d, Conversation list) effect" where
  "listConversations V = sbind (stored_conversations V) (\<lambda>cs. sreturn (newest_first cs))"

definition getConversation :: "'d VaultOps \<Rightarrow> string \<Rightarrow> ('d, Conversation option) effect" where
  "getConversation V cid = sbind (listConversations V) (\<lambda>cs. sreturn (find (\<lambda>c. c_id c = cid) cs))"

definition new_conversation :: "string \<Rightarrow> Conversation" where
  "new_conversation cid =
     \<lparr>c_id = cid, c_displayName = None, c_lastActivity = Some 0, c_unreadCount = 0, c_typingUntil = None,
      c_isGroup = None, c_peerIdentityKey = None, c_verifiedIdentityKey = None, c_identityChangedFrom = None\<rparr>"

text \<open>\<open>{ ...existing, ...patch, id }\<close>, the patch being the fields the caller names.\<close>

definition patched :: "string \<Rightarrow> (Conversation \<Rightarrow> Conversation) \<Rightarrow> Conversation \<Rightarrow> Conversation" where
  "patched cid patch c = (patch c)\<lparr>c_id := cid\<rparr>"

definition existing_conversation :: "string \<Rightarrow> Conversation list \<Rightarrow> Conversation" where
  "existing_conversation cid cs =
     (case find (\<lambda>c. c_id c = cid) cs of None \<Rightarrow> new_conversation cid | Some c \<Rightarrow> c)"

definition upsert :: "string \<Rightarrow> (Conversation \<Rightarrow> Conversation) \<Rightarrow> Conversation list \<Rightarrow> Conversation list" where
  "upsert cid patch cs =
     (if \<exists>c\<in>set cs. c_id c = cid then update_first (\<lambda>c. c_id c = cid) (patched cid patch) cs
      else cs @ [patched cid patch (new_conversation cid)])"

definition upsertConversation ::
  "'d VaultOps \<Rightarrow> string \<Rightarrow> (Conversation \<Rightarrow> Conversation) \<Rightarrow> ('d, Conversation) effect" where
  "upsertConversation V cid patch =
     sbind (stored_conversations V) (\<lambda>cs.
     sbind (put_conversations V (upsert cid patch cs)) (\<lambda>_.
     sreturn (patched cid patch (existing_conversation cid cs))))"

definition store_deleteConversation :: "'d VaultOps \<Rightarrow> string \<Rightarrow> ('d, unit) effect" where
  "store_deleteConversation V cid =
     sbind (stored_conversations V) (\<lambda>cs.
     sbind (put_conversations V (filter (\<lambda>c. c_id c \<noteq> cid) cs)) (\<lambda>_.
     sbind (vo_delete V (historyKey cid)) (\<lambda>_.
     sbind (vo_delete V (sessionKey cid)) (\<lambda>_.
     vo_delete V (groupKey cid)))))"

subsection \<open>Messages\<close>

definition stored_history :: "'d VaultOps \<Rightarrow> string \<Rightarrow> ('d, StoredMessage list) effect" where
  "stored_history V cid = getList V (historyKey cid) read_stored_message"

definition put_history :: "'d VaultOps \<Rightarrow> string \<Rightarrow> StoredMessage list \<Rightarrow> ('d, unit) effect" where
  "put_history V cid ms = putJSON V (historyKey cid) (JArr (map message_json ms))"

definition oldest_first :: "StoredMessage list \<Rightarrow> StoredMessage list" where
  "oldest_first = js_sort (\<lambda>y x. before (m_timestamp x) (m_timestamp y))"

definition listMessages :: "'d VaultOps \<Rightarrow> string \<Rightarrow> ('d, StoredMessage list) effect" where
  "listMessages V cid = sbind (stored_history V cid) (\<lambda>h. sreturn (oldest_first h))"

text \<open>
  \<open>{ ...history[index], ...message }\<close>: an optional field the new message does not have keeps its old
  value. No caller passes such a field as an explicit \<open>undefined\<close>; \<open>timestamp\<close> is always passed.
\<close>

definition or_else :: "'a option \<Rightarrow> 'a option \<Rightarrow> 'a option" where
  "or_else x y = (case x of None \<Rightarrow> y | Some _ \<Rightarrow> x)"

definition merge_message :: "StoredMessage \<Rightarrow> StoredMessage \<Rightarrow> StoredMessage" where
  "merge_message message old =
     message\<lparr>m_envelopeId := or_else (m_envelopeId message) (m_envelopeId old),
             m_attachment := or_else (m_attachment message) (m_attachment old),
             m_deletedAt := or_else (m_deletedAt message) (m_deletedAt old),
             m_senderId := or_else (m_senderId message) (m_senderId old),
             m_reactions := or_else (m_reactions message) (m_reactions old)\<rparr>"

definition append_history :: "StoredMessage \<Rightarrow> StoredMessage list \<Rightarrow> StoredMessage list" where
  "append_history message h =
     (if \<exists>m\<in>set h. m_id m = m_id message
      then update_first (\<lambda>m. m_id m = m_id message) (merge_message message) h
      else h @ [message])"

definition appendMessage :: "'d VaultOps \<Rightarrow> StoredMessage \<Rightarrow> ('d, unit) effect" where
  "appendMessage V message =
     sbind (stored_history V (m_conversationId message)) (\<lambda>h.
     sbind (put_history V (m_conversationId message) (append_history message h)) (\<lambda>_.
     sbind (upsertConversation V (m_conversationId message) (\<lambda>c. c\<lparr>c_lastActivity := m_timestamp message\<rparr>)) (\<lambda>_.
     sreturn ())))"

definition patchMessage ::
  "'d VaultOps \<Rightarrow> string \<Rightarrow> string \<Rightarrow> (StoredMessage \<Rightarrow> StoredMessage) \<Rightarrow> ('d, unit) effect" where
  "patchMessage V conversationId messageId patch =
     sbind (stored_history V conversationId) (\<lambda>h.
     if \<exists>m\<in>set h. m_id m = messageId
     then put_history V conversationId (update_first (\<lambda>m. m_id m = messageId) patch h)
     else sreturn ())"

definition status_patch :: "MessageStatus \<Rightarrow> string option \<Rightarrow> StoredMessage \<Rightarrow> StoredMessage" where
  "status_patch status envelopeId m =
     m\<lparr>m_status := status, m_envelopeId := or_else envelopeId (m_envelopeId m)\<rparr>"

definition setMessageStatus ::
  "'d VaultOps \<Rightarrow> string \<Rightarrow> string \<Rightarrow> MessageStatus \<Rightarrow> string option \<Rightarrow> ('d, unit) effect" where
  "setMessageStatus V conversationId messageId status envelopeId =
     patchMessage V conversationId messageId (status_patch status envelopeId)"

definition tombstone :: "number option \<Rightarrow> StoredMessage \<Rightarrow> StoredMessage" where
  "tombstone stamp m = m\<lparr>m_body := [], m_attachment := None, m_deletedAt := stamp\<rparr>"

definition markDeleted :: "'d VaultOps \<Rightarrow> string \<Rightarrow> string \<Rightarrow> number option \<Rightarrow> ('d, unit) effect" where
  "markDeleted V conversationId messageId stamp = patchMessage V conversationId messageId (tombstone stamp)"

definition react_patch :: "string \<Rightarrow> string \<Rightarrow> bool \<Rightarrow> StoredMessage \<Rightarrow> StoredMessage" where
  "react_patch emoji account active m =
     (let reactions = (case m_reactions m of None \<Rightarrow> [] | Some rs \<Rightarrow> rs);
          before = set_from (case map_of reactions emoji of None \<Rightarrow> [] | Some who \<Rightarrow> who);
          reacted = (if active then set_add account before else filter (\<lambda>a. a \<noteq> account) before)
      in m\<lparr>m_reactions := Some (if reacted = [] then AList.delete emoji reactions
                                else AList.update emoji (sort reacted) reactions)\<rparr>)"

definition setReaction :: "'d VaultOps \<Rightarrow> string \<Rightarrow> string \<Rightarrow> string \<Rightarrow> string \<Rightarrow> bool \<Rightarrow> ('d, unit) effect" where
  "setReaction V conversationId messageId emoji account active =
     patchMessage V conversationId messageId (react_patch emoji account active)"

subsection \<open>Unread counts, groups and attachments\<close>

definition unread_of :: "'d VaultOps \<Rightarrow> string \<Rightarrow> ('d, nat) effect" where
  "unread_of V conversationId =
     sbind (getConversation V conversationId) (\<lambda>c.
     sreturn (case c of None \<Rightarrow> 0 | Some c \<Rightarrow> c_unreadCount c))"

definition write_unread :: "'d VaultOps \<Rightarrow> string \<Rightarrow> nat \<Rightarrow> ('d, unit) effect" where
  "write_unread V conversationId n =
     sbind (upsertConversation V conversationId (\<lambda>c. c\<lparr>c_unreadCount := n\<rparr>)) (\<lambda>_. sreturn ())"

definition incrementUnread :: "'d VaultOps \<Rightarrow> string \<Rightarrow> ('d, unit) effect" where
  "incrementUnread V conversationId =
     sbind (unread_of V conversationId) (\<lambda>n. write_unread V conversationId (n + 1))"

definition clearUnread :: "'d VaultOps \<Rightarrow> string \<Rightarrow> ('d, unit) effect" where
  "clearUnread V conversationId = write_unread V conversationId 0"

definition saveGroup :: "'d VaultOps \<Rightarrow> GroupState \<Rightarrow> ('d, unit) effect" where
  "saveGroup V state = putJSON V (groupKey (g_id state)) (group_json state)"

definition loadGroup :: "'d VaultOps \<Rightarrow> string \<Rightarrow> ('d, GroupState option) effect" where
  "loadGroup V groupId = getRecord V (groupKey groupId) read_group"

definition deleteGroup :: "'d VaultOps \<Rightarrow> string \<Rightarrow> ('d, unit) effect" where
  "deleteGroup V groupId = vo_delete V (groupKey groupId)"

definition saveAttachment :: "'d VaultOps \<Rightarrow> string \<Rightarrow> bytes \<Rightarrow> ('d, unit) effect" where
  "saveAttachment V ref content = vo_put V (blobKey ref) content"

definition loadAttachment :: "'d VaultOps \<Rightarrow> string \<Rightarrow> ('d, bytes option) effect" where
  "loadAttachment V ref = vo_get V (blobKey ref)"

definition deleteAttachment :: "'d VaultOps \<Rightarrow> string \<Rightarrow> ('d, unit) effect" where
  "deleteAttachment V ref = vo_delete V (blobKey ref)"

subsection \<open>The data model behind the records\<close>

text \<open>
  What the store means: typed data, without vault, JSON or bytes. \<open>chat_rep R M\<close> says that the
  records \<open>R\<close> hold the model \<open>M\<close>; every operation of the store is shown to act on the model the way
  its name says (\<open>implements\<close>).
\<close>

record chat_model =
  cm_identity :: "StoredIdentity option"
  cm_convs :: "Conversation list"
  cm_hist :: "string \<Rightarrow> StoredMessage list"
  cm_sessions :: "string \<Rightarrow> Session option"
  cm_groups :: "string \<Rightarrow> GroupState option"
  cm_blobs :: "string \<Rightarrow> bytes option"

definition list_at :: "(json \<Rightarrow> 'a option) \<Rightarrow> (string \<Rightarrow> bytes option) \<Rightarrow> string \<Rightarrow> 'a list result" where
  "list_at f R key = rbind (json_of R key) (read_list f)"

definition record_at :: "(json \<Rightarrow> 'a option) \<Rightarrow> (string \<Rightarrow> bytes option) \<Rightarrow> string \<Rightarrow> 'a option result" where
  "record_at f R key = rbind (json_of R key) (read_as f)"

definition session_at :: "(string \<Rightarrow> bytes option) \<Rightarrow> string \<Rightarrow> Session option result" where
  "session_at R key =
     rbind (json_of R key) (\<lambda>raw. case raw of None \<Rightarrow> Inr None | Some j \<Rightarrow> rbind (deserializeSession j) (\<lambda>s. Inr (Some s)))"

definition chat_rep :: "(string \<Rightarrow> bytes option) \<Rightarrow> chat_model \<Rightarrow> bool" where
  "chat_rep R M \<longleftrightarrow>
     record_at read_identity R IDENTITY_KEY = Inr (cm_identity M) \<and>
     list_at read_conversation R CONVERSATIONS_KEY = Inr (cm_convs M) \<and> list_all conversation_ok (cm_convs M) \<and>
     (\<forall>i. list_at read_stored_message R (historyKey i) = Inr (cm_hist M i) \<and> list_all message_ok (cm_hist M i)) \<and>
     (\<forall>i. session_at R (sessionKey i) = Inr (cm_sessions M i)) \<and>
     (\<forall>i. record_at read_group R (groupKey i) = Inr (cm_groups M i)) \<and>
     (\<forall>r. R (blobKey r) = cm_blobs M r)"

definition implements :: "('d \<Rightarrow> 'm \<Rightarrow> bool) \<Rightarrow> ('d, 'b) effect \<Rightarrow> 'm \<Rightarrow> 'b result \<Rightarrow> 'm \<Rightarrow> bool" where
  "implements rel m M r M' \<longleftrightarrow> (\<forall>d. rel d M \<longrightarrow> (\<exists>d'. m d = (d', r) \<and> rel d' M'))"

definition chat_state :: "('d \<Rightarrow> bool) \<Rightarrow> ('d \<Rightarrow> string \<Rightarrow> bytes option) \<Rightarrow> 'd \<Rightarrow> chat_model \<Rightarrow> bool" where
  "chat_state good recs d M \<longleftrightarrow> good d \<and> chat_rep (recs d) M"

lemma implements_pure: "implements rel (sreturn x) M (Inr x) M" "implements rel (slift r) M r M"
  by (simp_all add: implements_def)

lemma implements_bind:
  "implements rel m M (Inr x) M1 \<Longrightarrow> implements rel (f x) M1 r M2 \<Longrightarrow> implements rel (sbind m f) M r M2"
  unfolding implements_def by (metis sbind_Inr)

lemma implements_bind_error:
  "implements rel m M (Inl e) M1 \<Longrightarrow> implements rel (sbind m f) M (Inl e) M1"
  unfolding implements_def by (metis sbind_Inl)

lemma implements_to: "implements rel m M r M1 \<Longrightarrow> M1 = M2 \<Longrightarrow> implements rel m M r M2"
  by simp

lemma implementsE:
  assumes "implements rel m M r M'" "rel d M"
  obtains d' where "m d = (d', r)" "rel d' M'"
  using assms unfolding implements_def by blast

lemma implements_steps:
  assumes "\<And>R. chat_rep R M \<Longrightarrow> \<exists>R'. steps good recs m R r R' \<and> chat_rep R' M'"
  shows "implements (chat_state good recs) m M r M'"
  unfolding implements_def chat_state_def
proof (intro allI impI)
  fix d assume d: "good d \<and> chat_rep (recs d) M"
  then obtain R' where "steps good recs m (recs d) r R'" "chat_rep R' M'" using assms by blast
  then show "\<exists>d'. m d = (d', r) \<and> good d' \<and> chat_rep (recs d') M'" using d unfolding steps_def by blast
qed

text \<open>The records do not get into each other's way.\<close>

lemmas key_defs = IDENTITY_KEY_def CONVERSATIONS_KEY_def sessionKey_def groupKey_def historyKey_def blobKey_def

lemma keys_differ [simp]:
  "IDENTITY_KEY \<noteq> CONVERSATIONS_KEY" "IDENTITY_KEY \<noteq> sessionKey i" "IDENTITY_KEY \<noteq> groupKey i"
  "IDENTITY_KEY \<noteq> historyKey i" "IDENTITY_KEY \<noteq> blobKey i" "CONVERSATIONS_KEY \<noteq> IDENTITY_KEY"
  "CONVERSATIONS_KEY \<noteq> sessionKey i" "CONVERSATIONS_KEY \<noteq> groupKey i" "CONVERSATIONS_KEY \<noteq> historyKey i"
  "CONVERSATIONS_KEY \<noteq> blobKey i"
  "sessionKey i \<noteq> IDENTITY_KEY" "sessionKey i \<noteq> CONVERSATIONS_KEY" "sessionKey i \<noteq> groupKey j"
  "sessionKey i \<noteq> historyKey j" "sessionKey i \<noteq> blobKey j"
  "groupKey i \<noteq> IDENTITY_KEY" "groupKey i \<noteq> CONVERSATIONS_KEY" "groupKey i \<noteq> sessionKey j"
  "groupKey i \<noteq> historyKey j" "groupKey i \<noteq> blobKey j"
  "historyKey i \<noteq> IDENTITY_KEY" "historyKey i \<noteq> CONVERSATIONS_KEY" "historyKey i \<noteq> sessionKey j"
  "historyKey i \<noteq> groupKey j" "historyKey i \<noteq> blobKey j"
  "blobKey i \<noteq> IDENTITY_KEY" "blobKey i \<noteq> CONVERSATIONS_KEY" "blobKey i \<noteq> sessionKey j" "blobKey i \<noteq> groupKey j"
  "blobKey i \<noteq> historyKey j"
  by (simp_all add: key_defs)

lemma keys_inject [simp]:
  "sessionKey i = sessionKey j \<longleftrightarrow> i = j" "groupKey i = groupKey j \<longleftrightarrow> i = j" "historyKey i = historyKey j \<longleftrightarrow> i = j"
  "blobKey i = blobKey j \<longleftrightarrow> i = j"
  by (simp_all add: key_defs)

lemma at_other [simp]:
  assumes "key' \<noteq> key"
  shows "list_at f (put_json key j R) key' = list_at f R key'" "record_at g (put_json key j R) key' = record_at g R key'"
    "session_at (put_json key j R) key' = session_at R key'"
    "list_at f (R(key \<mapsto> x)) key' = list_at f R key'" "record_at g (R(key \<mapsto> x)) key' = record_at g R key'"
    "session_at (R(key \<mapsto> x)) key' = session_at R key'"
    "list_at f (R(key := None)) key' = list_at f R key'" "record_at g (R(key := None)) key' = record_at g R key'"
    "session_at (R(key := None)) key' = session_at R key'" "put_json key j R key' = R key'"
  using assms by (simp_all add: list_at_def record_at_def session_at_def put_json_def)

lemma at_same [simp]:
  "json_ok j \<Longrightarrow> f j = Some x \<Longrightarrow> record_at f (put_json key j R) key = Inr (Some x)"
  "json_ok j \<Longrightarrow> deserializeSession j = Inr s \<Longrightarrow> session_at (put_json key j R) key = Inr (Some s)"
  "list_at g (R(key := None)) key = Inr []" "record_at h (R(key := None)) key = Inr None"
  "session_at (R(key := None)) key = Inr None"
  by (simp_all add: record_at_def session_at_def list_at_def read_as_def read_list_def)

lemma list_at_put:
  assumes "\<And>x. x \<in> set xs \<Longrightarrow> json_ok (w x)" "\<And>x. f (w x) = Some x"
  shows "list_at f (put_json key (JArr (map w xs)) R) key = Inr xs"
proof -
  have "json_of (put_json key (JArr (map w xs)) R) key = Inr (Some (JArr (map w xs)))"
    using assms(1) by (intro json_of_put) simp
  then show ?thesis using read_all_map [of xs f w] assms(2) by (simp add: list_at_def read_list_def)
qed

subsection \<open>The store implements the model\<close>

text \<open>Facts about the pure list operations that keep the model well formed.\<close>

lemma list_all_update_first:
  "list_all Q xs \<Longrightarrow> (\<And>x. Q x \<Longrightarrow> Q (f x)) \<Longrightarrow> list_all Q (update_first P f xs)"
  by (induction xs) auto

lemma conversation_ok_new [simp]: "conversation_ok (new_conversation cid)"
  by (simp add: conversation_ok_def new_conversation_def opt_num_ok_def num_ok_of_nat [of 0, simplified])

lemma conversation_ok_patched: "(\<And>c. conversation_ok c \<Longrightarrow> conversation_ok (patch c)) \<Longrightarrow>
    conversation_ok c \<Longrightarrow> conversation_ok (patched cid patch c)"
  by (simp add: patched_def conversation_ok_def)

lemma upsert_ok:
  "list_all conversation_ok cs \<Longrightarrow> (\<And>c. conversation_ok c \<Longrightarrow> conversation_ok (patch c)) \<Longrightarrow>
   list_all conversation_ok (upsert cid patch cs)"
  by (auto simp: upsert_def intro!: list_all_update_first conversation_ok_patched)

lemma merge_ok: "message_ok m \<Longrightarrow> message_ok old \<Longrightarrow> message_ok (merge_message m old)"
  by (auto simp: message_ok_def merge_message_def or_else_def split: option.splits)

lemma append_history_ok: "list_all message_ok h \<Longrightarrow> message_ok m \<Longrightarrow> list_all message_ok (append_history m h)"
  by (auto simp: append_history_def intro!: list_all_update_first merge_ok)

lemma patch_ok [simp]:
  "message_ok m \<Longrightarrow> message_ok (status_patch st e m)" "message_ok m \<Longrightarrow> opt_num_ok t \<Longrightarrow> message_ok (tombstone t m)"
  by (simp_all add: message_ok_def status_patch_def tombstone_def)

lemma react_ok [simp]: "message_ok m \<Longrightarrow> message_ok (react_patch emoji who active m)"
  by (auto simp: message_ok_def react_patch_def Let_def distinct_update distinct_delete split: option.splits)

lemma chat_rep_put_convs:
  "chat_rep R M \<Longrightarrow> list_all conversation_ok cs \<Longrightarrow>
   chat_rep (put_json CONVERSATIONS_KEY (JArr (map conversation_json cs)) R) (M\<lparr>cm_convs := cs\<rparr>)"
  by (simp add: chat_rep_def list_at_put json_ok_conversation list_all_iff)

lemma chat_rep_put_history:
  "chat_rep R M \<Longrightarrow> list_all message_ok ms \<Longrightarrow>
   chat_rep (put_json (historyKey i) (JArr (map message_json ms)) R) (M\<lparr>cm_hist := (cm_hist M)(i := ms)\<rparr>)"
  by (simp add: chat_rep_def list_at_put json_ok_message list_all_iff)

lemma chat_rep_put_session:
  "chat_rep R M \<Longrightarrow> storable s \<Longrightarrow>
   chat_rep (put_json (sessionKey i) (serializeSession s) R) (M\<lparr>cm_sessions := (cm_sessions M)(i \<mapsto> s)\<rparr>)"
  by (simp add: chat_rep_def deserialize_serialize json_ok_serializeSession)

lemma chat_rep_put_group:
  "chat_rep R M \<Longrightarrow> group_ok g \<Longrightarrow>
   chat_rep (put_json (groupKey i) (group_json g) R) (M\<lparr>cm_groups := (cm_groups M)(i \<mapsto> g)\<rparr>)"
  by (simp add: chat_rep_def json_ok_group)

lemma chat_rep_put_identity:
  "chat_rep R M \<Longrightarrow> stored_identity_ok s \<Longrightarrow>
   chat_rep (put_json IDENTITY_KEY (identity_json s) R) (M\<lparr>cm_identity := Some s\<rparr>)"
  by (simp add: chat_rep_def json_ok_identity)

lemma chat_rep_blob: "chat_rep R M \<Longrightarrow> chat_rep (R(blobKey r := x)) (M\<lparr>cm_blobs := (cm_blobs M)(r := x)\<rparr>)"
  by (cases x) (simp_all add: chat_rep_def)

lemma chat_rep_delete:
  "chat_rep R M \<Longrightarrow> chat_rep (R(historyKey i := None)) (M\<lparr>cm_hist := (cm_hist M)(i := [])\<rparr>)"
  "chat_rep R M \<Longrightarrow> chat_rep (R(sessionKey i := None)) (M\<lparr>cm_sessions := (cm_sessions M)(i := None)\<rparr>)"
  "chat_rep R M \<Longrightarrow> chat_rep (R(groupKey i := None)) (M\<lparr>cm_groups := (cm_groups M)(i := None)\<rparr>)"
  by (simp_all add: chat_rep_def)

context record_vault
begin

lemma getList_step:
  assumes "list_at f R key = Inr xs"
  shows "steps good recs (getList V key f) R (Inr xs) R"
proof -
  obtain j where "json_of R key = Inr j" "read_list f j = Inr xs" using assms by (auto simp: list_at_def rbind_eq_Inr)
  then show ?thesis unfolding getList_def using getJSON_step [of key R] by (metis steps_bind steps_pure(2))
qed

lemma getRecord_step:
  assumes "record_at f R key = Inr x"
  shows "steps good recs (getRecord V key f) R (Inr x) R"
proof -
  obtain j where "json_of R key = Inr j" "read_as f j = Inr x" using assms by (auto simp: record_at_def rbind_eq_Inr)
  then show ?thesis unfolding getRecord_def using getJSON_step [of key R] by (metis steps_bind steps_pure(2))
qed

lemma loadSession_step:
  assumes "session_at R (sessionKey i) = Inr x"
  shows "steps good recs (loadSession V i) R (Inr x) R"
proof -
  obtain j where j: "json_of R (sessionKey i) = Inr j"
    "(case j of None \<Rightarrow> Inr None | Some j \<Rightarrow> rbind (deserializeSession j) (\<lambda>s. Inr (Some s))) = Inr x"
    using assms unfolding session_at_def rbind_eq_Inr by blast
  have "steps good recs (getJSON V (sessionKey i)) R (Inr j) R" using getJSON_step [of "sessionKey i" R] j(1) by simp
  then show ?thesis unfolding loadSession_def by (rule steps_bind) (simp only: j(2) steps_pure(2))
qed

text \<open>Reads.\<close>

lemma convs_impl: "implements (chat_state good recs) (stored_conversations V) M (Inr (cm_convs M)) M"
  unfolding stored_conversations_def by (rule implements_steps) (metis chat_rep_def getList_step)

lemma hist_impl: "implements (chat_state good recs) (stored_history V i) M (Inr (cm_hist M i)) M"
  unfolding stored_history_def by (rule implements_steps) (metis chat_rep_def getList_step)

lemma listMessages_impl: "implements (chat_state good recs) (listMessages V i) M (Inr (oldest_first (cm_hist M i))) M"
  unfolding listMessages_def by (rule implements_bind [OF hist_impl implements_pure(1)])

lemma listConversations_impl:
  "implements (chat_state good recs) (listConversations V) M (Inr (newest_first (cm_convs M))) M"
  unfolding listConversations_def by (rule implements_bind [OF convs_impl implements_pure(1)])

lemma getConversation_impl:
  "implements (chat_state good recs) (getConversation V i) M (Inr (find (\<lambda>c. c_id c = i) (newest_first (cm_convs M)))) M"
  unfolding getConversation_def by (rule implements_bind [OF listConversations_impl implements_pure(1)])

lemma loadSession_impl: "implements (chat_state good recs) (loadSession V i) M (Inr (cm_sessions M i)) M"
  by (rule implements_steps) (metis chat_rep_def loadSession_step)

lemma loadGroup_impl: "implements (chat_state good recs) (loadGroup V i) M (Inr (cm_groups M i)) M"
  unfolding loadGroup_def by (rule implements_steps) (metis chat_rep_def getRecord_step)

lemma loadIdentity_impl: "implements (chat_state good recs) (loadIdentity V) M (Inr (cm_identity M)) M"
  unfolding loadIdentity_def by (rule implements_steps) (metis chat_rep_def getRecord_step)

lemma loadAttachment_impl: "implements (chat_state good recs) (loadAttachment V r) M (Inr (cm_blobs M r)) M"
  unfolding loadAttachment_def
proof (rule implements_steps)
  fix R assume "chat_rep R M"
  then have "steps good recs (vo_get V (blobKey r)) R (Inr (cm_blobs M r)) R \<and> chat_rep R M"
    using get_law [of "blobKey r" R] by (simp add: chat_rep_def)
  then show "\<exists>R'. steps good recs (vo_get V (blobKey r)) R (Inr (cm_blobs M r)) R' \<and> chat_rep R' M" by blast
qed

text \<open>Writes.\<close>

lemma put_conversations_impl:
  "list_all conversation_ok cs \<Longrightarrow>
   implements (chat_state good recs) (put_conversations V cs) M (Inr ()) (M\<lparr>cm_convs := cs\<rparr>)"
  unfolding put_conversations_def by (rule implements_steps) (blast intro: putJSON_step chat_rep_put_convs)

lemma put_history_impl:
  "list_all message_ok ms \<Longrightarrow>
   implements (chat_state good recs) (put_history V i ms) M (Inr ()) (M\<lparr>cm_hist := (cm_hist M)(i := ms)\<rparr>)"
  unfolding put_history_def by (rule implements_steps) (blast intro: putJSON_step chat_rep_put_history)

lemma saveSession_impl:
  "storable s \<Longrightarrow> implements (chat_state good recs) (saveSession V i s) M (Inr ())
     (M\<lparr>cm_sessions := (cm_sessions M)(i \<mapsto> s)\<rparr>)"
  unfolding saveSession_def by (rule implements_steps) (blast intro: putJSON_step chat_rep_put_session)

lemma saveGroup_impl:
  "group_ok g \<Longrightarrow> implements (chat_state good recs) (saveGroup V g) M (Inr ())
     (M\<lparr>cm_groups := (cm_groups M)(g_id g \<mapsto> g)\<rparr>)"
  unfolding saveGroup_def by (rule implements_steps) (blast intro: putJSON_step chat_rep_put_group)

lemma saveIdentity_impl:
  "stored_identity_ok s \<Longrightarrow> implements (chat_state good recs) (saveIdentity V s) M (Inr ()) (M\<lparr>cm_identity := Some s\<rparr>)"
  unfolding saveIdentity_def by (rule implements_steps) (blast intro: putJSON_step chat_rep_put_identity)

lemma saveAttachment_impl:
  "implements (chat_state good recs) (saveAttachment V r x) M (Inr ()) (M\<lparr>cm_blobs := (cm_blobs M)(r \<mapsto> x)\<rparr>)"
  unfolding saveAttachment_def by (rule implements_steps) (blast intro: put_law chat_rep_blob)

lemma deletes_impl:
  "implements (chat_state good recs) (vo_delete V (historyKey i)) M (Inr ()) (M\<lparr>cm_hist := (cm_hist M)(i := [])\<rparr>)"
  "implements (chat_state good recs) (vo_delete V (sessionKey i)) M (Inr ()) (M\<lparr>cm_sessions := (cm_sessions M)(i := None)\<rparr>)"
  "implements (chat_state good recs) (vo_delete V (groupKey i)) M (Inr ()) (M\<lparr>cm_groups := (cm_groups M)(i := None)\<rparr>)"
  "implements (chat_state good recs) (vo_delete V (blobKey r)) M (Inr ()) (M\<lparr>cm_blobs := (cm_blobs M)(r := None)\<rparr>)"
  by (rule implements_steps, blast intro: delete_law chat_rep_delete chat_rep_blob)+

end

subsection \<open>What each operation does to the model\<close>

definition on_convs :: "(Conversation list \<Rightarrow> Conversation list) \<Rightarrow> chat_model \<Rightarrow> chat_model" where
  "on_convs f M = M\<lparr>cm_convs := f (cm_convs M)\<rparr>"

definition on_hist :: "string \<Rightarrow> (StoredMessage list \<Rightarrow> StoredMessage list) \<Rightarrow> chat_model \<Rightarrow> chat_model" where
  "on_hist i f M = M\<lparr>cm_hist := (cm_hist M)(i := f (cm_hist M i))\<rparr>"

definition append_model :: "StoredMessage \<Rightarrow> chat_model \<Rightarrow> chat_model" where
  "append_model m M =
     on_convs (upsert (m_conversationId m) (\<lambda>c. c\<lparr>c_lastActivity := m_timestamp m\<rparr>))
       (on_hist (m_conversationId m) (append_history m) M)"

definition patch_model :: "string \<Rightarrow> string \<Rightarrow> (StoredMessage \<Rightarrow> StoredMessage) \<Rightarrow> chat_model \<Rightarrow> chat_model" where
  "patch_model i mid f = on_hist i (update_first (\<lambda>m. m_id m = mid) f)"

definition drop_model :: "string \<Rightarrow> chat_model \<Rightarrow> chat_model" where
  "drop_model i M =
     M\<lparr>cm_convs := filter (\<lambda>c. c_id c \<noteq> i) (cm_convs M), cm_hist := (cm_hist M)(i := []),
       cm_sessions := (cm_sessions M)(i := None), cm_groups := (cm_groups M)(i := None)\<rparr>"

definition unread_model :: "string \<Rightarrow> chat_model \<Rightarrow> nat" where
  "unread_model i M =
     (case find (\<lambda>c. c_id c = i) (newest_first (cm_convs M)) of None \<Rightarrow> 0 | Some c \<Rightarrow> c_unreadCount c)"

lemma update_first_absent: "\<not> (\<exists>x\<in>set xs. P x) \<Longrightarrow> update_first P f xs = xs"
  by (induction xs) auto

context record_vault
begin

lemma chat_state_convs_ok: "chat_state good recs d M \<Longrightarrow> list_all conversation_ok (cm_convs M)"
  by (simp add: chat_state_def chat_rep_def)

lemma chat_state_hist_ok: "chat_state good recs d M \<Longrightarrow> list_all message_ok (cm_hist M i)"
  by (simp add: chat_state_def chat_rep_def)

text \<open>A premise about the model may be assumed to hold of a represented one.\<close>

lemma implements_if:
  "(list_all conversation_ok (cm_convs M) \<Longrightarrow> (\<And>i. list_all message_ok (cm_hist M i)) \<Longrightarrow>
      implements (chat_state good recs) m M r M') \<Longrightarrow> implements (chat_state good recs) m M r M'"
  unfolding implements_def using chat_state_convs_ok chat_state_hist_ok by blast

lemma upsertConversation_impl:
  assumes "\<And>c. conversation_ok c \<Longrightarrow> conversation_ok (patch c)"
  shows "implements (chat_state good recs) (upsertConversation V i patch) M
     (Inr (patched i patch (existing_conversation i (cm_convs M)))) (on_convs (upsert i patch) M)"
proof (rule implements_if)
  assume "list_all conversation_ok (cm_convs M)"
  then have "list_all conversation_ok (upsert i patch (cm_convs M))" using assms by (rule upsert_ok)
  then show ?thesis unfolding upsertConversation_def on_convs_def
    by (intro implements_bind [OF convs_impl] implements_bind [OF put_conversations_impl] implements_pure)
qed

lemma appendMessage_impl:
  assumes "message_ok m"
  shows "implements (chat_state good recs) (appendMessage V m) M (Inr ()) (append_model m M)"
proof (rule implements_if)
  assume "\<And>i. list_all message_ok (cm_hist M i)"
  then have "list_all message_ok (append_history m (cm_hist M (m_conversationId m)))"
    using assms by (intro append_history_ok)
  moreover have "conversation_ok c \<Longrightarrow> conversation_ok (c\<lparr>c_lastActivity := m_timestamp m\<rparr>)" for c
    using assms by (simp add: conversation_ok_def message_ok_def)
  ultimately show ?thesis unfolding appendMessage_def append_model_def on_hist_def
    by (intro implements_bind [OF hist_impl] implements_bind [OF put_history_impl]
        implements_bind [OF upsertConversation_impl] implements_pure)
qed

lemma patchMessage_impl:
  assumes "\<And>m. message_ok m \<Longrightarrow> message_ok (patch m)"
  shows "implements (chat_state good recs) (patchMessage V i mid patch) M (Inr ()) (patch_model i mid patch M)"
proof (rule implements_if)
  assume ok: "\<And>i. list_all message_ok (cm_hist M i)"
  show ?thesis
  proof (cases "\<exists>m\<in>set (cm_hist M i). m_id m = mid")
    case True
    have "list_all message_ok (update_first (\<lambda>m. m_id m = mid) patch (cm_hist M i))"
      using ok assms by (rule list_all_update_first)
    then show ?thesis unfolding patchMessage_def patch_model_def on_hist_def
      using True by (intro implements_bind [OF hist_impl]) (simp add: put_history_impl)
  next
    case False
    then have "patch_model i mid patch M = M"
      by (simp add: patch_model_def on_hist_def update_first_absent [OF False])
    then show ?thesis unfolding patchMessage_def
      using False by (intro implements_bind [OF hist_impl]) (simp add: implements_pure)
  qed
qed

lemma deleteConversation_impl:
  "implements (chat_state good recs) (store_deleteConversation V i) M (Inr ()) (drop_model i M)"
proof (rule implements_if)
  assume "list_all conversation_ok (cm_convs M)"
  then have "list_all conversation_ok (filter (\<lambda>c. c_id c \<noteq> i) (cm_convs M))" by (auto simp: list_all_iff)
  note put = put_conversations_impl [OF this, of M]
  show ?thesis unfolding store_deleteConversation_def
    by (rule implements_to)
      (rule implements_bind [OF convs_impl] implements_bind [OF put] implements_bind [OF deletes_impl(1)]
        implements_bind [OF deletes_impl(2)] deletes_impl(3) | simp add: drop_model_def)+
qed

lemma unread_of_impl: "implements (chat_state good recs) (unread_of V i) M (Inr (unread_model i M)) M"
  unfolding unread_of_def unread_model_def by (rule implements_bind [OF getConversation_impl]) (rule implements_pure)

lemma write_unread_impl:
  "implements (chat_state good recs) (write_unread V i n) M (Inr ()) (on_convs (upsert i (\<lambda>c. c\<lparr>c_unreadCount := n\<rparr>)) M)"
  unfolding write_unread_def
  by (rule implements_bind [OF upsertConversation_impl]) (simp_all add: conversation_ok_def implements_pure)

lemma incrementUnread_impl:
  "implements (chat_state good recs) (incrementUnread V i) M (Inr ())
     (on_convs (upsert i (\<lambda>c. c\<lparr>c_unreadCount := unread_model i M + 1\<rparr>)) M)"
  unfolding incrementUnread_def by (rule implements_bind [OF unread_of_impl write_unread_impl])

end

end
