(* ===== verification/Chat_Store_Spec.thy ===== *)
theory Chat_Store_Spec
  imports Chat_Store
begin

section \<open>The chat store against its specification\<close>

text \<open>
  Sequences of store operations over the sealed vault, against the data model: the answers are
  those of the model, the invariant of the model (one row per message id, rows filed under their
  conversation, one entry per conversation) holds after any sequence, listings are permutations in
  the order the code sorts by. Two theorems record where the code falls short of its comments.
\<close>

datatype store_call =
    AppendCall StoredMessage
  | StatusCall string string MessageStatus "string option"
  | TombstoneCall string string "number option"
  | ReactCall string string string string bool
  | UnreadCall string
  | ClearCall string
  | DropCall string
  | SaveSessionCall string Session
  | LoadSessionCall string
  | SaveGroupCall GroupState
  | LoadGroupCall string
  | SaveBlobCall string bytes
  | LoadBlobCall string
  | HistoryCall string
  | ConversationsCall

datatype store_answer =
    Done
  | AMessages "StoredMessage list"
  | AConversations "Conversation list"
  | ASession "Session option"
  | AGroup "GroupState option"
  | ABlob "bytes option"

definition answer :: "('d, 'a) effect \<Rightarrow> ('a \<Rightarrow> store_answer) \<Rightarrow> ('d, store_answer) effect" where
  "answer m f = sbind m (\<lambda>x. sreturn (f x))"

fun run_store :: "'d VaultOps \<Rightarrow> store_call \<Rightarrow> ('d, store_answer) effect" where
  "run_store V (AppendCall m) = answer (appendMessage V m) (\<lambda>_. Done)"
| "run_store V (StatusCall i mid st e) = answer (setMessageStatus V i mid st e) (\<lambda>_. Done)"
| "run_store V (TombstoneCall i mid t) = answer (markDeleted V i mid t) (\<lambda>_. Done)"
| "run_store V (ReactCall i mid emoji who active) = answer (setReaction V i mid emoji who active) (\<lambda>_. Done)"
| "run_store V (UnreadCall i) = answer (incrementUnread V i) (\<lambda>_. Done)"
| "run_store V (ClearCall i) = answer (clearUnread V i) (\<lambda>_. Done)"
| "run_store V (DropCall i) = answer (store_deleteConversation V i) (\<lambda>_. Done)"
| "run_store V (SaveSessionCall i s) = answer (saveSession V i s) (\<lambda>_. Done)"
| "run_store V (LoadSessionCall i) = answer (loadSession V i) ASession"
| "run_store V (SaveGroupCall g) = answer (saveGroup V g) (\<lambda>_. Done)"
| "run_store V (LoadGroupCall i) = answer (loadGroup V i) AGroup"
| "run_store V (SaveBlobCall r x) = answer (saveAttachment V r x) (\<lambda>_. Done)"
| "run_store V (LoadBlobCall r) = answer (loadAttachment V r) ABlob"
| "run_store V (HistoryCall i) = answer (listMessages V i) AMessages"
| "run_store V ConversationsCall = answer (listConversations V) AConversations"

fun spec_model :: "store_call \<Rightarrow> chat_model \<Rightarrow> chat_model" where
  "spec_model (AppendCall m) M = append_model m M"
| "spec_model (StatusCall i mid st e) M = patch_model i mid (status_patch st e) M"
| "spec_model (TombstoneCall i mid t) M = patch_model i mid (tombstone t) M"
| "spec_model (ReactCall i mid emoji who active) M = patch_model i mid (react_patch emoji who active) M"
| "spec_model (UnreadCall i) M = on_convs (upsert i (\<lambda>c. c\<lparr>c_unreadCount := unread_model i M + 1\<rparr>)) M"
| "spec_model (ClearCall i) M = on_convs (upsert i (\<lambda>c. c\<lparr>c_unreadCount := 0\<rparr>)) M"
| "spec_model (DropCall i) M = drop_model i M"
| "spec_model (SaveSessionCall i s) M = M\<lparr>cm_sessions := (cm_sessions M)(i \<mapsto> s)\<rparr>"
| "spec_model (SaveGroupCall g) M = M\<lparr>cm_groups := (cm_groups M)(g_id g \<mapsto> g)\<rparr>"
| "spec_model (SaveBlobCall r x) M = M\<lparr>cm_blobs := (cm_blobs M)(r \<mapsto> x)\<rparr>"
| "spec_model _ M = M"

fun spec_answer :: "store_call \<Rightarrow> chat_model \<Rightarrow> store_answer" where
  "spec_answer (LoadSessionCall i) M = ASession (cm_sessions M i)"
| "spec_answer (LoadGroupCall i) M = AGroup (cm_groups M i)"
| "spec_answer (LoadBlobCall r) M = ABlob (cm_blobs M r)"
| "spec_answer (HistoryCall i) M = AMessages (oldest_first (cm_hist M i))"
| "spec_answer ConversationsCall M = AConversations (newest_first (cm_convs M))"
| "spec_answer _ M = Done"

text \<open>What can be written: the data of the call survives JSON.\<close>

fun call_ok :: "store_call \<Rightarrow> bool" where
  "call_ok (AppendCall m) = message_ok m"
| "call_ok (TombstoneCall i mid t) = opt_num_ok t"
| "call_ok (SaveSessionCall i s) = storable s"
| "call_ok (SaveGroupCall g) = group_ok g"
| "call_ok _ = True"

fun run_store_all :: "'d VaultOps \<Rightarrow> store_call list \<Rightarrow> 'd \<Rightarrow> 'd \<times> store_answer result list" where
  "run_store_all V [] d = (d, [])"
| "run_store_all V (c # cs) d =
     (case run_store V c d of (d1, r) \<Rightarrow> (case run_store_all V cs d1 of (d2, rs) \<Rightarrow> (d2, r # rs)))"

fun spec_all :: "store_call list \<Rightarrow> chat_model \<Rightarrow> chat_model \<times> store_answer list" where
  "spec_all [] M = (M, [])"
| "spec_all (c # cs) M = (case spec_all cs (spec_model c M) of (M', as) \<Rightarrow> (M', spec_answer c M # as))"

lemma implements_answer: "implements rel m M (Inr x) M' \<Longrightarrow> implements rel (answer m f) M (Inr (f x)) M'"
  unfolding answer_def by (rule implements_bind) (auto simp: implements_pure)

context record_vault
begin

lemma run_store_impl:
  "call_ok c \<Longrightarrow> implements (chat_state good recs) (run_store V c) M (Inr (spec_answer c M)) (spec_model c M)"
  by (cases c)
    (auto simp: setMessageStatus_def markDeleted_def setReaction_def clearUnread_def
      intro!: implements_answer appendMessage_impl patchMessage_impl incrementUnread_impl [simplified] write_unread_impl
        deleteConversation_impl saveSession_impl loadSession_impl saveGroup_impl loadGroup_impl
        saveAttachment_impl loadAttachment_impl listMessages_impl listConversations_impl)

lemma run_store_all_impl:
  assumes "chat_state good recs d M" "\<forall>c\<in>set cs. call_ok c"
  shows "\<exists>d'. run_store_all V cs d = (d', map Inr (snd (spec_all cs M))) \<and> chat_state good recs d' (fst (spec_all cs M))"
  using assms
proof (induction cs arbitrary: d M)
  case (Cons c cs)
  obtain d1 where "run_store V c d = (d1, Inr (spec_answer c M))" "chat_state good recs d1 (spec_model c M)"
    using run_store_impl Cons.prems by (meson implementsE list.set_intros(1))
  moreover from Cons.IH [OF this(2)] Cons.prems
  obtain d2 where "run_store_all V cs d1 = (d2, map Inr (snd (spec_all cs (spec_model c M))))"
    "chat_state good recs d2 (fst (spec_all cs (spec_model c M)))" by auto
  ultimately show ?case by (auto split: prod.split)
qed simp

end

subsection \<open>The invariant of the model\<close>

definition filed :: "string \<Rightarrow> StoredMessage list \<Rightarrow> bool" where
  "filed i h \<longleftrightarrow> distinct (map m_id h) \<and> (\<forall>m\<in>set h. m_conversationId m = i)"

definition model_inv :: "chat_model \<Rightarrow> bool" where
  "model_inv M \<longleftrightarrow>
     distinct (map c_id (cm_convs M)) \<and>
     (\<forall>i. filed i (cm_hist M i) \<and> (cm_hist M i \<noteq> [] \<longrightarrow> i \<in> c_id ` set (cm_convs M)))"

lemma map_update_first: "(\<And>x. P x \<Longrightarrow> g (f x) = g x) \<Longrightarrow> map g (update_first P f xs) = map g xs"
  by (induction xs) auto

lemma set_update_first: "x \<in> set (update_first P f xs) \<Longrightarrow> x \<in> set xs \<or> (\<exists>y\<in>set xs. P y \<and> x = f y)"
  by (induction xs) (auto split: if_splits)

lemma update_first_Nil [simp]: "update_first P f xs = [] \<longleftrightarrow> xs = []"
  by (cases xs) auto

lemma upsert_ids: "map c_id (upsert i patch cs) = (if i \<in> c_id ` set cs then map c_id cs else map c_id cs @ [i])"
proof (cases "\<exists>c\<in>set cs. c_id c = i")
  case True
  then have "i \<in> c_id ` set cs" by auto
  then show ?thesis using True by (simp add: upsert_def map_update_first patched_def)
next
  case False
  then have "i \<notin> c_id ` set cs" by auto
  then show ?thesis using False by (simp add: upsert_def patched_def)
qed

lemma upsert_id_set: "c_id ` set (upsert i patch cs) = insert i (c_id ` set cs)"
  using arg_cong [OF upsert_ids [of i patch cs], of set] by auto

lemma append_history_ids:
  "map m_id (append_history m h) = (if m_id m \<in> m_id ` set h then map m_id h else map m_id h @ [m_id m])"
proof (cases "\<exists>x\<in>set h. m_id x = m_id m")
  case True
  then have "m_id m \<in> m_id ` set h" by (metis imageI)
  then show ?thesis using True by (simp add: append_history_def map_update_first merge_message_def)
next
  case False
  then have "m_id m \<notin> m_id ` set h" by auto
  then show ?thesis using False by (simp add: append_history_def)
qed

lemma filed_append: "filed (m_conversationId m) h \<Longrightarrow> filed (m_conversationId m) (append_history m h)"
proof -
  assume h: "filed (m_conversationId m) h"
  have "distinct (map m_id (append_history m h))" using h by (simp add: append_history_ids filed_def)
  moreover have "\<forall>x\<in>set (append_history m h). m_conversationId x = m_conversationId m"
    using h by (auto simp: append_history_def filed_def merge_message_def dest!: set_update_first)
  ultimately show ?thesis by (simp add: filed_def)
qed

lemma filed_patch:
  assumes "\<And>m. m_id (f m) = m_id m \<and> m_conversationId (f m) = m_conversationId m" "filed i h"
  shows "filed i (update_first P f h)"
  using assms by (auto simp: filed_def map_update_first dest!: set_update_first)

lemma model_inv_convs: "model_inv M \<Longrightarrow> model_inv (on_convs (upsert i patch) M)"
  by (auto simp: model_inv_def on_convs_def upsert_ids upsert_id_set)

lemma model_inv_hist:
  assumes "model_inv M" "filed i (f (cm_hist M i))" "f (cm_hist M i) \<noteq> [] \<Longrightarrow> i \<in> c_id ` set (cm_convs M)"
  shows "model_inv (on_hist i f M)"
  using assms by (simp add: model_inv_def on_hist_def)

lemma model_inv_patch:
  assumes "model_inv M" "\<And>m. m_id (f m) = m_id m \<and> m_conversationId (f m) = m_conversationId m"
  shows "model_inv (patch_model i mid f M)"
  unfolding patch_model_def
  by (rule model_inv_hist [OF assms(1)]) (use assms in \<open>simp_all add: filed_patch model_inv_def\<close>)

lemma model_inv_append: "model_inv M \<Longrightarrow> model_inv (append_model m M)"
  by (simp add: model_inv_def append_model_def on_convs_def on_hist_def upsert_ids upsert_id_set filed_append)

lemma model_inv_drop: "model_inv M \<Longrightarrow> model_inv (drop_model i M)"
  by (auto simp: model_inv_def drop_model_def distinct_map_filter filed_def)

lemma model_inv_call: "model_inv M \<Longrightarrow> model_inv (spec_model c M)"
proof (cases c)
  case (ReactCall i mid emoji who active)
  assume "model_inv M"
  then show ?thesis by (auto simp: ReactCall react_patch_def Let_def intro!: model_inv_patch)
qed (auto simp: status_patch_def tombstone_def intro!: model_inv_append model_inv_patch model_inv_convs model_inv_drop,
    auto simp: model_inv_def)

lemma model_inv_all: "model_inv M \<Longrightarrow> model_inv (fst (spec_all cs M))"
  by (induction cs arbitrary: M) (auto simp: model_inv_call split: prod.split, metis fst_conv model_inv_call)

subsection \<open>Sorting\<close>

lemma mset_js_insert: "mset (js_insert after x xs) = add_mset x (mset xs)"
  by (induction xs) auto

lemma mset_js_sort [simp]: "mset (js_sort after xs) = mset xs"
proof -
  have "mset (foldl (\<lambda>acc x. js_insert after x acc) acc xs) = mset acc + mset xs" for acc
    by (induction xs arbitrary: acc) (auto simp: mset_js_insert)
  then show ?thesis by (simp add: js_sort_def)
qed

lemma set_js_insert [simp]: "set (js_insert after x xs) = insert x (set xs)"
  using arg_cong [OF mset_js_insert [of after x xs], of set_mset] by simp

lemma sorted_js_sort:
  fixes key :: "'a \<Rightarrow> 'k :: linorder"
  shows "sorted (map key (js_sort (\<lambda>y x. key x < key y) xs))"
proof -
  have ins: "sorted (map key ys) \<Longrightarrow> sorted (map key (js_insert (\<lambda>y x. key x < key y) x ys))" for x ys
    by (induction ys) (auto simp: not_less)
  have "sorted (map key acc) \<Longrightarrow> sorted (map key (foldl (\<lambda>acc x. js_insert (\<lambda>y x. key x < key y) x acc) acc xs))" for acc
    by (induction xs arbitrary: acc) (auto simp: ins)
  then show ?thesis by (simp add: js_sort_def)
qed

lemma js_insert_cong:
  "(\<And>y. y \<in> set ys \<Longrightarrow> after y x = after' y x) \<Longrightarrow> js_insert after x ys = js_insert after' x ys"
  by (induction ys) auto

lemma js_sort_cong:
  assumes "\<And>x y. x \<in> set xs \<Longrightarrow> y \<in> set xs \<Longrightarrow> after y x = after' y x"
  shows "js_sort after xs = js_sort after' xs"
proof -
  have "set acc \<union> set ys \<subseteq> set xs \<Longrightarrow>
      foldl (\<lambda>acc x. js_insert after x acc) acc ys = foldl (\<lambda>acc x. js_insert after' x acc) acc ys" for acc ys
  proof (induction ys arbitrary: acc)
    case (Cons y ys)
    then have "js_insert after y acc = js_insert after' y acc" using assms by (intro js_insert_cong) auto
    then show ?case using Cons by simp
  qed simp
  then show ?thesis by (simp add: js_sort_def)
qed

lemma before_the: "a \<noteq> None \<Longrightarrow> b \<noteq> None \<Longrightarrow> before a b \<longleftrightarrow> the a < the b"
  by (auto simp: before_def)

lemma sorted_oldest_first:
  assumes "\<forall>m\<in>set h. m_timestamp m \<noteq> None"
  shows "sorted (map (\<lambda>m. the (m_timestamp m)) (oldest_first h))"
proof -
  have "oldest_first h = js_sort (\<lambda>y x. the (m_timestamp x) < the (m_timestamp y)) h"
    unfolding oldest_first_def by (rule js_sort_cong) (use assms before_the in blast)
  then show ?thesis by (simp add: sorted_js_sort)
qed

lemma set_newest_first [simp]: "set (newest_first cs) = set cs"
  unfolding newest_first_def by (metis mset_js_sort set_mset_mset)

lemma find_unique:
  assumes "x \<in> set xs" "P x" "\<And>y. y \<in> set xs \<Longrightarrow> P y \<Longrightarrow> y = x"
  shows "find P xs = Some x"
proof -
  have "find P xs \<noteq> None" using assms(1,2) by (auto simp: find_None_iff)
  then obtain y where y: "find P xs = Some y" by blast
  then have "y \<in> set xs" "P y" by (auto simp: find_Some_iff)
  then show ?thesis using assms(3) y by blast
qed

lemma find_conversation:
  assumes "distinct (map c_id cs)"
  shows "find (\<lambda>c. c_id c = i) (newest_first cs) = find (\<lambda>c. c_id c = i) cs"
proof (cases "\<exists>c\<in>set cs. c_id c = i")
  case True
  then obtain c where c: "c \<in> set cs" "c_id c = i" by blast
  then have u: "y = c" if "y \<in> set cs" "c_id y = i" for y
    using assms that by (auto simp: distinct_map inj_on_def)
  have "find (\<lambda>c. c_id c = i) (newest_first cs) = Some c" "find (\<lambda>c. c_id c = i) cs = Some c"
    by (rule find_unique, simp add: c, simp add: c, erule (1) u [unfolded set_newest_first [symmetric, of cs]])
      (rule find_unique, rule c, rule c, erule (1) u)
  then show ?thesis by simp
next
  case False
  then have "find (\<lambda>c. c_id c = i) xs = None" if "set xs = set cs" for xs using that by (auto simp: find_None_iff)
  then show ?thesis by simp
qed

lemma find_append_None: "find P xs = None \<Longrightarrow> find P (xs @ ys) = find P ys"
  by (induction xs) (auto split: if_splits)

lemma find_update_first:
  "(\<And>x. P x \<Longrightarrow> P (f x)) \<Longrightarrow> find P (update_first P f xs) = map_option f (find P xs)"
  by (induction xs) auto

lemma find_upsert:
  "find (\<lambda>c. c_id c = i) (upsert i patch cs) = Some (patched i patch (existing_conversation i cs))"
proof (cases "find (\<lambda>c. c_id c = i) cs")
  case None
  then have "\<not> (\<exists>c\<in>set cs. c_id c = i)" by (auto simp: find_None_iff)
  then show ?thesis using None
    by (simp add: upsert_def existing_conversation_def find_append_None) (simp add: patched_def)
next
  case (Some c)
  then have "\<exists>c\<in>set cs. c_id c = i" by (auto simp: find_Some_iff)
  then show ?thesis using Some
    by (simp add: upsert_def existing_conversation_def find_update_first patched_def)
qed

lemma unread_written:
  assumes "model_inv M"
  shows "unread_model i (on_convs (upsert i (\<lambda>c. c\<lparr>c_unreadCount := n\<rparr>)) M) = n"
proof -
  have "distinct (map c_id (upsert i (\<lambda>c. c\<lparr>c_unreadCount := n\<rparr>) (cm_convs M)))"
    using model_inv_convs [OF assms, of i "\<lambda>c. c\<lparr>c_unreadCount := n\<rparr>"] by (simp add: model_inv_def on_convs_def)
  then show ?thesis by (simp add: unread_model_def on_convs_def find_conversation find_upsert patched_def)
qed

subsection \<open>Properties\<close>

text \<open>
  Claim C24. The chat store is the data model: any sequence of its operations, run over a sealed
  vault, answers exactly as the same operations on plain typed data (histories, conversations,
  sessions, groups, attachments), and the records left behind hold exactly the resulting data.
  Encryption, JSON and record naming neither lose nor mix anything, and no operation throws.
\<close>

theorem store_refines_model:
  assumes "chat_state (vault_good S A invar view v) (vault_recs S view v) d M" "\<forall>c\<in>set calls. call_ok c"
  shows "\<exists>d'. run_store_all (vault_ops S A v) calls d = (d', map Inr (snd (spec_all calls M))) \<and>
     chat_state (vault_good S A invar view v) (vault_recs S view v) d' (fst (spec_all calls M))"
  using assms by (rule sealed_vault.run_store_all_impl)

text \<open>
  History stays consistent: after any sequence of store operations every message id has
  one row, however often a message is delivered again, every row is filed under its own conversation,
  every conversation has one entry, and a history that is not empty has one. What \<open>listMessages\<close>
  returns is a permutation of the stored rows, in chronological order when all of them are dated.
\<close>

theorem store_history_consistent:
  assumes "chat_state (vault_good S A invar view v) (vault_recs S view v) d M" "model_inv M" "\<forall>c\<in>set calls. call_ok c"
    and "run_store_all (vault_ops S A v) calls d = (d', answers)"
  shows "\<exists>M'. chat_state (vault_good S A invar view v) (vault_recs S view v) d' M' \<and> model_inv M' \<and>
     (\<forall>i. \<exists>d'' ms. listMessages (vault_ops S A v) i d' = (d'', Inr ms) \<and> mset ms = mset (cm_hist M' i) \<and>
        distinct (map m_id ms) \<and> (\<forall>m\<in>set ms. m_conversationId m = i) \<and>
        ((\<forall>m\<in>set ms. m_timestamp m \<noteq> None) \<longrightarrow> sorted (map (\<lambda>m. the (m_timestamp m)) ms)))"
proof -
  let ?M = "fst (spec_all calls M)"
  obtain e where e: "run_store_all (vault_ops S A v) calls d = (e, map Inr (snd (spec_all calls M)))"
    "chat_state (vault_good S A invar view v) (vault_recs S view v) e ?M"
    using sealed_vault.run_store_all_impl [OF assms(1,3)] by blast
  then have st: "chat_state (vault_good S A invar view v) (vault_recs S view v) d' ?M" using assms(4) by simp
  have inv: "model_inv ?M" using assms(2) by (rule model_inv_all)
  have "\<exists>d'' ms. listMessages (vault_ops S A v) i d' = (d'', Inr ms) \<and> mset ms = mset (cm_hist ?M i) \<and>
        distinct (map m_id ms) \<and> (\<forall>m\<in>set ms. m_conversationId m = i) \<and>
        ((\<forall>m\<in>set ms. m_timestamp m \<noteq> None) \<longrightarrow> sorted (map (\<lambda>m. the (m_timestamp m)) ms))" for i
  proof -
    let ?h = "cm_hist ?M i"
    obtain d'' where "listMessages (vault_ops S A v) i d' = (d'', Inr (oldest_first ?h))"
      using sealed_vault.listMessages_impl st by (rule implementsE)
    moreover have ms: "mset (oldest_first ?h) = mset ?h" by (simp add: oldest_first_def)
    moreover have s: "set (oldest_first ?h) = set ?h" using ms by (metis set_mset_mset)
    moreover have "distinct (map m_id (oldest_first ?h))"
    proof -
      have "mset (map m_id (oldest_first ?h)) = mset (map m_id ?h)" using ms by simp
      then show ?thesis using inv by (metis filed_def model_inv_def mset_eq_imp_distinct_iff)
    qed
    moreover have "\<forall>m\<in>set (oldest_first ?h). m_conversationId m = i" using inv s by (simp add: model_inv_def filed_def)
    moreover have "(\<forall>m\<in>set (oldest_first ?h). m_timestamp m \<noteq> None) \<longrightarrow>
        sorted (map (\<lambda>m. the (m_timestamp m)) (oldest_first ?h))"
      unfolding s using sorted_oldest_first by blast
    ultimately show ?thesis by blast
  qed
  then show ?thesis using st inv by blast
qed

text \<open>
  Deleting a conversation removes its entry, its history, its session and its group
  state and touches no other conversation, but not the files exchanged in it: the decrypted bytes
  of an attachment stay in the vault and can still be loaded. (\<open>deleteAttachment\<close> has no caller.)
\<close>

theorem deleted_conversation_keeps_files:
  assumes "chat_state (vault_good S A invar view v) (vault_recs S view v) d M" "cm_blobs M ref = Some file"
  shows "\<exists>d'. store_deleteConversation (vault_ops S A v) i d = (d', Inr ()) \<and>
     (\<exists>M'. chat_state (vault_good S A invar view v) (vault_recs S view v) d' M' \<and>
        cm_hist M' i = [] \<and> cm_sessions M' i = None \<and> cm_groups M' i = None \<and> i \<notin> c_id ` set (cm_convs M') \<and>
        (\<forall>j. j \<noteq> i \<longrightarrow> cm_hist M' j = cm_hist M j \<and> cm_sessions M' j = cm_sessions M j \<and> cm_groups M' j = cm_groups M j)) \<and>
     snd (loadAttachment (vault_ops S A v) ref d') = Inr (Some file)"
proof -
  obtain d' where d': "store_deleteConversation (vault_ops S A v) i d = (d', Inr ())"
    "chat_state (vault_good S A invar view v) (vault_recs S view v) d' (drop_model i M)"
    using sealed_vault.deleteConversation_impl assms(1) by (rule implementsE)
  have "\<exists>d''. loadAttachment (vault_ops S A v) ref d' = (d'', Inr (cm_blobs (drop_model i M) ref))"
    using sealed_vault.loadAttachment_impl d'(2) by (metis implementsE)
  then have "snd (loadAttachment (vault_ops S A v) ref d') = Inr (Some file)" using assms(2) by (auto simp: drop_model_def)
  moreover have "i \<notin> c_id ` set (cm_convs (drop_model i M))" by (auto simp: drop_model_def)
  ultimately show ?thesis using d' by (intro exI [of _ d'] conjI exI [of _ "drop_model i M"]) (auto simp: drop_model_def)
qed

text \<open>
  \<open>incrementUnread\<close> loses updates: its read happens outside the serialised piece of work,
  so when two calls for one conversation overlap (both read, then both write) the count grows by one.
  Called one after the other they count two.
\<close>

theorem overlapping_increments_lose_one:
  assumes "chat_state (vault_good S A invar view v) (vault_recs S view v) d M" "model_inv M"
  shows "(\<exists>d1 d2 a b d3 d4. unread_of (vault_ops S A v) i d = (d1, Inr a) \<and> unread_of (vault_ops S A v) i d1 = (d2, Inr b) \<and>
       write_unread (vault_ops S A v) i (a + 1) d2 = (d3, Inr ()) \<and> write_unread (vault_ops S A v) i (b + 1) d3 = (d4, Inr ()) \<and>
       snd (unread_of (vault_ops S A v) i d4) = Inr (unread_model i M + 1)) \<and>
     (\<exists>d1 d2. incrementUnread (vault_ops S A v) i d = (d1, Inr ()) \<and> incrementUnread (vault_ops S A v) i d1 = (d2, Inr ()) \<and>
       snd (unread_of (vault_ops S A v) i d2) = Inr (unread_model i M + 2))"
proof
  let ?V = "vault_ops S A v" and ?n = "unread_model i M"
  let ?put = "\<lambda>n. on_convs (upsert i (\<lambda>c. c\<lparr>c_unreadCount := n\<rparr>))"
  note read = sealed_vault.unread_of_impl [THEN implementsE] and put = sealed_vault.write_unread_impl [THEN implementsE]
    and inc = sealed_vault.incrementUnread_impl [THEN implementsE]
  obtain d1 where d1: "unread_of ?V i d = (d1, Inr ?n)" "chat_state (vault_good S A invar view v) (vault_recs S view v) d1 M"
    using assms(1) by (rule read)
  obtain d2 where d2: "unread_of ?V i d1 = (d2, Inr ?n)" "chat_state (vault_good S A invar view v) (vault_recs S view v) d2 M"
    using d1(2) by (rule read)
  obtain d3 where d3: "write_unread ?V i (?n + 1) d2 = (d3, Inr ())"
    "chat_state (vault_good S A invar view v) (vault_recs S view v) d3 (?put (?n + 1) M)"
    using d2(2) by (rule put)
  obtain d4 where d4: "write_unread ?V i (?n + 1) d3 = (d4, Inr ())"
    "chat_state (vault_good S A invar view v) (vault_recs S view v) d4 (?put (?n + 1) (?put (?n + 1) M))"
    using d3(2) by (rule put)
  obtain d5 where "unread_of ?V i d4 = (d5, Inr (unread_model i (?put (?n + 1) (?put (?n + 1) M))))" using d4(2) by (rule read)
  then have "snd (unread_of ?V i d4) = Inr (?n + 1)" using unread_written [OF model_inv_convs [OF assms(2)]] by simp
  then show "\<exists>d1 d2 a b d3 d4. unread_of ?V i d = (d1, Inr a) \<and> unread_of ?V i d1 = (d2, Inr b) \<and>
       write_unread ?V i (a + 1) d2 = (d3, Inr ()) \<and> write_unread ?V i (b + 1) d3 = (d4, Inr ()) \<and>
       snd (unread_of ?V i d4) = Inr (?n + 1)"
    using d1(1) d2(1) d3(1) d4(1) by blast
  obtain e1 where e1: "incrementUnread ?V i d = (e1, Inr ())"
    "chat_state (vault_good S A invar view v) (vault_recs S view v) e1 (?put (?n + 1) M)"
    using assms(1) by (rule inc)
  obtain e2 where e2: "incrementUnread ?V i e1 = (e2, Inr ())"
    "chat_state (vault_good S A invar view v) (vault_recs S view v) e2 (?put (unread_model i (?put (?n + 1) M) + 1) (?put (?n + 1) M))"
    using e1(2) by (rule inc)
  obtain e3 where "unread_of ?V i e2 = (e3, Inr (unread_model i (?put (unread_model i (?put (?n + 1) M) + 1) (?put (?n + 1) M))))"
    using e2(2) by (rule read)
  then have "snd (unread_of ?V i e2) = Inr (?n + 2)"
    using unread_written [OF model_inv_convs [OF assms(2)]] unread_written [OF assms(2)] by simp
  then show "\<exists>d1 d2. incrementUnread ?V i d = (d1, Inr ()) \<and> incrementUnread ?V i d1 = (d2, Inr ()) \<and>
       snd (unread_of ?V i d2) = Inr (?n + 2)"
    using e1(1) e2(1) by blast
qed

subsection \<open>A concrete store\<close>

definition empty_model :: chat_model where
  "empty_model = \<lparr>cm_identity = None, cm_convs = [], cm_hist = \<lambda>_. [], cm_sessions = Map.empty, cm_groups = Map.empty,
     cm_blobs = Map.empty\<rparr>"

definition demo_note :: StoredMessage where
  "demo_note = \<lparr>m_id = ''m1'', m_conversationId = ''alice'', m_direction = Incoming, m_body = ''hi'',
     m_timestamp = Some 5, m_status = StDelivered, m_envelopeId = Some ''e1'', m_attachment = None, m_deletedAt = None,
     m_senderId = None, m_reactions = None\<rparr>"

lemma demo_chat_state:
  "chat_state (vault_good demo_sodium MemoryAdapter distinct_keys map_of demo_vault)
     (vault_recs demo_sodium map_of demo_vault) demo_device empty_model"
  by (simp add: chat_state_def demo_vault_good demo_vault_empty chat_rep_def empty_model_def list_at_def record_at_def
      session_at_def json_of_def read_list_def read_as_def)

lemma empty_model_inv: "model_inv empty_model"
  by (simp add: model_inv_def empty_model_def filed_def)

lemma demo_note_ok: "message_ok demo_note"
  using num_ok_of_nat [of 5] by (simp add: message_ok_def demo_note_def opt_num_ok_def)

theorem store_refines_model_witness:
  "\<exists>d'. run_store_all (vault_ops demo_sodium MemoryAdapter demo_vault)
     [AppendCall demo_note, AppendCall demo_note, HistoryCall ''alice''] demo_device
     = (d', [Inr Done, Inr Done, Inr (AMessages [demo_note])])"
proof -
  have "\<forall>c\<in>set [AppendCall demo_note, AppendCall demo_note, HistoryCall ''alice'']. call_ok c" by (simp add: demo_note_ok)
  from store_refines_model [OF demo_chat_state this] show ?thesis
    by (simp add: append_model_def on_convs_def on_hist_def append_history_def empty_model_def demo_note_def
        oldest_first_def js_sort_def merge_message_def or_else_def) blast
qed

theorem store_history_consistent_witness:
  "\<exists>M'. chat_state (vault_good demo_sodium MemoryAdapter distinct_keys map_of demo_vault)
     (vault_recs demo_sodium map_of demo_vault) demo_device M' \<and> model_inv M'"
  using store_history_consistent [OF demo_chat_state empty_model_inv, of "[]"] by auto

theorem deleted_conversation_keeps_files_witness:
  "\<exists>d d'. saveAttachment (vault_ops demo_sodium MemoryAdapter demo_vault) ''f'' [1, 2] demo_device = (d, Inr ()) \<and>
     store_deleteConversation (vault_ops demo_sodium MemoryAdapter demo_vault) ''alice'' d = (d', Inr ()) \<and>
     snd (loadAttachment (vault_ops demo_sodium MemoryAdapter demo_vault) ''f'' d') = Inr (Some [1, 2])"
proof -
  obtain d where d: "saveAttachment (vault_ops demo_sodium MemoryAdapter demo_vault) ''f'' [1, 2] demo_device = (d, Inr ())"
    "chat_state (vault_good demo_sodium MemoryAdapter distinct_keys map_of demo_vault)
       (vault_recs demo_sodium map_of demo_vault) d (empty_model\<lparr>cm_blobs := (cm_blobs empty_model)(''f'' \<mapsto> [1, 2])\<rparr>)"
    using sealed_vault.saveAttachment_impl demo_chat_state by (rule implementsE)
  then show ?thesis using deleted_conversation_keeps_files [OF d(2), of "''f''" "[1, 2]" "''alice''"] by auto
qed

theorem overlapping_increments_lose_one_witness:
  "\<exists>d1 d2. incrementUnread (vault_ops demo_sodium MemoryAdapter demo_vault) ''alice'' demo_device = (d1, Inr ()) \<and>
     incrementUnread (vault_ops demo_sodium MemoryAdapter demo_vault) ''alice'' d1 = (d2, Inr ()) \<and>
     snd (unread_of (vault_ops demo_sodium MemoryAdapter demo_vault) ''alice'' d2) = Inr (unread_model ''alice'' empty_model + 2)"
  using overlapping_increments_lose_one [OF demo_chat_state empty_model_inv, of "''alice''"] by blast

end
