(* ===== verification/Search.thy ===== *)
theory Search
  imports Chat_Store_Spec
begin

section \<open>Search over decrypted history (\<open>client/search.ts\<close>)\<close>

text \<open>
  Positions in a JavaScript string count UTF-16 code units, so here a text is a list of 16-bit words
  and \<open>utf16\<close> reads a stored string (its UTF-8 bytes) as one. The Unicode tables behind
  \<open>String.prototype.normalize\<close> and \<open>toLowerCase\<close> are the platform's: a parameter \<open>unicode\<close>.
  Nothing below assumes anything of them except where a theorem says so.
\<close>

type_synonym units = "16 word list"

definition tail_bits :: "nat \<Rightarrow> string \<Rightarrow> nat" where
  "tail_bits k s = foldl (\<lambda>acc c. acc * 64 + of_char c mod 64) 0 (take k s)"

definition surrogates :: "nat \<Rightarrow> units" where
  "surrogates p = [of_nat (0xD800 + (p - 0x10000) div 1024), of_nat (0xDC00 + (p - 0x10000) mod 1024)]"

fun utf16 :: "string \<Rightarrow> units" where
  "utf16 [] = []"
| "utf16 (c # s) =
     (let b = of_char c :: nat in
      if b < 128 then of_nat b # utf16 s
      else if 192 \<le> b \<and> b < 224 then of_nat ((b - 192) * 64 + tail_bits 1 s) # utf16 (drop 1 s)
      else if 224 \<le> b \<and> b < 240 then of_nat ((b - 224) * 4096 + tail_bits 2 s) # utf16 (drop 2 s)
      else if 240 \<le> b \<and> b < 248 then surrogates ((b - 240) * 262144 + tail_bits 3 s) @ utf16 (drop 3 s)
      else 0xFFFD # utf16 s)"

record unicode =
  nfd :: "units \<Rightarrow> units"
  toLowerCase :: "units \<Rightarrow> units"

definition is_mark :: "16 word \<Rightarrow> bool" where
  "is_mark u \<longleftrightarrow> 0x300 \<le> u \<and> u \<le> 0x36F"

definition normalize_text :: "unicode \<Rightarrow> units \<Rightarrow> units" where
  "normalize_text U t = toLowerCase U (filter (\<lambda>u. \<not> is_mark u) (nfd U t))"

text \<open>White space and line terminators of \<open>trim\<close> and \<open>\s\<close>.\<close>

definition is_space :: "16 word \<Rightarrow> bool" where
  "is_space u \<longleftrightarrow> 9 \<le> u \<and> u \<le> 13 \<or> 0x2000 \<le> u \<and> u \<le> 0x200A \<or>
     u \<in> {32, 0xA0, 0x1680, 0x2028, 0x2029, 0x202F, 0x205F, 0x3000, 0xFEFF}"

definition trim_text :: "units \<Rightarrow> units" where
  "trim_text t = rev (dropWhile is_space (rev (dropWhile is_space t)))"

text \<open>\<open>indexOf(needle, position)\<close>, \<open>None\<close> for \<open>-1\<close>.\<close>

fun index_at :: "units \<Rightarrow> nat \<Rightarrow> units \<Rightarrow> nat option" where
  "index_at needle i [] = (if needle = [] then Some i else None)"
| "index_at needle i (u # us) = (if prefix needle (u # us) then Some i else index_at needle (i + 1) us)"

definition indexOf :: "units \<Rightarrow> units \<Rightarrow> nat \<Rightarrow> nat option" where
  "indexOf haystack needle position = index_at needle (min position (length haystack)) (drop position haystack)"

definition text_slice :: "'a list \<Rightarrow> nat \<Rightarrow> nat \<Rightarrow> 'a list" where
  "text_slice xs a b = take (b - a) (drop a xs)"

subsection \<open>Searching\<close>

record SearchHit =
  hit_message :: StoredMessage
  hit_index :: nat

text \<open>\<open>message.deletedAt\<close> as a condition: set and not 0.\<close>

definition is_deleted :: "StoredMessage \<Rightarrow> bool" where
  "is_deleted m \<longleftrightarrow> m_deletedAt m \<noteq> None \<and> m_deletedAt m \<noteq> Some 0"

fun collect_hits :: "unicode \<Rightarrow> units \<Rightarrow> StoredMessage list \<Rightarrow> SearchHit list" where
  "collect_hits U needle [] = []"
| "collect_hits U needle (m # ms) =
     (if is_deleted m then collect_hits U needle ms
      else case indexOf (normalize_text U (utf16 (m_body m))) needle 0 of
             None \<Rightarrow> collect_hits U needle ms
           | Some i \<Rightarrow> \<lparr>hit_message = m, hit_index = i\<rparr> # collect_hits U needle ms)"

definition searchMessages :: "unicode \<Rightarrow> StoredMessage list \<Rightarrow> units \<Rightarrow> SearchHit list" where
  "searchMessages U ms query =
     (let needle = normalize_text U (trim_text query) in
      if needle = [] then []
      else js_sort (\<lambda>y x. before (m_timestamp (hit_message y)) (m_timestamp (hit_message x))) (collect_hits U needle ms))"

definition searchConversations :: "unicode \<Rightarrow> Conversation list \<Rightarrow> units \<Rightarrow> Conversation list" where
  "searchConversations U cs query =
     (let needle = normalize_text U (trim_text query) in
      if needle = [] then cs
      else filter (\<lambda>c.
        indexOf (normalize_text U (utf16 (case c_displayName c of None \<Rightarrow> [] | Some n \<Rightarrow> n))) needle 0 \<noteq> None \<or>
        indexOf (normalize_text U (utf16 (c_id c))) needle 0 \<noteq> None) cs)"

text \<open>
  The loop of \<open>highlightParts\<close> from the position \<open>cursor\<close>: the parts it pushes, and \<open>None\<close> if it
  never leaves the loop.
\<close>

partial_function (option) highlight_from :: "units \<Rightarrow> units \<Rightarrow> units \<Rightarrow> nat \<Rightarrow> (units \<times> bool) list option" where
  "highlight_from body haystack needle cursor =
     (case indexOf haystack needle cursor of
        None \<Rightarrow> Some (if cursor < length body then [(drop cursor body, False)] else [])
      | Some i \<Rightarrow>
          Option.bind (highlight_from body haystack needle (i + length needle)) (\<lambda>rest. Some (
            (if cursor < i then [(text_slice body cursor i, False)] else []) @
            (text_slice body i (i + length needle), True) # rest)))"

definition highlightParts :: "unicode \<Rightarrow> units \<Rightarrow> units \<Rightarrow> (units \<times> bool) list option" where
  "highlightParts U body query =
     (let needle = normalize_text U (trim_text query) in
      if needle = [] then Some [(body, False)]
      else highlight_from body (normalize_text U body) needle 0)"

subsection \<open>Occurrences\<close>

lemma index_at_Some:
  "index_at needle k us = Some i \<longleftrightarrow> k \<le> i \<and> i \<le> k + length us \<and> prefix needle (drop (i - k) us) \<and>
     (\<forall>j<i - k. \<not> prefix needle (drop j us))"
proof (induction us arbitrary: k)
  case Nil
  then show ?case by (auto simp: prefix_def)
next
  case (Cons u us)
  show ?case
  proof (cases "prefix needle (u # us)")
    case True
    then show ?thesis by (auto intro!: antisym [of k i]) (metis drop0 diff_is_0_eq' le_neq_implies_less zero_less_diff)+
  next
    case False
    have "(\<forall>j<i - k. \<not> prefix needle (drop j (u # us))) \<longleftrightarrow> (\<forall>j<i - Suc k. \<not> prefix needle (drop j us))" if "Suc k \<le> i"
      using False that by (auto simp: less_Suc_eq_0_disj Suc_diff_Suc [symmetric] drop_Cons' split: if_splits)
    moreover have "drop (i - k) (u # us) = drop (i - Suc k) us" if "Suc k \<le> i"
      using that by (simp add: Suc_diff_le [symmetric] drop_Cons')
    moreover have "k \<noteq> i" if "prefix needle (drop (i - k) (u # us))" using that False by auto
    ultimately show ?thesis using Cons.IH [of "Suc k"] False by auto
  qed
qed


lemma indexOf_Some:
  assumes "needle \<noteq> []"
  shows "indexOf h needle k = Some i \<longleftrightarrow> k \<le> i \<and> prefix needle (drop i h) \<and> (\<forall>j. k \<le> j \<and> j < i \<longrightarrow> \<not> prefix needle (drop j h))"
proof (cases "k \<le> length h")
  case True
  have "(\<forall>j<i - k. \<not> prefix needle (drop j (drop k h))) \<longleftrightarrow> (\<forall>j. k \<le> j \<and> j < i \<longrightarrow> \<not> prefix needle (drop j h))" if "k \<le> i"
  proof (intro iffI allI impI)
    fix j assume a: "\<forall>j<i - k. \<not> prefix needle (drop j (drop k h))" and j: "k \<le> j \<and> j < i"
    then have "drop (j - k) (drop k h) = drop j h" "j - k < i - k" by (simp_all add: diff_less_mono)
    then show "\<not> prefix needle (drop j h)" using a by metis
  qed (use that in auto)
  moreover have "i \<le> length h" if "prefix needle (drop i h)"
    using that assms by (cases "i \<le> length h") auto
  ultimately show ?thesis using True by (auto simp: indexOf_def index_at_Some)
next
  case False
  then show ?thesis using assms by (auto simp: indexOf_def)
qed

lemma indexOf_inside:
  assumes "needle \<noteq> []" "indexOf h needle k = Some i"
  shows "k \<le> i" "i + length needle \<le> length h" "k < length h"
proof -
  show "k \<le> i" using assms indexOf_Some by blast
  have p: "prefix needle (drop i h)" using assms indexOf_Some by blast
  then have "length needle \<le> length h - i" using prefix_length_le by fastforce
  then show "i + length needle \<le> length h" using assms(1) by (cases needle) auto
  with \<open>k \<le> i\<close> show "k < length h" using assms(1) by (cases needle) auto
qed

lemma indexOf_contains: "needle \<noteq> [] \<Longrightarrow> indexOf h needle 0 \<noteq> None \<longleftrightarrow> sublist needle h"
proof -
  assume n: "needle \<noteq> []"
  show ?thesis
  proof
    assume "indexOf h needle 0 \<noteq> None"
    then obtain i where "prefix needle (drop i h)" using indexOf_Some [OF n] by blast
    then show "sublist needle h" by (metis append_take_drop_id prefix_def sublist_appendI)
  next
    assume "sublist needle h"
    then obtain ps ss where "h = ps @ needle @ ss" by (auto simp: sublist_def)
    then have "\<exists>i. prefix needle (drop i h)" by (intro exI [of _ "length ps"]) simp
    then have "\<exists>i. prefix needle (drop i h) \<and> (\<forall>j<i. \<not> prefix needle (drop j h))" using exists_least_iff [of "\<lambda>i. prefix needle (drop i h)"] by blast
    then show "indexOf h needle 0 \<noteq> None" using indexOf_Some [OF n, of h 0] by fastforce
  qed
qed

subsection \<open>Highlighting\<close>

lemma slice_rest: "text_slice b i j @ drop j b = drop i b" if "i \<le> j"
  using that by (metis append_take_drop_id drop_drop le_add_diff_inverse2 text_slice_def)

lemma highlight_covers:
  assumes "needle \<noteq> []"
  shows "\<exists>parts. highlight_from body haystack needle cursor = Some parts \<and> concat (map fst parts) = drop cursor body \<and>
     (\<forall>(t, hit)\<in>set parts. hit \<longrightarrow> (\<exists>i. prefix needle (drop i haystack) \<and> t = text_slice body i (i + length needle)))"
proof (induction "length haystack - cursor" arbitrary: cursor rule: less_induct)
  case less
  show ?case
  proof (cases "indexOf haystack needle cursor")
    case None
    then show ?thesis by (subst highlight_from.simps) auto
  next
    case (Some i)
    note i = indexOf_inside [OF assms Some]
    have "prefix needle (drop i haystack)" using Some indexOf_Some [OF assms] by blast
    moreover have "length haystack - (i + length needle) < length haystack - cursor" using i assms by (cases needle) auto
    from less [OF this] obtain rest where r: "highlight_from body haystack needle (i + length needle) = Some rest"
      "concat (map fst rest) = drop (i + length needle) body"
      "\<forall>(t, hit)\<in>set rest. hit \<longrightarrow> (\<exists>i. prefix needle (drop i haystack) \<and> t = text_slice body i (i + length needle))"
      by blast
    moreover have "text_slice body i (i + length needle) @ drop (i + length needle) body = drop i body" by (rule slice_rest) simp
    ultimately show ?thesis using Some i(1) slice_rest [OF i(1), of body]
      by (subst highlight_from.simps) (auto intro!: exI [of _ i])
  qed
qed


lemma hit_text:
  assumes "\<And>t. normalize_text U t = map f t" "prefix needle (drop i (normalize_text U body))"
  shows "normalize_text U (text_slice body i (i + length needle)) = needle"
proof -
  have "needle = take (length needle) (map f (drop i body))" using assms by (metis drop_map prefix_def append_eq_conv_conj)
  then show ?thesis unfolding text_slice_def assms(1) by (metis add_diff_cancel_left' take_map)
qed

lemma collect_hits_filter:
  assumes "needle \<noteq> []"
  shows "map hit_message (collect_hits U needle ms)
     = filter (\<lambda>m. \<not> is_deleted m \<and> sublist needle (normalize_text U (utf16 (m_body m)))) ms"
  by (induction ms) (auto simp flip: indexOf_contains [OF assms] split: option.split)

lemma collect_hits_index:
  assumes "h \<in> set (collect_hits U needle ms)"
  shows "indexOf (normalize_text U (utf16 (m_body (hit_message h)))) needle 0 = Some (hit_index h)"
  using assms by (induction ms) (auto split: if_splits option.splits)

lemma collect_hits_from: "h \<in> set (collect_hits U needle ms) \<Longrightarrow> hit_message h \<in> set ms"
  by (induction ms) (auto split: if_splits option.splits)

subsection \<open>Properties\<close>

text \<open>
  Highlighting shows the whole message and nothing else: for every body and query and
  whatever the Unicode tables do, the loop ends and the parts put together are the body, none of it
  lost, repeated or moved. If the tables treat text character by character, every part marked as a
  match normalises to the query.
\<close>

theorem highlight_shows_whole_text:
  "\<exists>parts. highlightParts U body query = Some parts \<and> concat (map fst parts) = body \<and>
     ((\<forall>t. normalize_text U t = map f t) \<longrightarrow> (\<forall>(t, hit)\<in>set parts. hit \<longrightarrow> normalize_text U t = normalize_text U (trim_text query)))"
proof (cases "normalize_text U (trim_text query) = []")
  case False
  then show ?thesis using highlight_covers [OF False, of body "normalize_text U body" 0] hit_text [of U f "normalize_text U (trim_text query)" _ body]
    by (fastforce simp: highlightParts_def Let_def)
qed (simp add: highlightParts_def)

text \<open>
  Search is exact: the hits are the messages, each as often as it is listed, that are not
  deleted and whose normalised body contains the normalised query; each hit carries the position of
  the first occurrence; and when all messages have a time the newest come first.
\<close>

theorem search_finds_exactly:
  assumes "normalize_text U (trim_text query) = needle" "needle \<noteq> []"
  shows "mset (map hit_message (searchMessages U ms query))
       = mset (filter (\<lambda>m. \<not> is_deleted m \<and> sublist needle (normalize_text U (utf16 (m_body m)))) ms) \<and>
     (\<forall>h\<in>set (searchMessages U ms query). let b = normalize_text U (utf16 (m_body (hit_message h))) in
        prefix needle (drop (hit_index h) b) \<and> (\<forall>j<hit_index h. \<not> prefix needle (drop j b))) \<and>
     ((\<forall>m\<in>set ms. m_timestamp m \<noteq> None) \<longrightarrow>
        sorted_wrt (\<lambda>a b. the (m_timestamp (hit_message b)) \<le> the (m_timestamp (hit_message a))) (searchMessages U ms query))"
proof -
  let ?hits = "collect_hits U needle ms"
  let ?after = "\<lambda>y x. before (m_timestamp (hit_message y)) (m_timestamp (hit_message x))"
  have s: "searchMessages U ms query = js_sort ?after ?hits" using assms by (simp add: searchMessages_def)
  have "mset (map hit_message (searchMessages U ms query)) = mset (map hit_message ?hits)" by (simp add: s)
  moreover have "set (searchMessages U ms query) = set ?hits" unfolding s by (metis mset_js_sort set_mset_mset)
  moreover have "sorted_wrt (\<lambda>a b. the (m_timestamp (hit_message b)) \<le> the (m_timestamp (hit_message a))) (js_sort ?after ?hits)"
    if t: "\<forall>m\<in>set ms. m_timestamp m \<noteq> None"
  proof -
    let ?key = "\<lambda>h. - the (m_timestamp (hit_message h))"
    have "js_sort ?after ?hits = js_sort (\<lambda>y x. ?key x < ?key y) ?hits"
      by (rule js_sort_cong) (use t collect_hits_from before_the in force)
    then show ?thesis using sorted_js_sort [of ?key ?hits] by (simp add: sorted_map)
  qed
  moreover have "prefix needle (drop (hit_index h) b) \<and> (\<forall>j<hit_index h. \<not> prefix needle (drop j b))"
    if "h \<in> set ?hits" "b = normalize_text U (utf16 (m_body (hit_message h)))" for h b
    using collect_hits_index [OF that(1)] that(2) indexOf_Some [OF assms(2)] by simp
  ultimately show ?thesis unfolding Let_def collect_hits_filter [OF assms(2)] s by simp
qed

subsection \<open>Examples\<close>

text \<open>A table of single characters: ASCII letters lose their case, e with an acute accent its accent.\<close>

definition demo_fold :: "16 word \<Rightarrow> 16 word" where
  "demo_fold u = (if 65 \<le> u \<and> u \<le> 90 then u + 32 else if u = 0xE9 then 101 else u)"

definition demo_unicode :: unicode where
  "demo_unicode = \<lparr>nfd = map (\<lambda>u. if is_mark u then 63 else u), toLowerCase = map demo_fold\<rparr>"

lemma demo_normalize: "normalize_text demo_unicode t = map (demo_fold \<circ> (\<lambda>u. if is_mark u then 63 else u)) t"
proof -
  have "\<not> is_mark 63" by (simp add: is_mark_def)
  then have "filter (\<lambda>u. \<not> is_mark u) (map (\<lambda>u. if is_mark u then 63 else u) t) = map (\<lambda>u. if is_mark u then 63 else u) t"
    by (induction t) auto
  then show ?thesis by (simp add: normalize_text_def demo_unicode_def)
qed

theorem highlight_shows_whole_text_witness:
  "\<exists>parts. highlightParts demo_unicode (utf16 ''a Cafe'') (utf16 ''CAFE '') = Some parts \<and>
     (\<forall>(t, hit)\<in>set parts. hit \<longrightarrow> normalize_text demo_unicode t = utf16 ''cafe'')"
proof -
  let ?f = "demo_fold \<circ> (\<lambda>u. if is_mark u then 63 else u)"
  have q: "normalize_text demo_unicode (trim_text (utf16 ''CAFE '')) = utf16 ''cafe''"
    by (simp add: demo_normalize demo_fold_def trim_text_def is_space_def is_mark_def)
  have "\<forall>t. normalize_text demo_unicode t = map ?f t" by (simp only: demo_normalize simp_thms)
  then show ?thesis
    using highlight_shows_whole_text [of demo_unicode "utf16 ''a Cafe''" "utf16 ''CAFE ''" ?f] unfolding q by blast
qed

theorem search_finds_exactly_witness:
  "mset (map hit_message (searchMessages demo_unicode [demo_note, demo_note] (utf16 ''HI''))) = {#demo_note, demo_note#}"
proof -
  have "normalize_text demo_unicode (trim_text (utf16 ''HI'')) = utf16 ''hi''" "utf16 ''hi'' \<noteq> []"
    by (simp_all add: demo_normalize demo_fold_def trim_text_def is_space_def is_mark_def)
  moreover have "normalize_text demo_unicode (utf16 (m_body demo_note)) = utf16 ''hi''" "\<not> is_deleted demo_note"
    by (simp_all add: demo_normalize demo_fold_def is_mark_def demo_note_def is_deleted_def)
  ultimately show ?thesis using search_finds_exactly [of demo_unicode "utf16 ''HI''" "utf16 ''hi''" "[demo_note, demo_note]"]
    by (simp del: utf16.simps)
qed

end
