(* ===== verification/Format.thy ===== *)
theory Format
  imports Search Identity
begin

section \<open>Presentation helpers and notifications (\<open>client/format.ts\<close>, \<open>client/notify.ts\<close>)\<close>

text \<open>
  Pure functions between the engine and the screen. The viewer's time zone and locale are the
  platform's: a parameter \<open>calendar\<close> gives the number of the local day an instant falls on and the
  locale's way of writing it. A \<open>Date\<close> out of range, or made of an absent timestamp, is invalid.
\<close>

subsection \<open>Account ids\<close>

text \<open>The groups of \<open>formatAccountId\<close>; with a group size of 0 the loop does not end.\<close>

partial_function (option) id_groups :: "nat \<Rightarrow> units \<Rightarrow> units list option" where
  "id_groups groupSize s =
     (if s = [] then Some []
      else Option.bind (id_groups groupSize (drop groupSize s)) (\<lambda>rest. Some (take groupSize s # rest)))"

fun join_units :: "units \<Rightarrow> units list \<Rightarrow> units" where
  "join_units sep [] = []"
| "join_units sep [g] = g"
| "join_units sep (g # gs) = g @ sep @ join_units sep gs"

definition formatAccountId :: "units \<Rightarrow> nat \<Rightarrow> units option" where
  "formatAccountId s groupSize = map_option (join_units [32]) (id_groups groupSize s)"

definition shortAccountId :: "units \<Rightarrow> units" where
  "shortAccountId s = (if length s \<le> 12 then s else take 6 s @ [0x2026] @ drop (length s - 4) s)"

text \<open>What passes the pattern is ASCII, so it is a string again.\<close>

definition is_id_unit :: "16 word \<Rightarrow> bool" where
  "is_id_unit u \<longleftrightarrow> 65 \<le> u \<and> u \<le> 90 \<or> 97 \<le> u \<and> u \<le> 122 \<or> 48 \<le> u \<and> u \<le> 57 \<or> u = 95 \<or> u = 45"

definition normalizeAccountId :: "units \<Rightarrow> string option" where
  "normalizeAccountId raw =
     (let trimmed = filter (\<lambda>u. \<not> is_space u) (trim_text raw) in
      if length trimmed \<noteq> 43 then None
      else if \<not> list_all is_id_unit trimmed then None
      else Some (map (char_of \<circ> unat) trimmed))"

subsection \<open>Days\<close>

record calendar =
  local_day :: "number \<Rightarrow> int"
  dateString :: "int \<Rightarrow> bool \<Rightarrow> string"
  timeString :: "number option \<Rightarrow> string"

definition date_of :: "calendar \<Rightarrow> number option \<Rightarrow> int option" where
  "date_of C t = (case t of None \<Rightarrow> None | Some x \<Rightarrow> if \<bar>x\<bar> \<le> 8640000000000000 then Some (local_day C x) else None)"

text \<open>\<open>getFullYear\<close> of a day, counted from 1970-01-01 in the Gregorian calendar.\<close>

definition getFullYear :: "int \<Rightarrow> int" where
  "getFullYear day =
     (let z = day + 719468; era = z div 146097; doe = z mod 146097;
          yoe = (doe - doe div 1460 + doe div 36524 - doe div 146096) div 365;
          doy = doe - (365 * yoe + yoe div 4 - yoe div 100)
      in yoe + era * 400 + (if (5 * doy + 2) div 153 \<ge> 10 then 1 else 0))"

definition formatTime :: "calendar \<Rightarrow> number option \<Rightarrow> string" where
  "formatTime C t = timeString C t"

definition formatDay :: "calendar \<Rightarrow> number option \<Rightarrow> number \<Rightarrow> string" where
  "formatDay C t now =
     (case date_of C t of
        None \<Rightarrow> ''Invalid Date''
      | Some date \<Rightarrow>
          (case date_of C (Some now) of
             None \<Rightarrow> dateString C date True
           | Some today \<Rightarrow>
               if date = today then ''Today''
               else if date = today - 1 then ''Yesterday''
               else dateString C date (getFullYear date \<noteq> getFullYear today)))"

text \<open>One turn of the loop of \<open>groupByDay\<close>: the message joins the last group or opens a new one.\<close>

definition add_to_day :: "(string \<times> StoredMessage list) list \<Rightarrow> string \<times> StoredMessage \<Rightarrow> (string \<times> StoredMessage list) list" where
  "add_to_day groups = (\<lambda>(day, m).
     if groups \<noteq> [] \<and> fst (last groups) = day
     then butlast groups @ [(day, snd (last groups) @ [m])]
     else groups @ [(day, [m])])"

definition groupByDay :: "calendar \<Rightarrow> StoredMessage list \<Rightarrow> number \<Rightarrow> (string \<times> StoredMessage list) list" where
  "groupByDay C ms now = foldl (\<lambda>groups m. add_to_day groups (formatDay C (m_timestamp m) now, m)) [] ms"

subsection \<open>Messages\<close>

text \<open>The check mark is U+2713, the circle U+25CB, the dash U+2014, the clip U+1F4CE.\<close>

fun statusSymbol :: "MessageStatus \<Rightarrow> units" where
  "statusSymbol Pending = [0x25CB]"
| "statusSymbol Sent = [0x2713]"
| "statusSymbol StDelivered = [0x2713, 0x2713]"
| "statusSymbol StRead = [0x2713, 0x2713]"
| "statusSymbol Failed = [33]"

fun statusLabel :: "MessageStatus \<Rightarrow> units" where
  "statusLabel Pending = utf16 ''Sending''"
| "statusLabel Sent = utf16 ''Sent''"
| "statusLabel StDelivered = utf16 ''Delivered''"
| "statusLabel StRead = utf16 ''Read''"
| "statusLabel Failed = utf16 ''Failed to send '' @ [0x2014] @ utf16 '' select to retry''"

text \<open>\<open>toFixed(1)\<close> of \<open>n / d\<close>, the quotient by a power of two being exact: ties go up.\<close>

definition to_fixed1 :: "nat \<Rightarrow> nat \<Rightarrow> string" where
  "to_fixed1 n d = (let tenths = (20 * n + d) div (2 * d) in show_nat (tenths div 10) @ ''.'' @ show_nat (tenths mod 10))"

definition formatBytes :: "nat \<Rightarrow> string" where
  "formatBytes n =
     (if n < 1024 then show_nat n @ '' B''
      else if n < 1024 * 1024 then to_fixed1 n 1024 @ '' KB''
      else to_fixed1 n (1024 * 1024) @ '' MB'')"

definition previewOf :: "StoredMessage option \<Rightarrow> units" where
  "previewOf message = (case message of
     None \<Rightarrow> utf16 ''No messages yet''
   | Some m \<Rightarrow>
       if is_deleted m then utf16 ''Message deleted''
       else case m_attachment m of
         None \<Rightarrow> utf16 (m_body m)
       | Some a \<Rightarrow> if m_body m \<noteq> [] then utf16 (m_body m)
                  else [0xD83D, 0xDCCE, 32] @ utf16 (case sa_name a of None \<Rightarrow> ''undefined'' | Some n \<Rightarrow> n))"

subsection \<open>Notifier\<close>

datatype NotificationDetail = HiddenDetail | SenderDetail | MessageDetail

datatype NotificationPermission = Granted | Denied | DefaultPermission

record Notifier =
  detail :: NotificationDetail
  notification_api :: "NotificationPermission option"

record Notification =
  nt_title :: string
  nt_body :: string
  nt_tag :: string

definition new_Notifier :: "NotificationDetail option \<Rightarrow> NotificationPermission option \<Rightarrow> Notifier" where
  "new_Notifier d api = \<lparr>detail = (case d of None \<Rightarrow> HiddenDetail | Some d \<Rightarrow> d), notification_api = api\<rparr>"

definition available :: "Notifier \<Rightarrow> bool" where
  "available n \<longleftrightarrow> notification_api n \<noteq> None"

text \<open>\<open>None\<close> is \<open>"unavailable"\<close>; \<open>reply\<close> is what the user replies if asked.\<close>

definition permission :: "Notifier \<Rightarrow> NotificationPermission option" where
  "permission n = notification_api n"

definition request_permission :: "NotificationPermission \<Rightarrow> Notifier \<Rightarrow> Notifier \<times> NotificationPermission option" where
  "request_permission reply n =
     (case notification_api n of
        None \<Rightarrow> (n, None)
      | Some p \<Rightarrow> if p \<noteq> DefaultPermission then (n, Some p) else (n\<lparr>notification_api := Some reply\<rparr>, Some reply))"

definition notify :: "Notifier \<Rightarrow> bool \<Rightarrow> string \<Rightarrow> string \<Rightarrow> Notification option" where
  "notify n focused sender body =
     (if notification_api n \<noteq> Some Granted then None
      else if focused then None
      else Some \<lparr>nt_title = (if detail n = HiddenDetail then ''New message'' else ''Message from '' @ sender),
                 nt_body = (if detail n = MessageDetail then body else []), nt_tag = ''shatters-message''\<rparr>)"


subsection \<open>Pasting an account id\<close>

lemma id_groups_total:
  assumes "0 < n"
  shows "\<exists>gs. id_groups n s = Some gs \<and> concat gs = s"
proof (induction s rule: length_induct)
  case (1 s)
  show ?case
  proof (cases "s = []")
    case True
    then show ?thesis by (simp add: id_groups.simps)
  next
    case False
    then have "length (drop n s) < length s" using assms by simp
    with 1 obtain gs where "id_groups n (drop n s) = Some gs" "concat gs = drop n s" by blast
    then show ?thesis using False by (subst id_groups.simps) simp
  qed
qed

lemma join_units_filter: "\<not> P u \<Longrightarrow> filter P (join_units [u] gs) = filter P (concat gs)"
  by (induction "[u]" gs rule: join_units.induct) simp_all

lemma filter_trim: "filter (\<lambda>u. \<not> is_space u) (trim_text t) = filter (\<lambda>u. \<not> is_space u) t"
proof -
  have d: "filter (\<lambda>u. \<not> is_space u) (dropWhile is_space xs) = filter (\<lambda>u. \<not> is_space u) xs" for xs
    by (induction xs) auto
  have "filter (\<lambda>u. \<not> is_space u) (trim_text t) = rev (filter (\<lambda>u. \<not> is_space u) (dropWhile is_space (rev (dropWhile is_space t))))"
    by (simp add: trim_text_def rev_filter)
  then show ?thesis by (simp add: d rev_filter)
qed

lemma account_units:
  assumes "list_all is_account_char s"
  shows "utf16 s = map (of_nat \<circ> of_char) s" "list_all is_id_unit (utf16 s)" "list_all (\<lambda>u. \<not> is_space u) (utf16 s)"
    "map (char_of \<circ> unat) (utf16 s) = s"
proof -
  have c: "of_char c < (128 :: nat) \<and> is_id_unit (of_nat (of_char c)) \<and> \<not> is_space (of_nat (of_char c)) \<and>
      char_of (unat (of_nat (of_char c) :: 16 word)) = c" if "is_account_char c" for c
  proof -
    have "list_all (\<lambda>c. of_char c < (128 :: nat) \<and> is_id_unit (of_nat (of_char c)) \<and> \<not> is_space (of_nat (of_char c)) \<and>
        char_of (unat (of_nat (of_char c) :: 16 word)) = c) ''ABCDEFGHIJKLMNOPQRSTUVWXYZabcdefghijklmnopqrstuvwxyz0123456789_-''"
      by code_simp
    then show ?thesis using that by (simp only: is_account_char_def list_all_iff) blast
  qed
  show u: "utf16 s = map (of_nat \<circ> of_char) s" using assms by (induction s) (auto simp: c Let_def)
  show "list_all is_id_unit (utf16 s)" "list_all (\<lambda>u. \<not> is_space u) (utf16 s)" "map (char_of \<circ> unat) (utf16 s) = s"
    using assms unfolding u by (induction s) (simp_all add: c)
qed

subsection \<open>Grouping\<close>

definition day_groups_ok :: "calendar \<Rightarrow> number \<Rightarrow> StoredMessage list \<Rightarrow> (string \<times> StoredMessage list) list \<Rightarrow> bool" where
  "day_groups_ok C now ms groups \<longleftrightarrow> concat (map snd groups) = ms \<and> distinct_adj (map fst groups) \<and>
     (\<forall>(day, g)\<in>set groups. g \<noteq> [] \<and> (\<forall>m\<in>set g. formatDay C (m_timestamp m) now = day))"

lemma add_to_day_ok:
  assumes "day_groups_ok C now ms groups"
  shows "day_groups_ok C now (ms @ [m]) (add_to_day groups (formatDay C (m_timestamp m) now, m))"
proof (cases groups rule: rev_cases)
  case Nil
  then show ?thesis using assms by (simp add: day_groups_ok_def add_to_day_def)
next
  case (snoc gs g)
  then show ?thesis using assms
    by (cases g) (auto simp: day_groups_ok_def add_to_day_def distinct_adj_append_iff)
qed

lemma groupByDay_ok: "day_groups_ok C now ms (groupByDay C ms now)"
proof (induction ms rule: rev_induct)
  case (snoc m ms)
  then show ?case using add_to_day_ok [OF snoc] by (simp add: groupByDay_def)
qed (simp add: groupByDay_def day_groups_ok_def)

subsection \<open>Properties\<close>

text \<open>
  Claim C38. An account id survives being shown and pasted: the grouped form \<open>formatAccountId\<close> shows,
  with any white space copied along around it, is read back by \<open>normalizeAccountId\<close> as exactly that
  id; and whatever \<open>normalizeAccountId\<close> accepts has the form of an account id.
\<close>

theorem pasted_account_id:
  assumes "sha256_law S" "0 < groupSize" "list_all is_space before_it" "list_all is_space after_it"
  shows "(\<exists>shown. formatAccountId (utf16 (accountId S k)) groupSize = Some shown \<and>
       normalizeAccountId (before_it @ shown @ after_it) = Some (accountId S k)) \<and>
     (\<forall>raw i. normalizeAccountId raw = Some i \<longrightarrow> length i = 43 \<and> list_all is_account_char i)"
proof
  let ?u = "utf16 (accountId S k)"
  note u = account_units [OF accountId_chars [of S k]]
  obtain gs where gs: "id_groups groupSize ?u = Some gs" "concat gs = ?u" using id_groups_total [OF assms(2)] by blast
  have none: "filter (\<lambda>u. \<not> is_space u) s = []" if "list_all is_space s" for s using that by (simp add: list_all_iff filter_empty_conv)
  have "is_space 32" by (simp add: is_space_def)
  then have "filter (\<lambda>u. \<not> is_space u) (trim_text (before_it @ join_units [32] gs @ after_it)) = ?u"
    using u(3) assms(3,4) gs(2) by (simp add: filter_trim none join_units_filter filter_id_conv list_all_iff)
  then show "\<exists>shown. formatAccountId ?u groupSize = Some shown \<and> normalizeAccountId (before_it @ shown @ after_it) = Some (accountId S k)"
    using u(1,2,4) gs(1) length_accountId [OF assms(1)] by (simp add: formatAccountId_def normalizeAccountId_def Let_def)
  have "is_account_char (char_of (unat u))" if "is_id_unit u" for u :: "16 word"
  proof -
    have "list_all (\<lambda>n. is_id_unit (of_nat n) \<longrightarrow> is_account_char (char_of n)) [0..<128]" by code_simp
    moreover have "unat u < 128" using that by (auto simp: is_id_unit_def word_le_nat_alt)
    ultimately show ?thesis using that by (force simp: list_all_iff)
  qed
  then show "\<forall>raw i. normalizeAccountId raw = Some i \<longrightarrow> length i = 43 \<and> list_all is_account_char i"
    by (auto simp: normalizeAccountId_def Let_def list_all_iff split: if_splits)
qed

text \<open>
  Day headings keep the conversation: the groups of \<open>groupByDay\<close> put together are the
  messages in their order, no group is empty, every message stands under the heading of its own day,
  and a heading is never repeated for consecutive groups.
\<close>

theorem day_headings_keep_order:
  "concat (map snd (groupByDay C ms now)) = ms \<and> distinct_adj (map fst (groupByDay C ms now)) \<and>
   list_all (\<lambda>(day, g). g \<noteq> [] \<and> list_all (\<lambda>m. formatDay C (m_timestamp m) now = day) g) (groupByDay C ms now)"
  using groupByDay_ok [of C now ms] by (auto simp: day_groups_ok_def list_all_iff)

text \<open>
  Notifications do not leak: with the default options the notification is the same whoever
  wrote whatever, only the \<open>message\<close> detail makes it depend on the text, and nothing is shown while the
  window has the focus or without permission.
\<close>

theorem notifications_do_not_leak:
  "notify (new_Notifier None api) focused sender body = notify (new_Notifier None api) focused sender2 body2 \<and>
   (detail n = MessageDetail \<or> notify n focused sender body = notify n focused sender body2) \<and>
   notify n True sender body = None \<and>
   notify (n\<lparr>notification_api := Some Denied\<rparr>) focused sender body = None \<and>
   notify (n\<lparr>notification_api := None\<rparr>) focused sender body = None"
  by (simp add: notify_def new_Notifier_def)

text \<open>Just below a mebibyte the rounding produces a size in a unit that is too small.\<close>

lemma formatBytes_rounds_up: "formatBytes 1048575 = ''1024.0 KB''"
  by (simp add: formatBytes_def to_fixed1_def show_nat.simps digit_char_def Let_def) code_simp

theorem pasted_account_id_witness:
  "\<exists>shown. formatAccountId (utf16 (accountId demo_sodium [5])) 7 = Some shown \<and>
     normalizeAccountId ([32, 9] @ shown @ [10]) = Some (accountId demo_sodium [5])"
  using pasted_account_id [OF demo_sha256_law, of 7 "[32, 9]" "[10]" "[5]"] by (simp add: is_space_def)

end
