(* ===== verification/Api.thy ===== *)
theory Api
  imports X3DH Chat_Types
begin

section \<open>REST client (\<open>transport/api.ts\<close>)\<close>

text \<open>
  \<open>fetch\<close> is injected in the code and a parameter here: an effect on the state of the network and of
  the server behind it, whose error is a request that got no response. A response body is the text
  that arrives, or \<open>None\<close> when reading it fails. Replies are read with unchecked casts in the code; a
  base64 field is decoded from whatever its conversion to a string is, as \<open>atob\<close> does, an optional or
  unused result of another type than declared counts as \<open>undefined\<close>, and an id or number the client
  computes with is a \<open>TypeError\<close> when it has another type. The state of an \<open>ApiClient\<close> is its token.
\<close>

record Request =
  rq_method :: string
  rq_url :: string
  rq_headers :: "(string \<times> string) list"
  rq_body :: "string option"

record Response =
  resp_status :: nat
  resp_body :: "string option"

record 'n ApiConfig =
  baseUrl :: string
  fetchImpl :: "Request \<Rightarrow> ('n, Response) effect"

record 'n ApiState =
  token :: "string option"
  net :: 'n

record QueuedEnvelope =
  qe_id :: string
  qe_senderId :: string
  qe_payload :: bytes
  qe_createdAt :: string

definition new_ApiClient :: "string \<Rightarrow> (Request \<Rightarrow> ('n, Response) effect) \<Rightarrow> 'n ApiConfig" where
  "new_ApiClient url fetch = \<lparr>baseUrl = rev (dropWhile (\<lambda>c. c = CHR ''/'') (rev url)), fetchImpl = fetch\<rparr>"

definition sessionToken :: "'n ApiState \<Rightarrow> string option" where
  "sessionToken s = token s"

definition b64 :: "bytes \<Rightarrow> string" where
  "b64 content = btoa (binary_string content)"

definition fromBase64 :: "string \<Rightarrow> bytes result" where
  "fromBase64 text = of_option InvalidCharacterError (map_option from_binary_string (atob text))"

text \<open>\<open>encodeURIComponent\<close> on the UTF-8 bytes of its argument.\<close>

definition uri_plain :: "char \<Rightarrow> bool" where
  "uri_plain c \<longleftrightarrow> is_digit c \<or> (CHR ''A'' \<le> c \<and> c \<le> CHR ''Z'') \<or> (CHR ''a'' \<le> c \<and> c \<le> CHR ''z'') \<or>
     c \<in> set ''-_.!~*()'' \<or> of_char c = (39 :: nat)"

definition hex_upper :: "nat \<Rightarrow> char" where
  "hex_upper d = (if d < 10 then digit_char d else char_of (55 + d))"

definition encodeURIComponent :: "string \<Rightarrow> string" where
  "encodeURIComponent s =
     concat (map (\<lambda>c. if uri_plain c then [c]
                      else [CHR ''%'', hex_upper (of_char c div 16), hex_upper (of_char c mod 16)]) s)"

subsection \<open>One request\<close>

definition authorized :: "'n ApiState \<Rightarrow> bool" where
  "authorized s \<longleftrightarrow> (case token s of None \<Rightarrow> False | Some t \<Rightarrow> t \<noteq> [])"

definition headers_of :: "json option \<Rightarrow> bool \<Rightarrow> 'n ApiState \<Rightarrow> (string \<times> string) list" where
  "headers_of body authenticated s =
     (if body \<noteq> None then [(''content-type'', ''application/json'')] else []) @
     (if authenticated then [(''authorization'', ''Bearer '' @ the (token s))] else [])"

definition build_request :: "'n ApiConfig \<Rightarrow> string \<Rightarrow> string \<Rightarrow> json option \<Rightarrow> bool \<Rightarrow> 'n ApiState \<Rightarrow> Request" where
  "build_request A verb path body authenticated s =
     \<lparr>rq_method = verb, rq_url = baseUrl A @ path, rq_headers = headers_of body authenticated s,
      rq_body = map_option json_print body\<rparr>"

text \<open>\<open>response.json()\<close>.\<close>

definition response_json :: "Response \<Rightarrow> json result" where
  "response_json response =
     (case resp_body response of None \<Rightarrow> Inl TypeError | Some text \<Rightarrow> of_option SyntaxError (json_parse text))"

definition response_ok :: "Response \<Rightarrow> bool" where
  "response_ok response \<longleftrightarrow> 200 \<le> resp_status response \<and> resp_status response \<le> 299"

definition error_message :: "string \<Rightarrow> string \<Rightarrow> Response \<Rightarrow> string" where
  "error_message verb path response =
     (let generic = verb @ '' '' @ path @ '' returned '' @ show_nat (resp_status response)
      in case response_json response of
           Inl _ \<Rightarrow> generic
         | Inr parsed \<Rightarrow> if truthy (field parsed ''error'') then to_string (field parsed ''error'') else generic)"

definition read_response :: "string \<Rightarrow> string \<Rightarrow> Response \<Rightarrow> json option result" where
  "read_response verb path response =
     (if \<not> response_ok response then Inl (ApiError (resp_status response) (error_message verb path response))
      else if resp_status response = 204 then Inr None
      else rbind (response_json response) (\<lambda>j. Inr (Some j)))"

definition request ::
  "'n ApiConfig \<Rightarrow> string \<Rightarrow> string \<Rightarrow> json option \<Rightarrow> bool \<Rightarrow> ('n ApiState, json option) effect" where
  "request A verb path body authenticated = (\<lambda>s.
     if authenticated \<and> \<not> authorized s then (s, Inl (ApiError 401 ''not authenticated''))
     else case fetchImpl A (build_request A verb path body authenticated s) (net s) of
            (n, Inl cause) \<Rightarrow> (s\<lparr>net := n\<rparr>, Inl (NetworkError (verb @ '' '' @ path @ '' failed'')))
          | (n, Inr response) \<Rightarrow> (s\<lparr>net := n\<rparr>, read_response verb path response))"

subsection \<open>The calls\<close>

text \<open>\<open>body.name\<close>, of the declared type.\<close>

definition want :: "(json option \<Rightarrow> 'a option) \<Rightarrow> json option \<Rightarrow> string \<Rightarrow> 'a result" where
  "want view body name = rbind (field_of body name) (\<lambda>v. of_option TypeError (view v))"

definition want_bytes :: "json option \<Rightarrow> string \<Rightarrow> bytes result" where
  "want_bytes body name = rbind (field_of body name) (\<lambda>v. fromBase64 (to_string v))"

definition prekey_json :: "nat \<times> bytes \<Rightarrow> json" where
  "prekey_json k = jobj [(''id'', Some (jnat (fst k))), (''public_key'', Some (JStr (b64 (snd k))))]"

definition signed_prekey_json :: "SignedPrekey \<Rightarrow> json" where
  "signed_prekey_json k =
     jobj [(''id'', Some (jnat (spk_id k))), (''public_key'', Some (JStr (b64 (spk_publicKey k)))),
           (''signature'', Some (JStr (b64 (spk_signature k))))]"

definition register_body :: "bytes \<Rightarrow> bytes \<Rightarrow> bytes \<Rightarrow> SignedPrekey \<Rightarrow> (nat \<times> bytes) list \<Rightarrow> json" where
  "register_body identityKey dhKey dhSignature spk oneTimePrekeys =
     jobj [(''identity_key'', Some (JStr (b64 identityKey))), (''identity_dh_key'', Some (JStr (b64 dhKey))),
           (''identity_dh_signature'', Some (JStr (b64 dhSignature))),
           (''signed_prekey'', Some (signed_prekey_json spk)),
           (''one_time_prekeys'', Some (JArr (map prekey_json oneTimePrekeys)))]"

definition api_register ::
  "sodium \<Rightarrow> 'n ApiConfig \<Rightarrow> Identity \<Rightarrow> SignedPrekey \<Rightarrow> (nat \<times> bytes) list \<Rightarrow> ('n ApiState, string option) effect" where
  "api_register S A identity spk oneTimePrekeys =
     sbind (slift (signIdentityDhKey S identity)) (\<lambda>dhSignature.
     sbind (request A ''POST'' ''/v1/accounts''
              (Some (register_body (publicKey (signing identity)) (publicKey (dh identity)) dhSignature
                       spk oneTimePrekeys)) False) (\<lambda>body.
     sbind (slift (field_of body ''account_id'')) (\<lambda>v. sreturn (str_view v))))"

definition authenticate :: "sodium \<Rightarrow> 'n ApiConfig \<Rightarrow> Identity \<Rightarrow> string \<Rightarrow> ('n ApiState, string option) effect" where
  "authenticate S A identity account =
     sbind (request A ''POST'' ''/v1/auth/challenge'' (Some (jobj [(''account_id'', Some (JStr account))])) False) (\<lambda>challenge.
     sbind (slift (want_bytes challenge ''nonce'')) (\<lambda>nonce.
     sbind (slift (createAuthProof S (privateKey (signing identity)) nonce)) (\<lambda>proof.
     sbind (slift (field_of challenge ''nonce'')) (\<lambda>challenge_nonce.
     sbind (request A ''POST'' ''/v1/auth/verify''
              (Some (jobj [(''account_id'', Some (JStr account)), (''nonce'', challenge_nonce),
                           (''signature'', Some (JStr (b64 proof)))])) False) (\<lambda>verified.
     sbind (slift (field_of verified ''token'')) (\<lambda>v.
     sbind (smodify (\<lambda>s. s\<lparr>token := str_view v\<rparr>)) (\<lambda>_.
     sreturn (str_view v))))))))"

definition useToken :: "string \<Rightarrow> ('n ApiState, unit) effect" where
  "useToken t = smodify (\<lambda>s. s\<lparr>token := Some t\<rparr>)"

definition read_bundle :: "json option \<Rightarrow> PrekeyBundle result" where
  "read_bundle body =
     rbind (want_bytes body ''identity_key'') (\<lambda>ik.
     rbind (want_bytes body ''identity_dh_key'') (\<lambda>idk.
     rbind (field_of body ''identity_dh_signature'') (\<lambda>sig.
     rbind (fromBase64 (if sig = None \<or> sig = Some JNull then [] else to_string sig)) (\<lambda>idkSig.
     rbind (field_of body ''signed_prekey'') (\<lambda>spk.
     rbind (want nat_view spk ''id'') (\<lambda>spkId.
     rbind (want_bytes spk ''public_key'') (\<lambda>spkPub.
     rbind (want_bytes spk ''signature'') (\<lambda>spkSig.
     rbind (field_of body ''one_time_prekey'') (\<lambda>otk.
     rbind (if truthy otk
            then rbind (want nat_view otk ''id'') (\<lambda>i. rbind (want_bytes otk ''public_key'') (\<lambda>pub. Inr (Some (i, pub))))
            else Inr None) (\<lambda>oneTimePrekey.
     Inr \<lparr>bundle_identityKey = ik, bundle_identityDhKey = idk, bundle_identityDhSignature = idkSig,
          bundle_signedPrekey = \<lparr>spk_id = spkId, spk_publicKey = spkPub, spk_signature = spkSig\<rparr>,
          bundle_oneTimePrekey = oneTimePrekey\<rparr>))))))))))"

definition fetchBundle :: "'n ApiConfig \<Rightarrow> string \<Rightarrow> ('n ApiState, PrekeyBundle) effect" where
  "fetchBundle A account =
     sbind (request A ''GET'' (''/v1/accounts/'' @ encodeURIComponent account @ ''/bundle'') None True) (\<lambda>body.
     slift (read_bundle body))"

definition uploadPrekeys :: "'n ApiConfig \<Rightarrow> (nat \<times> bytes) list \<Rightarrow> ('n ApiState, number option) effect" where
  "uploadPrekeys A prekeys =
     sbind (request A ''POST'' ''/v1/accounts/me/prekeys''
              (Some (jobj [(''one_time_prekeys'', Some (JArr (map prekey_json prekeys)))])) True) (\<lambda>body.
     sbind (slift (field_of body ''uploaded'')) (\<lambda>v. sreturn (num_view v)))"

definition envelope_body :: "string \<Rightarrow> bytes \<Rightarrow> json" where
  "envelope_body recipientId payload =
     jobj [(''recipient_id'', Some (JStr recipientId)), (''payload'', Some (JStr (b64 payload)))]"

definition sendEnvelope :: "'n ApiConfig \<Rightarrow> string \<Rightarrow> bytes \<Rightarrow> ('n ApiState, string option) effect" where
  "sendEnvelope A recipientId payload =
     sbind (request A ''POST'' ''/v1/envelopes'' (Some (envelope_body recipientId payload)) True) (\<lambda>body.
     sbind (slift (field_of body ''envelope_id'')) (\<lambda>v. sreturn (str_view v)))"

definition read_envelope :: "json \<Rightarrow> QueuedEnvelope result" where
  "read_envelope e =
     rbind (want str_view (Some e) ''id'') (\<lambda>i.
     rbind (want str_view (Some e) ''sender_id'') (\<lambda>sender.
     rbind (want_bytes (Some e) ''payload'') (\<lambda>payload.
     Inr \<lparr>qe_id = i, qe_senderId = sender, qe_payload = payload, qe_createdAt = text_of (field e ''created_at'')\<rparr>)))"

fun read_envelopes :: "json list \<Rightarrow> QueuedEnvelope list result" where
  "read_envelopes [] = Inr []"
| "read_envelopes (e # es) = rbind (read_envelope e) (\<lambda>x. rbind (read_envelopes es) (\<lambda>xs. Inr (x # xs)))"

definition fetchEnvelopes :: "'n ApiConfig \<Rightarrow> ('n ApiState, QueuedEnvelope list) effect" where
  "fetchEnvelopes A =
     sbind (request A ''GET'' ''/v1/envelopes'' None True) (\<lambda>body.
     sbind (slift (field_of body ''envelopes'')) (\<lambda>es.
     slift (case es of Some (JArr js) \<Rightarrow> read_envelopes js | _ \<Rightarrow> Inl TypeError)))"

definition acknowledge :: "'n ApiConfig \<Rightarrow> string list \<Rightarrow> ('n ApiState, number option) effect" where
  "acknowledge A envelopeIds =
     (if envelopeIds = [] then sreturn (Some 0)
      else sbind (request A ''POST'' ''/v1/envelopes/ack''
                    (Some (jobj [(''envelope_ids'', Some (jstrs envelopeIds))])) True) (\<lambda>body.
           sbind (slift (field_of body ''acknowledged'')) (\<lambda>v. sreturn (num_view v))))"

subsection \<open>What a request can do\<close>

lemma request_unauthorized: "\<not> authorized s \<Longrightarrow> request A verb path body True s = (s, Inl (ApiError 401 ''not authenticated''))"
  by (simp add: request_def)

lemma request_token: "token (fst (request A verb path body authenticated s)) = token s"
  by (simp add: request_def split: prod.split sum.split)

lemma request_reply:
  assumes "fetchImpl A (build_request A verb path body authenticated s) (net s) = (n, Inr r)"
    and "authenticated \<Longrightarrow> authorized s" "response_ok r" "resp_status r \<noteq> 204" "response_json r = Inr j"
  shows "request A verb path body authenticated s = (s\<lparr>net := n\<rparr>, Inr (Some j))"
  using assms by (auto simp: request_def read_response_def)

text \<open>Computations that leave the token as it is.\<close>

definition keeps_token :: "('n ApiState, 'a) effect \<Rightarrow> bool" where
  "keeps_token m \<longleftrightarrow> (\<forall>s. token (fst (m s)) = token s)"

lemma keeps_tokenD: "keeps_token m \<Longrightarrow> token (fst (m s)) = token s"
  by (simp add: keeps_token_def)

lemma keeps_token_request [intro]: "keeps_token (request A verb path body authenticated)"
  by (simp add: keeps_token_def request_token)

lemma keeps_token_pure [intro]: "keeps_token (sreturn x)" "keeps_token (slift r)"
  by (simp_all add: keeps_token_def)

lemma keeps_token_sbind [intro]: "keeps_token m \<Longrightarrow> (\<And>x. keeps_token (f x)) \<Longrightarrow> keeps_token (sbind m f)"
  by (auto simp: keeps_token_def sbind_def split: prod.split sum.split) (metis fst_conv)+

lemma calls_keep_token:
  "keeps_token (api_register S A identity spk keys)" "keeps_token (fetchBundle A account)"
  "keeps_token (uploadPrekeys A keys)" "keeps_token (sendEnvelope A recipient payload)"
  "keeps_token (fetchEnvelopes A)" "keeps_token (acknowledge A ids)"
  unfolding api_register_def fetchBundle_def uploadPrekeys_def sendEnvelope_def fetchEnvelopes_def acknowledge_def
  by (auto intro!: keeps_token_sbind)

lemma authenticate_error_token:
  assumes "authenticate S A identity account s = (t, Inl e)"
  shows "token t = token s"
proof -
  have "keeps_token m \<Longrightarrow> m s = (u, r) \<Longrightarrow> token u = token s" for m :: "('n ApiState, 'b) effect" and s u r
    by (metis fst_conv keeps_token_def)
  note keep = this [OF keeps_token_request]
  show ?thesis using assms unfolding authenticate_def
    by (auto simp: sbind_def split: prod.splits sum.splits dest!: keep)
qed

subsection \<open>The relay behind the interface\<close>

text \<open>
  The server is another program; what the client relies on is written in \<open>docs/protocol.md\<close> (7, 8). A
  relay knows which account a token stands for and keeps a queue of envelopes per account. Reading
  returns at most 100 of the caller's, oldest first, and deletes nothing; acknowledging deletes the
  named ones of the caller; sending appends to the recipient's queue under the caller's name with
  the payload as given.
\<close>

record 'n Relay =
  relay_good :: "'n \<Rightarrow> bool"
  relay_who :: "'n \<Rightarrow> string \<Rightarrow> string option"
  relay_queue :: "'n \<Rightarrow> string \<Rightarrow> QueuedEnvelope list"

definition PAGE :: nat where "PAGE = 100"

definition envelope_json :: "QueuedEnvelope \<Rightarrow> json" where
  "envelope_json e =
     jobj [(''id'', Some (JStr (qe_id e))), (''sender_id'', Some (JStr (qe_senderId e))),
           (''payload'', Some (JStr (b64 (qe_payload e)))), (''created_at'', Some (JStr (qe_createdAt e)))]"

text \<open>The request is answered, in a state that still knows the same tokens, with an object.\<close>

definition answers :: "'n ApiConfig \<Rightarrow> 'n Relay \<Rightarrow> Request \<Rightarrow> 'n \<Rightarrow> (json \<Rightarrow> 'n \<Rightarrow> bool) \<Rightarrow> bool" where
  "answers A L rq n P \<longleftrightarrow>
     (\<exists>n' r kvs. fetchImpl A rq n = (n', Inr r) \<and> response_ok r \<and> resp_status r \<noteq> 204 \<and>
        response_json r = Inr (JObj kvs) \<and> relay_good L n' \<and> relay_who L n' = relay_who L n \<and> P (JObj kvs) n')"

definition bearer :: "'n ApiConfig \<Rightarrow> string \<Rightarrow> string \<Rightarrow> string \<Rightarrow> json option \<Rightarrow> Request" where
  "bearer A t verb path body =
     \<lparr>rq_method = verb, rq_url = baseUrl A @ path,
      rq_headers = (if body \<noteq> None then [(''content-type'', ''application/json'')] else []) @
                   [(''authorization'', ''Bearer '' @ t)],
      rq_body = map_option json_print body\<rparr>"

definition relay_law :: "'n ApiConfig \<Rightarrow> 'n Relay \<Rightarrow> bool" where
  "relay_law A L \<longleftrightarrow> (\<forall>n t a. relay_good L n \<longrightarrow> relay_who L n t = Some a \<longrightarrow>
     answers A L (bearer A t ''GET'' ''/v1/envelopes'' None) n (\<lambda>j n'.
       field j ''envelopes'' = Some (JArr (map envelope_json (take PAGE (relay_queue L n a)))) \<and>
       relay_queue L n' = relay_queue L n) \<and>
     (\<forall>ids. answers A L (bearer A t ''POST'' ''/v1/envelopes/ack'' (Some (jobj [(''envelope_ids'', Some (jstrs ids))]))) n
       (\<lambda>j n'. relay_queue L n' = (relay_queue L n)(a := filter (\<lambda>e. qe_id e \<notin> set ids) (relay_queue L n a)))) \<and>
     (\<forall>b payload. answers A L (bearer A t ''POST'' ''/v1/envelopes'' (Some (envelope_body b payload))) n (\<lambda>j n'.
       \<exists>i stamp. field j ''envelope_id'' = Some (JStr i) \<and>
         relay_queue L n' = (relay_queue L n)(b := relay_queue L n b @
           [\<lparr>qe_id = i, qe_senderId = a, qe_payload = payload, qe_createdAt = stamp\<rparr>]))))"

definition logged_in :: "'n ApiConfig \<Rightarrow> 'n Relay \<Rightarrow> string \<Rightarrow> 'n ApiState \<Rightarrow> bool" where
  "logged_in A L a s \<longleftrightarrow> relay_law A L \<and> relay_good L (net s) \<and> authorized s \<and> relay_who L (net s) (the (token s)) = Some a"

lemma build_bearer: "build_request A verb path body True s = bearer A (the (token s)) verb path body"
  by (simp add: build_request_def bearer_def headers_of_def)

lemma fromBase64_b64 [simp]: "fromBase64 (b64 x) = Inr x"
  using decode_encodeB64 [of x] by (simp add: fromBase64_def b64_def decodeB64_def encodeB64_def)

lemma read_envelope_json: "read_envelope (envelope_json e) = Inr e"
proof -
  have "field_of (Some (envelope_json e)) k = Inr (field (envelope_json e) k)" for k
    by (simp add: field_of_def envelope_json_def jobj_def)
  then show ?thesis
    by (simp add: read_envelope_def want_def want_bytes_def to_string_def text_of_def)
      (simp add: envelope_json_def field_jobj)
qed

lemma read_envelopes_json: "read_envelopes (map envelope_json es) = Inr es"
  by (induction es) (simp_all add: read_envelope_json)

lemma answered_request:
  assumes "answers A L (bearer A (the (token s)) verb path body) (net s) P" "authorized s"
  obtains n' kvs where "request A verb path body True s = (s\<lparr>net := n'\<rparr>, Inr (Some (JObj kvs)))"
    "relay_good L n'" "relay_who L n' = relay_who L (net s)" "P (JObj kvs) n'"
  using assms request_reply [of A verb path body True s] unfolding answers_def build_bearer by blast

lemma logged_in_net:
  "logged_in A L a s \<Longrightarrow> relay_good L n' \<Longrightarrow> relay_who L n' = relay_who L (net s) \<Longrightarrow> logged_in A L a (s\<lparr>net := n'\<rparr>)"
  by (simp add: logged_in_def authorized_def)

lemma field_of_object [simp]: "field_of (Some (JObj kvs)) k = Inr (map_of kvs k)"
  by (simp add: field_of_def)

lemma fetchEnvelopes_relay:
  assumes "logged_in A L a s"
  shows "\<exists>s'. fetchEnvelopes A s = (s', Inr (take PAGE (relay_queue L (net s) a))) \<and> logged_in A L a s' \<and>
     relay_queue L (net s') = relay_queue L (net s)"
proof -
  have "answers A L (bearer A (the (token s)) ''GET'' ''/v1/envelopes'' None) (net s) (\<lambda>j n'.
       field j ''envelopes'' = Some (JArr (map envelope_json (take PAGE (relay_queue L (net s) a)))) \<and>
       relay_queue L n' = relay_queue L (net s))"
    using assms unfolding logged_in_def relay_law_def by blast
  then obtain n' kvs where *: "request A ''GET'' ''/v1/envelopes'' None True s = (s\<lparr>net := n'\<rparr>, Inr (Some (JObj kvs)))"
    "relay_good L n'" "relay_who L n' = relay_who L (net s)"
    "map_of kvs ''envelopes'' = Some (JArr (map envelope_json (take PAGE (relay_queue L (net s) a))))"
    "relay_queue L n' = relay_queue L (net s)"
    using assms by (elim answered_request) (auto simp: logged_in_def)
  then have "fetchEnvelopes A s = (s\<lparr>net := n'\<rparr>, Inr (take PAGE (relay_queue L (net s) a)))"
    by (simp add: fetchEnvelopes_def sbind_def read_envelopes_json)
  then show ?thesis using logged_in_net [OF assms *(2,3)] *(5) by simp
qed

lemma acknowledge_relay:
  assumes "logged_in A L a s" "ids \<noteq> []"
  shows "\<exists>s' k. acknowledge A ids s = (s', Inr k) \<and> logged_in A L a s' \<and>
     relay_queue L (net s') = (relay_queue L (net s))(a := filter (\<lambda>e. qe_id e \<notin> set ids) (relay_queue L (net s) a))"
proof -
  let ?body = "Some (jobj [(''envelope_ids'', Some (jstrs ids))])"
  have "answers A L (bearer A (the (token s)) ''POST'' ''/v1/envelopes/ack'' ?body) (net s) (\<lambda>j n'.
     relay_queue L n' = (relay_queue L (net s))(a := filter (\<lambda>e. qe_id e \<notin> set ids) (relay_queue L (net s) a)))"
    using assms unfolding logged_in_def relay_law_def by blast
  then obtain n' kvs where *: "request A ''POST'' ''/v1/envelopes/ack'' ?body True s = (s\<lparr>net := n'\<rparr>, Inr (Some (JObj kvs)))"
    "relay_good L n'" "relay_who L n' = relay_who L (net s)"
    "relay_queue L n' = (relay_queue L (net s))(a := filter (\<lambda>e. qe_id e \<notin> set ids) (relay_queue L (net s) a))"
    using assms by (elim answered_request) (auto simp: logged_in_def)
  have "acknowledge A ids s = (s\<lparr>net := n'\<rparr>, Inr (num_view (map_of kvs ''acknowledged'')))"
    using * assms(2) by (simp add: acknowledge_def sbind_def)
  then show ?thesis using logged_in_net [OF assms(1) *(2,3)] *(4) by auto
qed

lemma sendEnvelope_relay:
  assumes "logged_in A L a s"
  shows "\<exists>s' i stamp. sendEnvelope A b payload s = (s', Inr (Some i)) \<and> logged_in A L a s' \<and> token s' = token s \<and>
     relay_who L (net s') = relay_who L (net s) \<and>
     relay_queue L (net s') = (relay_queue L (net s))(b := relay_queue L (net s) b @
       [\<lparr>qe_id = i, qe_senderId = a, qe_payload = payload, qe_createdAt = stamp\<rparr>])"
proof -
  let ?body = "Some (envelope_body b payload)" and ?q = "relay_queue L (net s)"
  have "answers A L (bearer A (the (token s)) ''POST'' ''/v1/envelopes'' ?body) (net s) (\<lambda>j n'.
     \<exists>i stamp. field j ''envelope_id'' = Some (JStr i) \<and>
       relay_queue L n' = ?q(b := ?q b @ [\<lparr>qe_id = i, qe_senderId = a, qe_payload = payload, qe_createdAt = stamp\<rparr>]))"
    using assms unfolding logged_in_def relay_law_def by blast
  then obtain n' kvs i stamp where *: "request A ''POST'' ''/v1/envelopes'' ?body True s = (s\<lparr>net := n'\<rparr>, Inr (Some (JObj kvs)))"
    "relay_good L n'" "relay_who L n' = relay_who L (net s)" "map_of kvs ''envelope_id'' = Some (JStr i)"
    "relay_queue L n' = ?q(b := ?q b @ [\<lparr>qe_id = i, qe_senderId = a, qe_payload = payload, qe_createdAt = stamp\<rparr>])"
    using assms by (elim answered_request) (auto simp: logged_in_def)
  have "sendEnvelope A b payload s = (s\<lparr>net := n'\<rparr>, Inr (Some i))"
    using *(1,4) by (simp add: sendEnvelope_def sbind_def)
  then show ?thesis using logged_in_net [OF assms *(2,3)] * by auto
qed

subsection \<open>A relay in memory\<close>

text \<open>
  A small server that satisfies the law, to evaluate the calls on: a token is the account it stands
  for, ids are numbered, and every other request is refused.
\<close>

record demo_server =
  ds_queue :: "string \<Rightarrow> QueuedEnvelope list"
  ds_count :: nat

definition ok_reply :: "json \<Rightarrow> Response" where
  "ok_reply j = \<lparr>resp_status = 200, resp_body = Some (json_print j)\<rparr>"

definition caller :: "Request \<Rightarrow> string" where
  "caller rq = (case map_of (rq_headers rq) ''authorization'' of None \<Rightarrow> [] | Some h \<Rightarrow> drop 7 h)"

definition body_field :: "Request \<Rightarrow> string \<Rightarrow> json option" where
  "body_field rq k = Option.bind (rq_body rq) (\<lambda>text. Option.bind (json_parse text) (\<lambda>j. field j k))"

definition demo_store :: "string \<Rightarrow> string \<Rightarrow> bytes \<Rightarrow> demo_server \<Rightarrow> demo_server \<times> json" where
  "demo_store sender recipient payload n =
     (let i = ''e'' @ show_nat (ds_count n)
      in (n\<lparr>ds_queue := (ds_queue n)(recipient := ds_queue n recipient @
              [\<lparr>qe_id = i, qe_senderId = sender, qe_payload = payload, qe_createdAt = ''now''\<rparr>]),
            ds_count := ds_count n + 1\<rparr>,
          jobj [(''envelope_id'', Some (JStr i))]))"

definition demo_fetch :: "Request \<Rightarrow> (demo_server, Response) effect" where
  "demo_fetch rq = (\<lambda>n.
     if rq_method rq = ''GET'' \<and> rq_url rq = ''/v1/envelopes''
     then (n, Inr (ok_reply (jobj [(''envelopes'', Some (JArr (map envelope_json (take PAGE (ds_queue n (caller rq))))))])))
     else if rq_method rq = ''POST'' \<and> rq_url rq = ''/v1/envelopes/ack''
     then (n\<lparr>ds_queue := (ds_queue n)(caller rq :=
             filter (\<lambda>e. qe_id e \<notin> set (list_of (body_field rq ''envelope_ids''))) (ds_queue n (caller rq)))\<rparr>,
           Inr (ok_reply (jobj [(''acknowledged'', Some (jnat 0))])))
     else if rq_method rq = ''POST'' \<and> rq_url rq = ''/v1/envelopes''
     then case fromBase64 (text_of (body_field rq ''payload'')) of
            Inl e \<Rightarrow> (n, Inr \<lparr>resp_status = 400, resp_body = None\<rparr>)
          | Inr payload \<Rightarrow>
              (case demo_store (caller rq) (text_of (body_field rq ''recipient_id'')) payload n of
                 (n', j) \<Rightarrow> (n', Inr (ok_reply j)))
     else (n, Inr \<lparr>resp_status = 404, resp_body = None\<rparr>))"

definition demo_api :: "demo_server ApiConfig" where
  "demo_api = new_ApiClient ''/'' demo_fetch"

definition demo_relay :: "demo_server Relay" where
  "demo_relay = \<lparr>relay_good = \<lambda>_. True, relay_who = \<lambda>_ t. Some t, relay_queue = ds_queue\<rparr>"

lemma json_ok_envelope [simp]: "json_ok (envelope_json e)"
  unfolding envelope_json_def by (rule json_ok_jobj) simp_all

lemma answers_ok_reply:
  assumes "fetchImpl A rq n = (n', Inr (ok_reply j))" "json_ok j" "j = JObj kvs"
    and "relay_good L n'" "relay_who L n' = relay_who L n" "P j n'"
  shows "answers A L rq n P"
proof -
  have "response_json (ok_reply j) = Inr (JObj kvs)"
    using assms(2,3) by (simp only: ok_reply_def response_json_def Response.simps option.case json_parse_print of_option_simps)
  moreover have "response_ok (ok_reply j)" "resp_status (ok_reply j) \<noteq> 204" by (simp_all add: ok_reply_def response_ok_def)
  ultimately show ?thesis unfolding answers_def using assms by blast
qed

lemma caller_bearer [simp]: "caller (bearer A t verb path body) = t"
  by (simp add: caller_def bearer_def)

lemma body_field_bearer: "json_ok j \<Longrightarrow> body_field (bearer A t verb path (Some j)) k = field j k"
  by (simp add: body_field_def bearer_def json_parse_print)

lemma demo_relay_law: "relay_law demo_api demo_relay"
proof -
  note sel = demo_api_def new_ApiClient_def demo_relay_def
  have fetch: "answers demo_api demo_relay (bearer demo_api t ''GET'' ''/v1/envelopes'' None) n (\<lambda>j n'.
       field j ''envelopes'' = Some (JArr (map envelope_json (take PAGE (ds_queue n t)))) \<and> ds_queue n' = ds_queue n)" for n t
  proof (rule answers_ok_reply)
    show "fetchImpl demo_api (bearer demo_api t ''GET'' ''/v1/envelopes'' None) n
      = (n, Inr (ok_reply (jobj [(''envelopes'', Some (JArr (map envelope_json (take PAGE (ds_queue n t)))))])))"
      by (simp add: demo_fetch_def bearer_def caller_def sel)
    show "json_ok (jobj [(''envelopes'', Some (JArr (map envelope_json (take PAGE (ds_queue n t)))))])"
      by (rule json_ok_jobj) auto
  qed (simp_all add: jobj_def sel)
  have ack: "answers demo_api demo_relay (bearer demo_api t ''POST'' ''/v1/envelopes/ack'' (Some (jobj [(''envelope_ids'', Some (jstrs ids))]))) n
       (\<lambda>j n'. ds_queue n' = (ds_queue n)(t := filter (\<lambda>e. qe_id e \<notin> set ids) (ds_queue n t)))" for n t ids
  proof (rule answers_ok_reply)
    let ?j = "jobj [(''envelope_ids'', Some (jstrs ids))]"
    have "json_ok ?j" by (rule json_ok_jobj) auto
    then have "body_field (bearer demo_api t ''POST'' ''/v1/envelopes/ack'' (Some ?j)) ''envelope_ids'' = Some (jstrs ids)"
      by (simp add: body_field_bearer field_jobj)
    then show "fetchImpl demo_api (bearer demo_api t ''POST'' ''/v1/envelopes/ack'' (Some ?j)) n
      = (n\<lparr>ds_queue := (ds_queue n)(t := filter (\<lambda>e. qe_id e \<notin> set ids) (ds_queue n t))\<rparr>,
         Inr (ok_reply (jobj [(''acknowledged'', Some (jnat 0))])))"
      by (simp add: demo_fetch_def sel) (simp add: bearer_def)
    show "json_ok (jobj [(''acknowledged'', Some (jnat 0))])" by (rule json_ok_jobj) auto
  qed (simp_all add: jobj_def sel)
  have send: "answers demo_api demo_relay (bearer demo_api t ''POST'' ''/v1/envelopes'' (Some (envelope_body b payload))) n (\<lambda>j n'.
       \<exists>i stamp. field j ''envelope_id'' = Some (JStr i) \<and>
         ds_queue n' = (ds_queue n)(b := ds_queue n b @
           [\<lparr>qe_id = i, qe_senderId = t, qe_payload = payload, qe_createdAt = stamp\<rparr>]))" for n t b payload
  proof (rule answers_ok_reply)
    let ?rq = "bearer demo_api t ''POST'' ''/v1/envelopes'' (Some (envelope_body b payload))"
    have "json_ok (envelope_body b payload)" unfolding envelope_body_def by (rule json_ok_jobj) auto
    then have "text_of (body_field ?rq ''payload'') = b64 payload" "text_of (body_field ?rq ''recipient_id'') = b"
      by (simp_all add: body_field_bearer envelope_body_def field_jobj text_of_def)
    then show "fetchImpl demo_api ?rq n = (fst (demo_store t b payload n), Inr (ok_reply (snd (demo_store t b payload n))))"
      by (simp add: demo_fetch_def sel split: prod.split) (simp add: bearer_def)
    show "json_ok (snd (demo_store t b payload n))" by (simp add: demo_store_def Let_def jobj_def)
  qed (auto simp: jobj_def sel demo_store_def Let_def)
  show ?thesis unfolding relay_law_def using fetch ack send by (simp add: demo_relay_def)
qed

definition idle_server :: demo_server where
  "idle_server = \<lparr>ds_queue = \<lambda>_. [], ds_count = 0\<rparr>"

definition demo_login :: "string \<Rightarrow> demo_server \<Rightarrow> demo_server ApiState" where
  "demo_login a n = \<lparr>token = Some a, net = n\<rparr>"

lemma demo_logged_in: "a \<noteq> [] \<Longrightarrow> logged_in demo_api demo_relay a (demo_login a n)"
  by (simp add: logged_in_def demo_relay_law demo_login_def authorized_def) (simp add: demo_relay_def)

subsection \<open>Properties\<close>

text \<open>
  Without a session token no authenticated call reaches the network: reading a bundle,
  uploading prekeys, sending, fetching and acknowledging envelopes all fail with the status 401 and
  change nothing. An empty token counts as none, and acknowledging nothing succeeds without a request.
\<close>

theorem unauthenticated_calls_stay_local:
  assumes "\<not> authorized s"
  shows "fetchBundle A account s = (s, Inl (ApiError 401 ''not authenticated'')) \<and>
     uploadPrekeys A keys s = (s, Inl (ApiError 401 ''not authenticated'')) \<and>
     sendEnvelope A recipient payload s = (s, Inl (ApiError 401 ''not authenticated'')) \<and>
     fetchEnvelopes A s = (s, Inl (ApiError 401 ''not authenticated'')) \<and>
     acknowledge A ids s = (if ids = [] then (s, Inr (Some 0)) else (s, Inl (ApiError 401 ''not authenticated'')))"
  using request_unauthorized [OF assms]
  by (simp add: fetchBundle_def uploadPrekeys_def sendEnvelope_def fetchEnvelopes_def acknowledge_def sbind_def)

theorem unauthenticated_calls_stay_local_witness:
  "sendEnvelope demo_api ''bob'' [1, 2] \<lparr>token = Some [], net = idle_server\<rparr>
   = (\<lparr>token = Some [], net = idle_server\<rparr>, Inl (ApiError 401 ''not authenticated''))"
  using unauthenticated_calls_stay_local [of "\<lparr>token = Some [], net = idle_server\<rparr>"] by (simp add: authorized_def)

text \<open>
  An envelope handed to a relay that keeps its contract arrives as it was sent: the sender
  gets an id, and the recipient, reading a queue that is not longer than a page, finds the envelope
  last, under that id, with the sender's account and the very bytes of the payload, after everything
  queued before. Base64, JSON and the authorization header are all on the way.
\<close>

theorem sent_envelope_arrives:
  assumes "logged_in A L a s" "relay_who L (net s) t = Some b" "t \<noteq> []" "length (relay_queue L (net s) b) < PAGE"
  shows "\<exists>s' i stamp r'. sendEnvelope A b payload s = (s', Inr (Some i)) \<and>
     fetchEnvelopes A \<lparr>token = Some t, net = net s'\<rparr> = (r', Inr (relay_queue L (net s) b @
       [\<lparr>qe_id = i, qe_senderId = a, qe_payload = payload, qe_createdAt = stamp\<rparr>]))"
proof -
  obtain s' i stamp where s': "sendEnvelope A b payload s = (s', Inr (Some i))" "logged_in A L a s'"
    "relay_who L (net s') = relay_who L (net s)"
    "relay_queue L (net s') b = relay_queue L (net s) b @
       [\<lparr>qe_id = i, qe_senderId = a, qe_payload = payload, qe_createdAt = stamp\<rparr>]"
    using sendEnvelope_relay [OF assms(1), of b payload] by auto
  have "logged_in A L b \<lparr>token = Some t, net = net s'\<rparr>"
    using s'(2,3) assms(2,3) by (simp add: logged_in_def authorized_def)
  from fetchEnvelopes_relay [OF this] show ?thesis using s'(1,4) assms(4) by auto
qed

theorem sent_envelope_arrives_witness:
  "\<exists>s' i stamp r'. sendEnvelope demo_api ''bob'' [1, 2, 255] (demo_login ''alice'' idle_server) = (s', Inr (Some i)) \<and>
     fetchEnvelopes demo_api \<lparr>token = Some ''bob'', net = net s'\<rparr>
     = (r', Inr [\<lparr>qe_id = i, qe_senderId = ''alice'', qe_payload = [1, 2, 255], qe_createdAt = stamp\<rparr>])"
  using sent_envelope_arrives [OF demo_logged_in, of "''alice''" idle_server "''bob''" "''bob''" "[1, 2, 255]"]
  by (simp add: demo_login_def) (simp add: demo_relay_def idle_server_def PAGE_def)

text \<open>
  A session token comes from a completed challenge and from nothing else: no other call
  changes the token, whatever the server answers, and an authentication that fails at any point
  leaves the previous token in place.
\<close>

theorem token_only_from_authentication:
  "token (fst (api_register S A identity spk keys s)) = token s"
  "token (fst (fetchBundle A account s)) = token s"
  "token (fst (uploadPrekeys A keys s)) = token s"
  "token (fst (sendEnvelope A recipient payload s)) = token s"
  "token (fst (fetchEnvelopes A s)) = token s"
  "token (fst (acknowledge A ids s)) = token s"
  "\<exists>e. snd (authenticate S A identity account s) = Inl e \<Longrightarrow> token (fst (authenticate S A identity account s)) = token s"
  by (rule keeps_tokenD [OF calls_keep_token(1)] keeps_tokenD [OF calls_keep_token(2)] keeps_tokenD [OF calls_keep_token(3)]
      keeps_tokenD [OF calls_keep_token(4)] keeps_tokenD [OF calls_keep_token(5)] keeps_tokenD [OF calls_keep_token(6)])+
    (metis authenticate_error_token prod.collapse)

theorem token_only_from_authentication_witness:
  "token (fst (authenticate demo_sodium demo_api (demo_identity 1) ''alice'' (demo_login ''alice'' idle_server))) = Some ''alice''"
proof -
  have "\<exists>e. request demo_api ''POST'' ''/v1/auth/challenge'' (Some (jobj [(''account_id'', Some (JStr ''alice''))])) False
      (demo_login ''alice'' idle_server) = (demo_login ''alice'' idle_server, Inl e)"
    by (simp add: request_def demo_api_def new_ApiClient_def demo_fetch_def build_request_def demo_login_def
        read_response_def response_ok_def)
  then have "\<exists>e. snd (authenticate demo_sodium demo_api (demo_identity 1) ''alice'' (demo_login ''alice'' idle_server)) = Inl e"
    by (auto simp: authenticate_def sbind_def)
  from token_only_from_authentication(7) [OF this] show ?thesis by (simp add: demo_login_def)
qed

end
