(* ===== verification/Transport.thy ===== *)
theory Transport
  imports Api
begin

section \<open>Live transport (\<open>transport/socket.ts\<close>)\<close>

text \<open>
  The transport as a state machine. Everything that happens to it is an input: a call of \<open>connect\<close> or
  \<open>close\<close>, a callback of a socket, the retry timer, or the settling of something one of its
  asynchronous functions awaits. An \<open>async\<close> function runs without interruption from one \<open>await\<close> to the
  next, so it is a list of suspended tasks, each with what it will do next: \<open>handleMessage\<close> and
  \<open>drainBacklog\<close> may be suspended many times over, in any order of arrivals. Sockets are numbered in
  the order they are made. The log records what the outside sees: status and error callbacks, calls
  of the handler and their success, acknowledgements, frames sent, timers set; \<open>Remembered\<close> marks
  the moment an id enters \<open>handled\<close>. Inputs carry what comes from outside: whether the socket factory
  threw, the random number, the frame received, the outcome awaited.
\<close>

definition INITIAL_BACKOFF_MS :: nat where "INITIAL_BACKOFF_MS = 500"
definition MAX_BACKOFF_MS :: nat where "MAX_BACKOFF_MS = 30000"
definition MAX_DRAIN_PAGES :: nat where "MAX_DRAIN_PAGES = 100"
definition MAX_REMEMBERED_IDS :: nat where "MAX_REMEMBERED_IDS = 1000"

type_synonym DeliveredEnvelope = QueuedEnvelope

datatype TransportStatus = Connecting | Authenticating | Ready | Disconnected | Closed

datatype notice =
    Status TransportStatus
  | Failure error
  | SocketFault
  | SendFrame nat string
  | CloseSocket nat
  | TimerSet nat
  | HandlerCall DeliveredEnvelope
  | HandlerDone string
  | AckSent string
  | Remembered string

text \<open>
  Who waits for a delivery: the frame that pushed the envelope, or a catch-up pass on a page, with
  whether anything of the page was acknowledged and the rest of the page.
\<close>

datatype caller_of_deliver = Live | Draining nat bool "DeliveredEnvelope list"

datatype task =
    Fetching nat
  | Looping nat bool "DeliveredEnvelope list"
  | Handling DeliveredEnvelope caller_of_deliver
  | Acking DeliveredEnvelope caller_of_deliver

record Transport =
  tr_socket :: "nat option"
  tr_made :: nat
  tr_backoff :: nat
  tr_retry :: bool
  tr_stopped :: bool
  tr_inFlight :: "string list"
  tr_handled :: "string list"
  tr_tasks :: "task list"
  tr_log :: "notice list"

definition new_Transport :: Transport where
  "new_Transport =
     \<lparr>tr_socket = None, tr_made = 0, tr_backoff = INITIAL_BACKOFF_MS, tr_retry = False, tr_stopped = False,
      tr_inFlight = [], tr_handled = [], tr_tasks = [], tr_log = []\<rparr>"

definition note_log :: "notice \<Rightarrow> Transport \<Rightarrow> Transport" where
  "note_log n t = t\<lparr>tr_log := tr_log t @ [n]\<rparr>"

definition status :: "TransportStatus \<Rightarrow> Transport \<Rightarrow> Transport" where
  "status st = note_log (Status st)"

definition fail :: "error \<Rightarrow> Transport \<Rightarrow> Transport" where
  "fail e = note_log (Failure e)"

definition spawn :: "task \<Rightarrow> Transport \<Rightarrow> Transport" where
  "spawn k t = t\<lparr>tr_tasks := tr_tasks t @ [k]\<rparr>"

subsection \<open>Connecting\<close>

text \<open>\<open>Math.round(backoff * (0.5 + random() * 0.5))\<close>.\<close>

definition retry_delay :: "nat \<Rightarrow> rat \<Rightarrow> nat" where
  "retry_delay backoff random = nat \<lfloor>of_nat backoff * (1 / 2 + random * (1 / 2)) + 1 / 2\<rfloor>"

definition scheduleRetry :: "rat \<Rightarrow> Transport \<Rightarrow> Transport" where
  "scheduleRetry random t =
     (if tr_stopped t \<or> tr_retry t then t
      else note_log (TimerSet (retry_delay (tr_backoff t) random))
             (t\<lparr>tr_backoff := min (tr_backoff t * 2) MAX_BACKOFF_MS, tr_retry := True\<rparr>))"

definition open_socket :: "error option \<Rightarrow> rat \<Rightarrow> Transport \<Rightarrow> Transport" where
  "open_socket factory random t =
     (let t = status Connecting t
      in case factory of
           Some e \<Rightarrow> scheduleRetry random (fail e t)
         | None \<Rightarrow> t\<lparr>tr_socket := Some (tr_made t), tr_made := tr_made t + 1\<rparr>)"

definition connect :: "error option \<Rightarrow> rat \<Rightarrow> (Transport, unit) effect" where
  "connect factory random = (\<lambda>t.
     if tr_stopped t then (t, Inl (TransportError ''transport: already closed''))
     else (open_socket factory random t, Inr ()))"

definition close :: "Transport \<Rightarrow> Transport" where
  "close t =
     (let t = t\<lparr>tr_stopped := True, tr_retry := False\<rparr>;
          t = (case tr_socket t of None \<Rightarrow> t | Some k \<Rightarrow> note_log (CloseSocket k) t)
      in status Closed (t\<lparr>tr_socket := None\<rparr>))"

definition onopen :: "nat \<Rightarrow> string option \<Rightarrow> Transport \<Rightarrow> Transport" where
  "onopen k tok t =
     (if tok = None \<or> tok = Some [] then close (fail (TransportError ''transport: no session token'') t)
      else note_log (SendFrame k (json_print (jobj [(''type'', Some (JStr ''auth'')), (''token'', Some (JStr (the tok)))])))
             (status Authenticating t))"

definition onclose :: "nat \<Rightarrow> rat \<Rightarrow> Transport \<Rightarrow> Transport" where
  "onclose k random t =
     (let t = (if tr_socket t = Some k then t\<lparr>tr_socket := None\<rparr> else t)
      in if tr_stopped t then t else scheduleRetry random (status Disconnected t))"

definition retry_timer :: "error option \<Rightarrow> rat \<Rightarrow> Transport \<Rightarrow> Transport" where
  "retry_timer factory random t =
     (let t = t\<lparr>tr_retry := False\<rparr> in if tr_stopped t then t else open_socket factory random t)"

subsection \<open>Delivering\<close>

text \<open>\<open>deliver\<close> up to the call of the handler.\<close>

definition duplicate :: "DeliveredEnvelope \<Rightarrow> Transport \<Rightarrow> bool" where
  "duplicate e t \<longleftrightarrow> qe_id e \<in> set (tr_inFlight t) \<or> qe_id e \<in> set (tr_handled t)"

definition deliver_start :: "DeliveredEnvelope \<Rightarrow> caller_of_deliver \<Rightarrow> Transport \<Rightarrow> Transport" where
  "deliver_start e from_where t =
     spawn (Handling e from_where) (note_log (HandlerCall e) (t\<lparr>tr_inFlight := set_add (qe_id e) (tr_inFlight t)\<rparr>))"

text \<open>The value of \<open>deliver\<close> reaches its caller.\<close>

definition deliver_return :: "caller_of_deliver \<Rightarrow> bool \<Rightarrow> Transport \<Rightarrow> Transport" where
  "deliver_return from_where done_ok t =
     (case from_where of
        Live \<Rightarrow> t
      | Draining page acknowledged rest \<Rightarrow> spawn (Looping page (acknowledged \<or> done_ok) rest) t)"

definition deliver :: "DeliveredEnvelope \<Rightarrow> caller_of_deliver \<Rightarrow> Transport \<Rightarrow> Transport" where
  "deliver e from_where t =
     (if duplicate e t then deliver_return from_where False t else deliver_start e from_where t)"

fun trim :: "string list \<Rightarrow> string list" where
  "trim [] = []"
| "trim (i # is) = (if length (i # is) > MAX_REMEMBERED_IDS then trim is else i # is)"

definition remember :: "string \<Rightarrow> Transport \<Rightarrow> Transport" where
  "remember i t =
     note_log (Remembered i)
       (t\<lparr>tr_inFlight := filter (\<lambda>j. j \<noteq> i) (tr_inFlight t), tr_handled := trim (set_add i (tr_handled t))\<rparr>)"

text \<open>After the handler, after the acknowledgement.\<close>

definition handler_settled :: "DeliveredEnvelope \<Rightarrow> caller_of_deliver \<Rightarrow> unit result \<Rightarrow> Transport \<Rightarrow> Transport" where
  "handler_settled e from_where r t =
     (case r of
        Inl err \<Rightarrow> deliver_return from_where False
                    (fail err (t\<lparr>tr_inFlight := filter (\<lambda>j. j \<noteq> qe_id e) (tr_inFlight t)\<rparr>))
      | Inr _ \<Rightarrow> spawn (Acking e from_where) (note_log (AckSent (qe_id e)) (note_log (HandlerDone (qe_id e)) t)))"

definition ack_settled :: "DeliveredEnvelope \<Rightarrow> caller_of_deliver \<Rightarrow> unit result \<Rightarrow> Transport \<Rightarrow> Transport" where
  "ack_settled e from_where r t =
     (case r of
        Inr _ \<Rightarrow> deliver_return from_where True (remember (qe_id e) t)
      | Inl err \<Rightarrow> deliver_return from_where False (fail err (remember (qe_id e) t)))"

subsection \<open>Catching up\<close>

definition drainBacklog :: "Transport \<Rightarrow> Transport" where
  "drainBacklog t = (if 0 < MAX_DRAIN_PAGES then spawn (Fetching 0) t else t)"

text \<open>The inner loop at its head: the next envelope of the page, or the end of the page.\<close>

fun drain_next :: "nat \<Rightarrow> bool \<Rightarrow> DeliveredEnvelope list \<Rightarrow> Transport \<Rightarrow> Transport" where
  "drain_next page acknowledged [] t =
     (if \<not> acknowledged then t
      else if page + 1 < MAX_DRAIN_PAGES then spawn (Fetching (page + 1)) t
      else t)"
| "drain_next page acknowledged (e # rest) t = deliver e (Draining page acknowledged rest) t"

definition page_fetched :: "nat \<Rightarrow> DeliveredEnvelope list result \<Rightarrow> Transport \<Rightarrow> Transport" where
  "page_fetched page r t =
     (case r of
        Inl e \<Rightarrow> fail e t
      | Inr batch \<Rightarrow> if batch = [] then t else drain_next page False batch t)"

subsection \<open>Frames\<close>

definition decodeBase64 :: "string \<Rightarrow> bytes result" where
  "decodeBase64 text = of_option InvalidCharacterError (map_option from_binary_string (atob text))"

definition frame_envelope :: "json \<Rightarrow> DeliveredEnvelope option result" where
  "frame_envelope m =
     (if truthy (field m ''id'') \<and> truthy (field m ''sender_id'') \<and> truthy (field m ''payload'')
      then rbind (decodeBase64 (to_string (field m ''payload''))) (\<lambda>payload.
           Inr (Some \<lparr>qe_id = to_string (field m ''id''), qe_senderId = to_string (field m ''sender_id''),
                      qe_payload = payload,
                      qe_createdAt = (case field m ''created_at'' of None \<Rightarrow> [] | Some JNull \<Rightarrow> [] | Some v \<Rightarrow> js_string v)\<rparr>))
      else Inr None)"

text \<open>
  \<open>handleMessage\<close> up to its first suspension. What it throws outside a \<open>try\<close> (a frame that is \<open>null\<close>,
  a payload that is not base64) rejects a promise nobody waits for: the error is the result here.
\<close>

definition handleMessage :: "string option \<Rightarrow> (Transport, unit) effect" where
  "handleMessage raw = (\<lambda>t. case raw of
       None \<Rightarrow> (t, Inr ())
     | Some text \<Rightarrow>
         (case json_parse text of
            None \<Rightarrow> (fail SyntaxError t, Inr ())
          | Some JNull \<Rightarrow> (t, Inl TypeError)
          | Some m \<Rightarrow>
              if field m ''type'' = Some (JStr ''ready'')
              then (drainBacklog (status Ready (t\<lparr>tr_backoff := INITIAL_BACKOFF_MS\<rparr>)), Inr ())
              else if field m ''type'' = Some (JStr ''envelope'')
              then (case frame_envelope m of
                      Inl e \<Rightarrow> (t, Inl e)
                    | Inr None \<Rightarrow> (t, Inr ())
                    | Inr (Some e) \<Rightarrow> (deliver e Live t, Inr ()))
              else if field m ''type'' = Some (JStr ''error'')
              then (fail (TransportError (case field m ''error'' of None \<Rightarrow> ''server error'' | Some JNull \<Rightarrow> ''server error''
                                          | Some v \<Rightarrow> js_string v)) t, Inr ())
              else (t, Inr ())))"

subsection \<open>The machine\<close>

datatype reply =
    Fetched "DeliveredEnvelope list result"
  | Handled "unit result"
  | Acked "unit result"
  | Resumed

fun task_step :: "task \<Rightarrow> reply \<Rightarrow> Transport \<Rightarrow> Transport" where
  "task_step (Fetching page) (Fetched r) t = page_fetched page r t"
| "task_step (Looping page acknowledged rest) Resumed t = drain_next page acknowledged rest t"
| "task_step (Handling e from_where) (Handled r) t = handler_settled e from_where r t"
| "task_step (Acking e from_where) (Acked r) t = ack_settled e from_where r t"
| "task_step _ _ t = t"

fun answers_task :: "task \<Rightarrow> reply \<Rightarrow> bool" where
  "answers_task (Fetching page) (Fetched r) = True"
| "answers_task (Looping page acknowledged rest) Resumed = True"
| "answers_task (Handling e from_where) (Handled r) = True"
| "answers_task (Acking e from_where) (Acked r) = True"
| "answers_task _ _ = False"

datatype input =
    Connect "error option" rat
  | CloseCall
  | OnOpen nat "string option"
  | OnMessage "string option"
  | OnError
  | OnClose nat rat
  | Timer "error option" rat
  | Reply nat reply

definition drop_task :: "nat \<Rightarrow> Transport \<Rightarrow> Transport" where
  "drop_task i t = t\<lparr>tr_tasks := take i (tr_tasks t) @ drop (Suc i) (tr_tasks t)\<rparr>"

fun transport_step :: "input \<Rightarrow> Transport \<Rightarrow> Transport" where
  "transport_step (Connect factory random) t = fst (connect factory random t)"
| "transport_step CloseCall t = close t"
| "transport_step (OnOpen k tok) t = onopen k tok t"
| "transport_step (OnMessage raw) t = fst (handleMessage raw t)"
| "transport_step OnError t = note_log SocketFault t"
| "transport_step (OnClose k random) t = onclose k random t"
| "transport_step (Timer factory random) t = retry_timer factory random t"
| "transport_step (Reply i r) t = task_step (tr_tasks t ! i) r (drop_task i t)"

text \<open>
  Which inputs can come: random numbers are in \<open>[0, 1)\<close>, callbacks come from sockets that were made,
  the timer fires only while it is set, and a task is resumed with what it waits for.
\<close>

fun enabled :: "input \<Rightarrow> Transport \<Rightarrow> bool" where
  "enabled (Connect factory random) t \<longleftrightarrow> 0 \<le> random \<and> random < 1"
| "enabled CloseCall t \<longleftrightarrow> True"
| "enabled (OnOpen k tok) t \<longleftrightarrow> k < tr_made t"
| "enabled (OnMessage raw) t \<longleftrightarrow> 0 < tr_made t"
| "enabled OnError t \<longleftrightarrow> 0 < tr_made t"
| "enabled (OnClose k random) t \<longleftrightarrow> k < tr_made t \<and> 0 \<le> random \<and> random < 1"
| "enabled (Timer factory random) t \<longleftrightarrow> tr_retry t \<and> 0 \<le> random \<and> random < 1"
| "enabled (Reply i r) t \<longleftrightarrow> i < length (tr_tasks t) \<and> answers_task (tr_tasks t ! i) r"

inductive transport_reach :: "Transport \<Rightarrow> bool" where
  start: "transport_reach new_Transport"
| step: "transport_reach t \<Longrightarrow> enabled i t \<Longrightarrow> transport_reach (transport_step i t)"

subsection \<open>Projections of the state\<close>

fun ids_busy :: "task \<Rightarrow> string list" where
  "ids_busy (Handling e from_where) = [qe_id e]"
| "ids_busy (Acking e from_where) = [qe_id e]"
| "ids_busy _ = []"

definition busy :: "task list \<Rightarrow> string list" where
  "busy ks = concat (map ids_busy ks)"

fun remembered :: "notice list \<Rightarrow> string list" where
  "remembered [] = []"
| "remembered (Remembered i # ns) = i # remembered ns"
| "remembered (_ # ns) = remembered ns"

definition lastn :: "nat \<Rightarrow> 'a list \<Rightarrow> 'a list" where
  "lastn n xs = drop (length xs - n) xs"

text \<open>Between an id becoming known as handled and its next handling at least 1000 others became known.\<close>

definition spaced :: "notice list \<Rightarrow> bool" where
  "spaced events \<longleftrightarrow> (\<forall>xs i ys e zs. events = xs @ Remembered i # ys @ HandlerCall e # zs \<longrightarrow> qe_id e = i \<longrightarrow>
     MAX_REMEMBERED_IDS \<le> length (remembered ys))"

lemma remembered_append [simp]: "remembered (xs @ ys) = remembered xs @ remembered ys"
  by (induction xs rule: remembered.induct) simp_all

lemma remembered_in: "Remembered i \<in> set ns \<longleftrightarrow> i \<in> set (remembered ns)"
  by (induction ns rule: remembered.induct) auto

lemma busy_simps [simp]: "busy [] = []" "busy (k # ks) = ids_busy k @ busy ks" "busy (ks @ ls) = busy ks @ busy ls"
  by (simp_all add: busy_def)

lemma trim_lastn: "trim xs = lastn MAX_REMEMBERED_IDS xs"
proof (induction xs)
  case (Cons x xs)
  then show ?case by (auto simp: lastn_def Suc_diff_le)
qed (simp add: lastn_def)

lemma lastn_snoc: "0 < n \<Longrightarrow> lastn n (lastn n xs @ [x]) = lastn n (xs @ [x])"
  by (cases "length xs < n") (auto simp: lastn_def Suc_diff_le)

lemma distinct_lastn: "distinct xs \<Longrightarrow> distinct (lastn n xs)"
  by (simp add: lastn_def)

lemma set_lastn: "set (lastn n xs) \<subseteq> set xs"
  by (simp add: lastn_def set_drop_subset)

lemma length_lastn: "length (lastn n xs) \<le> n"
  by (simp add: lastn_def)

lemma lastn_suffix:
  assumes "i \<notin> set (lastn n (xs @ i # ys))"
  shows "n \<le> length ys"
proof (rule ccontr)
  assume "\<not> n \<le> length ys"
  then have "Suc (length ys) - n = 0" by simp
  then show False using assms by (simp add: lastn_def)
qed

text \<open>\<open>set_add\<close> on an id that is new appends it.\<close>

lemma set_add_new: "x \<notin> set xs \<Longrightarrow> set_add x xs = xs @ [x]"
  by (simp add: set_add_def)

lemma spaced_Nil [simp]: "spaced []"
  by (simp add: spaced_def)

lemma spaced_snoc:
  assumes "spaced events" "\<And>e. n = HandlerCall e \<Longrightarrow> qe_id e \<notin> set (lastn MAX_REMEMBERED_IDS (remembered events))"
  shows "spaced (events @ [n])"
  unfolding spaced_def
proof (intro allI impI)
  fix xs i ys e zs assume eq: "events @ [n] = xs @ Remembered i # ys @ HandlerCall e # zs" and i: "qe_id e = i"
  show "MAX_REMEMBERED_IDS \<le> length (remembered ys)"
  proof (cases zs rule: rev_cases)
    case Nil
    then have "events = xs @ Remembered i # ys" "n = HandlerCall e" using eq by simp_all
    then show ?thesis using assms(2) [of e] i lastn_suffix [of i MAX_REMEMBERED_IDS "remembered xs" "remembered ys"] by simp
  next
    case (snoc zs' z)
    then have "events = xs @ Remembered i # ys @ HandlerCall e # zs'" using eq by simp
    then show ?thesis using assms(1) i unfolding spaced_def by blast
  qed
qed

subsection \<open>Duplicate suppression\<close>

text \<open>\<open>X\<close> are the ids of the task that is running and so no longer in the list.\<close>

definition dedup_at :: "string list \<Rightarrow> Transport \<Rightarrow> bool" where
  "dedup_at X t \<longleftrightarrow> distinct (X @ busy (tr_tasks t)) \<and> set (X @ busy (tr_tasks t)) = set (tr_inFlight t) \<and>
     distinct (tr_handled t) \<and> set (tr_inFlight t) \<inter> set (tr_handled t) = {} \<and>
     tr_handled t = lastn MAX_REMEMBERED_IDS (remembered (tr_log t)) \<and> spaced (tr_log t)"

fun plain_notice :: "notice \<Rightarrow> bool" where
  "plain_notice (Remembered i) = False"
| "plain_notice (HandlerCall e) = False"
| "plain_notice _ = True"

lemma remembered_plain: "plain_notice n \<Longrightarrow> remembered [n] = []"
  by (cases n) simp_all

lemma dedup_note: "plain_notice n \<Longrightarrow> dedup_at X t \<Longrightarrow> dedup_at X (note_log n t)"
  using remembered_plain [of n] by (auto simp: dedup_at_def note_log_def intro!: spaced_snoc)

lemma dedup_fields [simp]:
  "dedup_at X (t\<lparr>tr_backoff := b\<rparr>) = dedup_at X t" "dedup_at X (t\<lparr>tr_retry := r\<rparr>) = dedup_at X t"
  "dedup_at X (t\<lparr>tr_stopped := st\<rparr>) = dedup_at X t" "dedup_at X (t\<lparr>tr_socket := so\<rparr>) = dedup_at X t"
  "dedup_at X (t\<lparr>tr_made := m\<rparr>) = dedup_at X t"
  by (simp_all add: dedup_at_def)

lemma dedup_spawn: "dedup_at (ids_busy k @ X) t \<Longrightarrow> dedup_at X (spawn k t)"
  by (auto simp: dedup_at_def spawn_def)

lemma dedup_return: "dedup_at X t \<Longrightarrow> dedup_at X (deliver_return c b t)"
  by (cases c) (simp_all add: deliver_return_def dedup_spawn)

lemma dedup_deliver:
  assumes "dedup_at [] t"
  shows "dedup_at [] (deliver e c t)"
proof (cases "duplicate e t")
  case False
  have "dedup_at [qe_id e] (note_log (HandlerCall e) (t\<lparr>tr_inFlight := set_add (qe_id e) (tr_inFlight t)\<rparr>))"
    using assms False by (auto simp: dedup_at_def note_log_def duplicate_def set_add_new intro!: spaced_snoc)
  then show ?thesis using False by (simp add: deliver_def deliver_start_def dedup_spawn)
qed (simp add: deliver_def dedup_return assms)

lemma dedup_remember: "dedup_at [i] t \<Longrightarrow> dedup_at [] (remember i t)"
proof -
  assume d: "dedup_at [i] t"
  then have new: "i \<notin> set (tr_handled t)" by (auto simp: dedup_at_def)
  have "distinct (tr_handled t)" using d unfolding dedup_at_def by blast
  then have "distinct (tr_handled t @ [i])" using new by simp
  then have "distinct (trim (set_add i (tr_handled t)))"
    by (simp only: trim_lastn set_add_new [OF new] distinct_lastn)
  moreover have "trim (set_add i (tr_handled t)) = lastn MAX_REMEMBERED_IDS (remembered (tr_log t) @ [i])"
    using d new lastn_snoc [of MAX_REMEMBERED_IDS "remembered (tr_log t)" i]
    by (simp add: trim_lastn set_add_new dedup_at_def MAX_REMEMBERED_IDS_def)
  moreover have "set (tr_inFlight t) \<inter> set (trim (set_add i (tr_handled t))) \<subseteq> {i}"
  proof -
    have "set (trim (set_add i (tr_handled t))) \<subseteq> insert i (set (tr_handled t))"
      using set_lastn [of MAX_REMEMBERED_IDS "tr_handled t @ [i]"] by (simp add: trim_lastn set_add_new [OF new])
    moreover have "set (tr_inFlight t) \<inter> set (tr_handled t) = {}" using d unfolding dedup_at_def by blast
    ultimately show ?thesis by blast
  qed
  ultimately show ?thesis using d
    unfolding dedup_at_def by (auto simp: remember_def note_log_def intro!: spaced_snoc)
qed

lemma dedup_handler: "dedup_at [qe_id e] t \<Longrightarrow> dedup_at [] (handler_settled e c r t)"
proof (cases r)
  case (Inl err)
  assume "dedup_at [qe_id e] t"
  then have "dedup_at [] (t\<lparr>tr_inFlight := filter (\<lambda>j. j \<noteq> qe_id e) (tr_inFlight t)\<rparr>)" by (auto simp: dedup_at_def)
  then show ?thesis using Inl by (simp add: handler_settled_def fail_def dedup_note dedup_return)
qed (simp add: handler_settled_def dedup_spawn dedup_note)

lemma dedup_ack: "dedup_at [qe_id e] t \<Longrightarrow> dedup_at [] (ack_settled e c r t)"
  by (cases r) (simp_all add: ack_settled_def fail_def dedup_note dedup_return dedup_remember)

lemma dedup_drain: "dedup_at [] t \<Longrightarrow> dedup_at [] (drain_next page a batch t)"
  by (cases batch) (simp_all add: dedup_deliver dedup_spawn)

lemma dedup_task: "answers_task k r \<Longrightarrow> dedup_at (ids_busy k) t \<Longrightarrow> dedup_at [] (task_step k r t)"
  by (cases k; cases r)
    (auto simp: dedup_handler dedup_ack dedup_drain page_fetched_def fail_def dedup_note split: sum.split)

lemma dedup_drop:
  assumes "dedup_at [] t" "i < length (tr_tasks t)"
  shows "dedup_at (ids_busy (tr_tasks t ! i)) (drop_task i t)"
proof -
  have "busy (tr_tasks t) = busy (take i (tr_tasks t)) @ ids_busy (tr_tasks t ! i) @ busy (drop (Suc i) (tr_tasks t))"
    using id_take_nth_drop [OF assms(2)] by (metis busy_simps(2,3))
  then show ?thesis using assms(1) by (auto simp: dedup_at_def drop_task_def)
qed

lemma dedup_retry: "dedup_at [] t \<Longrightarrow> dedup_at [] (scheduleRetry random t)"
  by (simp add: scheduleRetry_def dedup_note)

lemma dedup_open: "dedup_at [] t \<Longrightarrow> dedup_at [] (open_socket factory random t)"
  by (simp add: open_socket_def Let_def status_def fail_def dedup_note dedup_retry split: option.split)

lemma dedup_close: "dedup_at [] t \<Longrightarrow> dedup_at [] (close t)"
  by (simp add: close_def Let_def status_def dedup_note split: option.split)

lemma dedup_message: "dedup_at [] t \<Longrightarrow> dedup_at [] (fst (handleMessage raw t))"
  by (auto simp: handleMessage_def drainBacklog_def status_def fail_def dedup_note dedup_deliver dedup_spawn
      split: option.split json.split sum.split)

lemma dedup_step: "dedup_at [] t \<Longrightarrow> enabled i t \<Longrightarrow> dedup_at [] (transport_step i t)"
  by (cases i)
    (simp_all add: connect_def onopen_def onclose_def retry_timer_def Let_def status_def fail_def dedup_note dedup_open
      dedup_close dedup_retry dedup_message dedup_task dedup_drop)

lemma reach_dedup: "transport_reach t \<Longrightarrow> dedup_at [] t"
proof (induction rule: transport_reach.induct)
  case start
  show ?case by (simp add: dedup_at_def new_Transport_def lastn_def)
next
  case (step t i)
  then show ?case by (rule_tac dedup_step)
qed

subsection \<open>Reconnecting\<close>

fun conn_notice :: "notice \<Rightarrow> bool" where
  "conn_notice (TimerSet d) = True"
| "conn_notice (Status st) = (st = Connecting)"
| "conn_notice _ = False"

definition conn_view :: "Transport \<Rightarrow> nat \<times> bool \<times> bool \<times> nat option \<times> nat \<times> notice list" where
  "conn_view t = (tr_backoff t, tr_retry t, tr_stopped t, tr_socket t, tr_made t, filter conn_notice (tr_log t))"

definition conn_inv :: "Transport \<Rightarrow> bool" where
  "conn_inv t \<longleftrightarrow> INITIAL_BACKOFF_MS \<le> tr_backoff t \<and> tr_backoff t \<le> MAX_BACKOFF_MS \<and>
     (tr_stopped t \<longrightarrow> \<not> tr_retry t \<and> tr_socket t = None) \<and>
     (\<forall>d. TimerSet d \<in> set (tr_log t) \<longrightarrow> INITIAL_BACKOFF_MS div 2 \<le> d \<and> d \<le> MAX_BACKOFF_MS) \<and>
     (Status Connecting \<in> set (tr_log t) \<longrightarrow> tr_stopped t \<or> tr_retry t \<or> tr_socket t \<noteq> None)"

lemma conn_inv_view:
  assumes "conn_view t' = conn_view t"
  shows "conn_inv t' = conn_inv t"
proof -
  have "n \<in> set (tr_log t') \<longleftrightarrow> n \<in> set (tr_log t)" if "conn_notice n" for n
  proof -
    have "set (filter conn_notice (tr_log t')) = set (filter conn_notice (tr_log t))"
      using assms by (simp add: conn_view_def)
    then have "n \<in> set (filter conn_notice (tr_log t')) \<longleftrightarrow> n \<in> set (filter conn_notice (tr_log t))" by simp
    then show ?thesis using that by simp
  qed
  then show ?thesis using assms by (simp add: conn_inv_def conn_view_def)
qed

lemma conn_view_note [simp]: "\<not> conn_notice n \<Longrightarrow> conn_view (note_log n t) = conn_view t"
  by (simp add: conn_view_def note_log_def)

lemma conn_view_fields [simp]:
  "conn_view (t\<lparr>tr_inFlight := x\<rparr>) = conn_view t" "conn_view (t\<lparr>tr_handled := y\<rparr>) = conn_view t"
  "conn_view (spawn k t) = conn_view t" "conn_view (drop_task i t) = conn_view t"
  by (simp_all add: conn_view_def spawn_def drop_task_def)

lemma conn_view_tasks [simp]:
  "conn_view (fail e t) = conn_view t" "conn_view (deliver_return c b t) = conn_view t"
  "conn_view (deliver e' c t) = conn_view t" "conn_view (remember i t) = conn_view t"
  by (simp_all add: fail_def deliver_return_def deliver_def deliver_start_def remember_def split: caller_of_deliver.split)

lemma conn_view_drain [simp]: "conn_view (drain_next page a batch t) = conn_view t"
  by (cases batch) simp_all

lemma conn_view_task_step [simp]: "conn_view (task_step k r t) = conn_view t"
  by (cases k; cases r)
    (simp_all add: page_fetched_def handler_settled_def ack_settled_def split: sum.split)

lemmas conn_inv_same [simp] =
  conn_view_note [THEN conn_inv_view] conn_view_fields [THEN conn_inv_view] conn_view_tasks [THEN conn_inv_view]
  conn_view_task_step [THEN conn_inv_view]

lemma retry_delay_bounds:
  assumes "0 \<le> random" "random < 1" "INITIAL_BACKOFF_MS \<le> b" "b \<le> MAX_BACKOFF_MS"
  shows "INITIAL_BACKOFF_MS div 2 \<le> retry_delay b random" "retry_delay b random \<le> MAX_BACKOFF_MS"
proof -
  let ?b = "of_nat b :: rat"
  have b: "500 \<le> b" "b \<le> 30000" using assms(3,4) by (simp_all add: INITIAL_BACKOFF_MS_def MAX_BACKOFF_MS_def)
  then have q: "(500 :: rat) \<le> ?b" "?b \<le> 30000" using of_nat_le_iff [of 500 b] of_nat_le_iff [of b 30000] by simp_all
  have "?b * (1 / 2) \<le> ?b * (1 / 2 + random * (1 / 2))" "?b * (1 / 2 + random * (1 / 2)) \<le> ?b * 1"
    using assms(1,2) by (intro mult_left_mono; simp)+
  then have "250 \<le> ?b * (1 / 2 + random * (1 / 2)) + 1 / 2" "?b * (1 / 2 + random * (1 / 2)) + 1 / 2 < 30001"
    using q by linarith+
  then have "250 \<le> \<lfloor>?b * (1 / 2 + random * (1 / 2)) + 1 / 2\<rfloor>" "\<lfloor>?b * (1 / 2 + random * (1 / 2)) + 1 / 2\<rfloor> \<le> 30000"
    by linarith+
  then show "INITIAL_BACKOFF_MS div 2 \<le> retry_delay b random" "retry_delay b random \<le> MAX_BACKOFF_MS"
    by (simp_all add: retry_delay_def INITIAL_BACKOFF_MS_def MAX_BACKOFF_MS_def nat_le_iff le_nat_iff)
qed

lemma backoff_order: "INITIAL_BACKOFF_MS \<le> MAX_BACKOFF_MS"
  by (simp add: INITIAL_BACKOFF_MS_def MAX_BACKOFF_MS_def)

text \<open>
  The retry timer may be asked for while the invariant is only missing that something is pending.
\<close>

definition conn_bounds :: "Transport \<Rightarrow> bool" where
  "conn_bounds t \<longleftrightarrow> INITIAL_BACKOFF_MS \<le> tr_backoff t \<and> tr_backoff t \<le> MAX_BACKOFF_MS \<and>
     (tr_stopped t \<longrightarrow> \<not> tr_retry t \<and> tr_socket t = None) \<and>
     (\<forall>d. TimerSet d \<in> set (tr_log t) \<longrightarrow> INITIAL_BACKOFF_MS div 2 \<le> d \<and> d \<le> MAX_BACKOFF_MS)"

lemma conn_inv_bounds: "conn_inv t \<Longrightarrow> conn_bounds t"
  by (simp add: conn_inv_def conn_bounds_def)

lemma conn_retry:
  assumes "conn_bounds t" "0 \<le> random" "random < 1"
  shows "conn_inv (scheduleRetry random t)"
  using assms retry_delay_bounds [OF assms(2,3), of "tr_backoff t"] backoff_order
  by (auto simp: scheduleRetry_def conn_bounds_def conn_inv_def note_log_def min_def)

lemma conn_bounds_note: "\<not> conn_notice n \<or> n = Status Connecting \<Longrightarrow> conn_bounds t \<Longrightarrow> conn_bounds (note_log n t)"
  by (auto simp: conn_bounds_def note_log_def)

lemma conn_open:
  assumes "conn_bounds t" "\<not> tr_stopped t" "0 \<le> random" "random < 1"
  shows "conn_inv (open_socket factory random t)"
proof (cases factory)
  case None
  then show ?thesis using assms(1,2)
    by (auto simp: open_socket_def Let_def status_def note_log_def conn_inv_def conn_bounds_def)
next
  case (Some e)
  have "conn_bounds (fail e (status Connecting t))"
    using assms(1) by (simp add: fail_def status_def conn_bounds_note)
  then show ?thesis using Some assms(3,4) by (simp add: open_socket_def Let_def conn_retry)
qed

lemma conn_close: "conn_bounds t \<Longrightarrow> conn_inv (close t)"
  by (auto simp: close_def Let_def status_def note_log_def conn_bounds_def conn_inv_def split: option.split)

lemma conn_message:
  assumes "conn_inv t"
  shows "conn_inv (fst (handleMessage raw t))"
proof -
  have "conn_inv (t\<lparr>tr_backoff := INITIAL_BACKOFF_MS\<rparr>)" using assms backoff_order by (simp add: conn_inv_def)
  then have "conn_inv (drainBacklog (status Ready (t\<lparr>tr_backoff := INITIAL_BACKOFF_MS\<rparr>)))"
    by (simp add: drainBacklog_def status_def)
  then show ?thesis using assms
    by (auto simp: handleMessage_def split: option.split json.split sum.split)
qed

lemma conn_step:
  assumes "conn_inv t" "enabled i t"
  shows "conn_inv (transport_step i t)"
proof (cases i)
  case (OnOpen k tok)
  have "conn_bounds (fail (TransportError ''transport: no session token'') t)"
    using conn_inv_bounds [OF assms(1)] by (simp add: fail_def conn_bounds_note)
  then show ?thesis using OnOpen assms(1) by (simp add: onopen_def conn_close status_def)
next
  case (OnClose k random)
  let ?t = "if tr_socket t = Some k then t\<lparr>tr_socket := None\<rparr> else t"
  have b: "conn_bounds ?t" using conn_inv_bounds [OF assms(1)] by (simp add: conn_bounds_def)
  have stop: "tr_stopped t \<Longrightarrow> conn_inv ?t" using assms(1) by (simp add: conn_inv_def)
  have "conn_bounds (status Disconnected ?t)" unfolding status_def by (rule conn_bounds_note [OF _ b]) simp
  then show ?thesis using OnClose assms(2) stop by (auto simp: onclose_def Let_def conn_retry split: if_splits)
next
  case (Timer factory random)
  have "conn_bounds (t\<lparr>tr_retry := False\<rparr>)" using conn_inv_bounds [OF assms(1)] by (simp add: conn_bounds_def)
  then show ?thesis using Timer assms
    by (cases "tr_stopped t") (simp_all add: retry_timer_def Let_def conn_open, simp add: conn_inv_def)
qed (use assms in \<open>simp_all add: connect_def conn_open conn_close conn_inv_bounds conn_message\<close>)

lemma reach_conn: "transport_reach t \<Longrightarrow> conn_inv t"
proof (induction rule: transport_reach.induct)
  case start
  show ?case using backoff_order by (simp add: conn_inv_def new_Transport_def)
next
  case (step t i)
  then show ?case by (rule_tac conn_step)
qed

text \<open>Closing is final: what happens later opens no socket and sets no timer.\<close>

definition stays_closed :: "Transport \<Rightarrow> Transport \<Rightarrow> bool" where
  "stays_closed t u \<longleftrightarrow> tr_stopped u \<and> tr_made u = tr_made t \<and> filter conn_notice (tr_log u) = filter conn_notice (tr_log t)"

lemma stays_closed_view: "conn_view u = conn_view t \<Longrightarrow> tr_stopped t \<Longrightarrow> stays_closed t u"
  by (simp add: stays_closed_def conn_view_def)

lemma stays_closed_close: "stays_closed t (close t)" "stays_closed t (close (fail e t))"
  by (simp_all add: close_def Let_def stays_closed_def status_def fail_def note_log_def split: option.split)

lemma stays_closed_message:
  assumes "tr_stopped t"
  shows "stays_closed t (fst (handleMessage raw t))"
proof -
  have "stays_closed t (drainBacklog (status Ready (t\<lparr>tr_backoff := INITIAL_BACKOFF_MS\<rparr>)))"
    using assms by (simp add: stays_closed_def drainBacklog_def spawn_def status_def note_log_def)
  then show ?thesis using assms
    by (auto simp: handleMessage_def stays_closed_view split: option.split json.split sum.split)
qed

lemma stopped_step:
  assumes "tr_stopped t"
  shows "stays_closed t (transport_step i t)"
proof (cases i)
  case (OnOpen k tok)
  then show ?thesis using assms stays_closed_close(2) by (simp add: onopen_def status_def stays_closed_view)
next
  case (OnClose k random)
  then show ?thesis using assms by (simp add: onclose_def Let_def stays_closed_def)
next
  case (Timer factory random)
  then show ?thesis using assms by (simp add: retry_timer_def Let_def stays_closed_def)
qed (use assms in \<open>simp_all add: connect_def stays_closed_view stays_closed_close stays_closed_message\<close>)

fun run_inputs :: "input list \<Rightarrow> Transport \<Rightarrow> Transport" where
  "run_inputs [] t = t"
| "run_inputs (i # rest) t = run_inputs rest (transport_step i t)"

lemma stopped_run: "tr_stopped t \<Longrightarrow> stays_closed t (run_inputs inputs t)"
proof (induction inputs arbitrary: t)
  case (Cons i rest)
  then show ?case using stopped_step [OF Cons.prems, of i] Cons.IH [of "transport_step i t"] by (simp add: stays_closed_def)
qed (simp add: stays_closed_def)

subsection \<open>Acknowledging\<close>

definition handled_before :: "string \<Rightarrow> notice list \<Rightarrow> bool" where
  "handled_before i ns \<longleftrightarrow> HandlerDone i \<in> set ns \<and> (\<exists>e. qe_id e = i \<and> HandlerCall e \<in> set ns)"

definition ack_inv :: "Transport \<Rightarrow> bool" where
  "ack_inv t \<longleftrightarrow> (\<forall>xs i zs. tr_log t = xs @ AckSent i # zs \<longrightarrow> handled_before i xs) \<and>
     (\<forall>e c. Handling e c \<in> set (tr_tasks t) \<longrightarrow> HandlerCall e \<in> set (tr_log t))"

lemma ack_note:
  assumes "ack_inv t" "\<And>i. n = AckSent i \<Longrightarrow> handled_before i (tr_log t)"
  shows "ack_inv (note_log n t)"
  unfolding ack_inv_def
proof (intro conjI allI impI)
  fix xs i zs assume eq: "tr_log (note_log n t) = xs @ AckSent i # zs"
  show "handled_before i xs"
  proof (cases zs rule: rev_cases)
    case Nil
    then show ?thesis using eq assms(2) by (simp add: note_log_def)
  next
    case (snoc zs' z)
    then show ?thesis using eq assms(1) by (simp add: note_log_def ack_inv_def)
  qed
qed (use assms(1) in \<open>auto simp: note_log_def ack_inv_def\<close>)

lemma ack_fields [simp]:
  "ack_inv (t\<lparr>tr_inFlight := x\<rparr>) = ack_inv t" "ack_inv (t\<lparr>tr_handled := y\<rparr>) = ack_inv t"
  "ack_inv (t\<lparr>tr_backoff := b\<rparr>) = ack_inv t" "ack_inv (t\<lparr>tr_retry := r\<rparr>) = ack_inv t"
  "ack_inv (t\<lparr>tr_stopped := st\<rparr>) = ack_inv t" "ack_inv (t\<lparr>tr_socket := so\<rparr>) = ack_inv t"
  "ack_inv (t\<lparr>tr_made := m\<rparr>) = ack_inv t"
  by (simp_all add: ack_inv_def)

lemma ack_spawn: "ack_inv t \<Longrightarrow> (\<And>e c. k = Handling e c \<Longrightarrow> HandlerCall e \<in> set (tr_log t)) \<Longrightarrow> ack_inv (spawn k t)"
  by (auto simp: ack_inv_def spawn_def)

lemma ack_spawn_others [simp]:
  "ack_inv (spawn (Fetching page) t) = ack_inv t" "ack_inv (spawn (Looping page a rest) t) = ack_inv t"
  "ack_inv (spawn (Acking e c) t) = ack_inv t"
  by (simp_all add: ack_inv_def spawn_def)

lemma ack_return: "ack_inv t \<Longrightarrow> ack_inv (deliver_return c b t)"
  by (cases c) (simp_all add: deliver_return_def)

lemma ack_deliver:
  assumes "ack_inv t"
  shows "ack_inv (deliver e c t)"
proof -
  have "ack_inv (note_log (HandlerCall e) (t\<lparr>tr_inFlight := x\<rparr>))" for x by (rule ack_note) (simp_all add: assms)
  then show ?thesis
    by (auto simp: deliver_def deliver_start_def ack_return assms note_log_def intro!: ack_spawn)
qed

lemma ack_remember: "ack_inv t \<Longrightarrow> ack_inv (remember i t)"
  unfolding remember_def by (rule ack_note) simp_all

lemma ack_fail: "ack_inv t \<Longrightarrow> ack_inv (fail e t)"
  unfolding fail_def by (rule ack_note) simp_all

lemma ack_status: "ack_inv t \<Longrightarrow> ack_inv (status st t)"
  unfolding status_def by (rule ack_note) simp_all

lemma ack_drain: "ack_inv t \<Longrightarrow> ack_inv (drain_next page a batch t)"
  by (cases batch) (simp_all add: ack_deliver)

lemma ack_task:
  assumes "ack_inv t" "\<And>e c. k = Handling e c \<Longrightarrow> HandlerCall e \<in> set (tr_log t)"
  shows "ack_inv (task_step k r t)"
proof -
  have "ack_inv (handler_settled e c x t)" if "HandlerCall e \<in> set (tr_log t)" for e c x
  proof (cases x)
    case (Inr u)
    have "ack_inv (note_log (HandlerDone (qe_id e)) t)" by (rule ack_note) (simp_all add: assms(1))
    then have "ack_inv (note_log (AckSent (qe_id e)) (note_log (HandlerDone (qe_id e)) t))"
      by (rule ack_note) (use that in \<open>auto simp: note_log_def handled_before_def\<close>)
    then show ?thesis using Inr by (simp add: handler_settled_def)
  qed (simp add: handler_settled_def ack_return ack_fail assms(1))
  then show ?thesis using assms
    by (cases k; cases r)
      (auto simp: page_fetched_def ack_settled_def ack_return ack_fail ack_remember ack_drain split: sum.split)
qed

lemma ack_retry: "ack_inv t \<Longrightarrow> ack_inv (scheduleRetry random t)"
  by (auto simp: scheduleRetry_def intro!: ack_note)

lemma ack_open: "ack_inv t \<Longrightarrow> ack_inv (open_socket factory random t)"
  by (simp add: open_socket_def Let_def ack_status ack_fail ack_retry split: option.split)

lemma ack_close: "ack_inv t \<Longrightarrow> ack_inv (close t)"
  by (auto simp: close_def Let_def intro!: ack_status ack_note split: option.split)

lemma ack_message: "ack_inv t \<Longrightarrow> ack_inv (fst (handleMessage raw t))"
  by (auto simp: handleMessage_def drainBacklog_def ack_status ack_fail ack_deliver
      split: option.split json.split sum.split)

lemma ack_drop: "ack_inv t \<Longrightarrow> ack_inv (drop_task i t)"
  unfolding ack_inv_def drop_task_def by (auto dest!: in_set_takeD in_set_dropD)

lemma ack_step:
  assumes "ack_inv t" "enabled i t"
  shows "ack_inv (transport_step i t)"
proof (cases i)
  case (Reply j r)
  have "HandlerCall e \<in> set (tr_log (drop_task j t))" if "tr_tasks t ! j = Handling e c" for e c
    using assms that Reply nth_mem [of j "tr_tasks t"] by (auto simp: ack_inv_def drop_task_def)
  then show ?thesis using Reply ack_task [OF ack_drop [OF assms(1)]] by simp
next
  case (OnOpen k tok)
  then show ?thesis using assms(1) by (auto simp: onopen_def ack_close ack_fail intro!: ack_note ack_status)
qed (use assms(1) in \<open>auto simp: connect_def onclose_def retry_timer_def Let_def ack_open ack_close ack_retry ack_status
      ack_message intro!: ack_note\<close>)

lemma reach_ack: "transport_reach t \<Longrightarrow> ack_inv t"
proof (induction rule: transport_reach.induct)
  case start
  show ?case by (simp add: ack_inv_def new_Transport_def)
next
  case (step t i)
  then show ?case by (rule_tac ack_step)
qed

subsection \<open>Catching up with a mailbox\<close>

text \<open>
  The schedule in which nothing else happens: the oldest task is answered by the server and by the
  application, until no task is left.
\<close>

definition to_unit :: "'r result \<Rightarrow> unit result" where
  "to_unit r = (case r of Inl e \<Rightarrow> Inl e | Inr _ \<Rightarrow> Inr ())"

fun settle ::
  "('a, DeliveredEnvelope list) effect \<Rightarrow> (string list \<Rightarrow> ('a, 'r) effect) \<Rightarrow> (DeliveredEnvelope \<Rightarrow> ('a, unit) effect) \<Rightarrow>
   task \<Rightarrow> 'a \<Rightarrow> 'a \<times> reply" where
  "settle fetch ack h (Fetching page) s = (case fetch s of (s', r) \<Rightarrow> (s', Fetched r))"
| "settle fetch ack h (Looping page a rest) s = (s, Resumed)"
| "settle fetch ack h (Handling e c) s = (case h e s of (s', r) \<Rightarrow> (s', Handled r))"
| "settle fetch ack h (Acking e c) s = (case ack [qe_id e] s of (s', r) \<Rightarrow> (s', Acked (to_unit r)))"

fun drive_step ::
  "('a, DeliveredEnvelope list) effect \<Rightarrow> (string list \<Rightarrow> ('a, 'r) effect) \<Rightarrow> (DeliveredEnvelope \<Rightarrow> ('a, unit) effect) \<Rightarrow>
   Transport \<times> 'a \<Rightarrow> Transport \<times> 'a" where
  "drive_step fetch ack h (t, s) =
     (case tr_tasks t of
        [] \<Rightarrow> (t, s)
      | k # _ \<Rightarrow> (case settle fetch ack h k s of (s', r) \<Rightarrow> (transport_step (Reply 0 r) t, s')))"

definition drive ::
  "('a, DeliveredEnvelope list) effect \<Rightarrow> (string list \<Rightarrow> ('a, 'r) effect) \<Rightarrow> (DeliveredEnvelope \<Rightarrow> ('a, unit) effect) \<Rightarrow>
   nat \<Rightarrow> Transport \<times> 'a \<Rightarrow> Transport \<times> 'a" where
  "drive fetch ack h n = (drive_step fetch ack h ^^ n)"

fun calls :: "notice list \<Rightarrow> DeliveredEnvelope list" where
  "calls [] = []"
| "calls (HandlerCall e # ns) = e # calls ns"
| "calls (_ # ns) = calls ns"

lemma calls_append [simp]: "calls (xs @ ys) = calls xs @ calls ys"
  by (induction xs rule: calls.induct) simp_all

text \<open>A transport between two tasks.\<close>

definition idle :: "Transport \<Rightarrow> bool" where
  "idle t \<longleftrightarrow> tr_tasks t = [] \<and> tr_inFlight t = []"

text \<open>The three turns of a delivery that succeeds, up to the next envelope of the page.\<close>

definition delivered :: "DeliveredEnvelope \<Rightarrow> Transport \<Rightarrow> Transport" where
  "delivered e t =
     remember (qe_id e) (note_log (AckSent (qe_id e)) (note_log (HandlerDone (qe_id e))
       (note_log (HandlerCall e) (t\<lparr>tr_inFlight := set_add (qe_id e) (tr_inFlight t)\<rparr>))))"

lemma drop_spawned: "tr_tasks t = [] \<Longrightarrow> drop_task 0 (spawn k t) = t"
  by (cases t) (simp add: drop_task_def spawn_def)

lemma tasks_spawned [simp]: "tr_tasks (spawn k t) = tr_tasks t @ [k]" "tr_tasks (note_log n t) = tr_tasks t"
  "tr_tasks (remember i t) = tr_tasks t"
  by (simp_all add: spawn_def note_log_def remember_def)

lemma idle_delivered: "idle t \<Longrightarrow> idle (delivered e t)"
  by (simp add: idle_def delivered_def remember_def note_log_def set_add_def)

lemma calls_delivered: "calls (tr_log (delivered e t)) = calls (tr_log t) @ [e]"
  by (simp add: delivered_def remember_def note_log_def)

lemma handled_delivered: "set (tr_handled (delivered e t)) \<subseteq> insert (qe_id e) (set (tr_handled t))"
proof -
  have "set (trim (set_add (qe_id e) (tr_handled t))) \<subseteq> set (set_add (qe_id e) (tr_handled t))"
    unfolding trim_lastn by (rule set_lastn)
  then show ?thesis by (simp add: delivered_def remember_def note_log_def)
qed

locale mailbox =
  fixes fetch :: "('a, QueuedEnvelope list) effect"
    and ack :: "string list \<Rightarrow> ('a, 'r) effect"
    and ready :: "'a \<Rightarrow> bool"
    and queue :: "'a \<Rightarrow> QueuedEnvelope list"
    and page_size :: nat
  assumes page_pos: "0 < page_size"
    and fetch_law: "ready s \<Longrightarrow> \<exists>s'. fetch s = (s', Inr (take page_size (queue s))) \<and> ready s' \<and> queue s' = queue s"
    and ack_law: "ready s \<Longrightarrow> \<exists>s' r. ack [i] s = (s', Inr r) \<and> ready s' \<and> queue s' = filter (\<lambda>e. qe_id e \<noteq> i) (queue s)"
begin

text \<open>A handler that succeeds and leaves the mailbox alone.\<close>

definition accepts :: "(DeliveredEnvelope \<Rightarrow> ('a, unit) effect) \<Rightarrow> bool" where
  "accepts h \<longleftrightarrow> (\<forall>e s. ready s \<longrightarrow> (\<exists>s'. h e s = (s', Inr ()) \<and> ready s' \<and> queue s' = queue s))"

lemma drive_add: "drive fetch ack h (m + n) x = drive fetch ack h n (drive fetch ack h m x)"
  by (simp add: drive_def funpow_add add.commute [of m n])

lemma drive_envelope:
  assumes "accepts h" "ready s" "idle t" "qe_id e \<notin> set (tr_handled t)" "queue s = e # q" "qe_id e \<notin> qe_id ` set q"
  shows "\<exists>s'. drive fetch ack h 3 (drain_next p a (e # rest) t, s) = (drain_next p True rest (delivered e t), s') \<and>
     ready s' \<and> queue s' = q"
proof -
  let ?c = "Draining p a rest"
  let ?t1 = "note_log (HandlerCall e) (t\<lparr>tr_inFlight := set_add (qe_id e) (tr_inFlight t)\<rparr>)"
  let ?t2 = "note_log (AckSent (qe_id e)) (note_log (HandlerDone (qe_id e)) ?t1)"
  obtain s1 where s1: "h e s = (s1, Inr ())" "ready s1" "queue s1 = e # q" using assms(1,2,5) unfolding accepts_def by metis
  obtain s2 r where s2: "ack [qe_id e] s1 = (s2, Inr r)" "ready s2" "queue s2 = filter (\<lambda>x. qe_id x \<noteq> qe_id e) (e # q)"
    using ack_law [OF s1(2), of "qe_id e"] s1(3) by metis
  have q: "queue s2 = q" using s2(3) assms(6) by (simp add: filter_id_conv) (metis imageI)
  have none: "tr_tasks t = []" using assms(3) by (simp add: idle_def)
  have 0: "drain_next p a (e # rest) t = spawn (Handling e ?c) ?t1"
    using assms(3,4) by (simp add: deliver_def duplicate_def deliver_start_def idle_def)
  have 1: "drive_step fetch ack h (spawn (Handling e ?c) ?t1, s) = (spawn (Acking e ?c) ?t2, s1)"
    by (simp add: none s1(1) handler_settled_def drop_spawned)
  have 2: "drive_step fetch ack h (spawn (Acking e ?c) ?t2, s1) = (spawn (Looping p True rest) (delivered e t), s2)"
    by (simp add: none s2(1) ack_settled_def to_unit_def deliver_return_def delivered_def drop_spawned)
  have 3: "drive_step fetch ack h (spawn (Looping p True rest) (delivered e t), s2) = (drain_next p True rest (delivered e t), s2)"
    using idle_delivered [OF assms(3), of e] by (simp add: idle_def drop_spawned)
  show ?thesis unfolding drive_def 0 using 1 2 3 s2(2) q by (simp add: numeral_3_eq_3)
qed

lemma drive_page:
  assumes "accepts h" "ready s" "idle t" "queue s = batch @ q" "distinct (map qe_id (queue s))"
    and "qe_id ` set batch \<inter> set (tr_handled t) = {}"
  shows "\<exists>n t' s'. drive fetch ack h n (drain_next p a batch t, s) = (drain_next p (a \<or> batch \<noteq> []) [] t', s') \<and>
     ready s' \<and> idle t' \<and> queue s' = q \<and> calls (tr_log t') = calls (tr_log t) @ batch \<and>
     set (tr_handled t') \<subseteq> set (tr_handled t) \<union> qe_id ` set batch"
  using assms(2-)
proof (induction batch arbitrary: a s t)
  case Nil
  then show ?case by (intro exI [of _ 0] exI [of _ t] exI [of _ s]) (simp add: drive_def)
next
  case (Cons e batch)
  have "queue s = e # (batch @ q)" "qe_id e \<notin> qe_id ` set (batch @ q)" using Cons.prems(3,4) by auto
  then obtain s1 where s1: "drive fetch ack h 3 (drain_next p a (e # batch) t, s) = (drain_next p True batch (delivered e t), s1)"
    "ready s1" "queue s1 = batch @ q"
    using drive_envelope [OF assms(1) Cons.prems(1,2), of e "batch @ q" p a batch] Cons.prems(5) by auto
  have "distinct (map qe_id (queue s1))" using Cons.prems(3,4) s1(3) by simp
  moreover have "qe_id ` set batch \<inter> insert (qe_id e) (set (tr_handled t)) = {}" using Cons.prems(3,4,5) by simp
  then have "qe_id ` set batch \<inter> set (tr_handled (delivered e t)) = {}" using handled_delivered [of e t] by blast
  ultimately have "distinct (map qe_id (queue s1))" "qe_id ` set batch \<inter> set (tr_handled (delivered e t)) = {}" by simp_all
  then obtain n t' s' where *: "drive fetch ack h n (drain_next p True batch (delivered e t), s1) = (drain_next p True [] t', s')"
    "ready s'" "idle t'" "queue s' = q" "calls (tr_log t') = calls (tr_log t) @ e # batch"
    "set (tr_handled t') \<subseteq> set (tr_handled (delivered e t)) \<union> qe_id ` set batch"
    using Cons.IH [OF s1(2) idle_delivered [OF Cons.prems(2)] s1(3), of e True] by (auto simp: calls_delivered)
  have "drive fetch ack h (3 + n) (drain_next p a (e # batch) t, s) = (drain_next p True [] t', s')"
    unfolding drive_add s1(1) by (rule *(1))
  then show ?case using *(2-6) handled_delivered [of e t]
    by (intro exI [of _ "3 + n"] exI [of _ t'] exI [of _ s']) auto
qed

lemma drive_fetch:
  assumes "ready s" "tr_tasks t = []"
  shows "\<exists>s'. drive fetch ack h 1 (spawn (Fetching p) t, s) = (page_fetched p (Inr (take page_size (queue s))) t, s') \<and>
     ready s' \<and> queue s' = queue s"
  using fetch_law [OF assms(1)] assms(2) by (auto simp: drive_def drop_spawned)

lemma drive_pages:
  assumes "accepts h" "ready s" "idle t" "distinct (map qe_id (queue s))" "qe_id ` set (queue s) \<inter> set (tr_handled t) = {}"
    and "p < MAX_DRAIN_PAGES" "length (queue s) \<le> (MAX_DRAIN_PAGES - p) * page_size"
  shows "\<exists>n t' s'. drive fetch ack h n (spawn (Fetching p) t, s) = (t', s') \<and> ready s' \<and> idle t' \<and> queue s' = [] \<and>
     calls (tr_log t') = calls (tr_log t) @ queue s"
  using assms(2-)
proof (induction "MAX_DRAIN_PAGES - p" arbitrary: p s t)
  case (Suc d)
  let ?batch = "take page_size (queue s)" and ?q = "drop page_size (queue s)"
  have none: "tr_tasks t = []" using Suc.prems(2) by (simp add: idle_def)
  obtain s0 where s0: "drive fetch ack h 1 (spawn (Fetching p) t, s) = (page_fetched p (Inr ?batch) t, s0)"
    "ready s0" "queue s0 = queue s"
    using drive_fetch [OF Suc.prems(1) none] by blast
  show ?case
  proof (cases "queue s = []")
    case True
    then show ?thesis using s0 Suc.prems(2) by (intro exI [of _ 1] exI [of _ t] exI [of _ s0]) (simp add: page_fetched_def)
  next
    case False
    then have ne: "?batch \<noteq> []" using page_pos by simp
    have "qe_id ` set ?batch \<inter> set (tr_handled t) = {}" using Suc.prems(4) by (auto dest: in_set_takeD)
    then obtain n t1 s1 where *: "drive fetch ack h n (drain_next p False ?batch t, s0) = (drain_next p True [] t1, s1)"
      "ready s1" "idle t1" "queue s1 = ?q" "calls (tr_log t1) = calls (tr_log t) @ ?batch"
      "set (tr_handled t1) \<subseteq> set (tr_handled t) \<union> qe_id ` set ?batch"
      using drive_page [OF assms(1) s0(2) Suc.prems(2), of ?batch ?q p False] s0(3) Suc.prems(3) ne by auto
    have run: "drive fetch ack h (1 + n) (spawn (Fetching p) t, s) = (drain_next p True [] t1, s1)"
      unfolding drive_add s0(1) using *(1) ne by (simp add: page_fetched_def)
    have len: "length ?q \<le> (MAX_DRAIN_PAGES - Suc p) * page_size"
      using Suc.prems(6) Suc.hyps(2) by (metis Suc_diff_Suc Suc.prems(5) add_diff_cancel_left' diff_le_mono length_drop mult_Suc)
    show ?thesis
    proof (cases "Suc p < MAX_DRAIN_PAGES")
      case False
      then have "queue s1 = []" using len *(4) by simp
      moreover have "?batch = queue s" using calculation *(4) by simp
      ultimately show ?thesis using run *(2,3,5) False
        by (intro exI [of _ "1 + n"] exI [of _ t1] exI [of _ s1]) simp
    next
      case True
      have split: "distinct (map qe_id (?batch @ ?q))" using Suc.prems(3) by simp
      have dist: "distinct (map qe_id (queue s1))" using split unfolding *(4) map_append distinct_append by simp
      have new: "qe_id ` set ?q \<inter> qe_id ` set ?batch = {}"
        using split unfolding map_append distinct_append set_map by (simp only: Int_commute)
      have old: "qe_id ` set ?q \<inter> set (tr_handled t) = {}"
        using Suc.prems(4) set_drop_subset [of page_size "queue s"] by blast
      have "qe_id ` set (queue s1) \<inter> set (tr_handled t1) = {}"
        unfolding *(4) using new old *(6) by (meson Int_Un_distrib disjoint_iff subsetD Un_iff)
      note dist this
      moreover have "d = MAX_DRAIN_PAGES - Suc p" using Suc.hyps(2) by simp
      ultimately have "\<exists>m t' s'. drive fetch ack h m (spawn (Fetching (Suc p)) t1, s1) = (t', s') \<and> ready s' \<and> idle t' \<and>
        queue s' = [] \<and> calls (tr_log t') = calls (tr_log t1) @ queue s1"
        using True len *(4) by (intro Suc.hyps(1) [of "Suc p" s1 t1] *(2,3)) simp_all
      then obtain m t' s' where "drive fetch ack h m (spawn (Fetching (Suc p)) t1, s1) = (t', s')" "ready s'"
        "idle t'" "queue s' = []" "calls (tr_log t') = calls (tr_log t1) @ queue s1" by blast
      moreover have "drive fetch ack h (1 + n + m) (spawn (Fetching p) t, s) = drive fetch ack h m (spawn (Fetching (Suc p)) t1, s1)"
        unfolding drive_add [of h "1 + n" m] run using True by simp
      moreover have "calls (tr_log t1) @ queue s1 = calls (tr_log t) @ queue s" using *(4,5) by simp
      ultimately show ?thesis by (intro exI [of _ "1 + n + m"] exI [of _ t'] exI [of _ s']) simp
    qed
  qed
qed simp

end

interpretation relay_mailbox: mailbox "fetchEnvelopes A" "acknowledge A" "logged_in A L a" "\<lambda>s. relay_queue L (net s) a" PAGE
  for A :: "'n ApiConfig" and L :: "'n Relay" and a
proof unfold_locales
  show "0 < PAGE" by (simp add: PAGE_def)
  show "\<exists>s'. fetchEnvelopes A s = (s', Inr (take PAGE (relay_queue L (net s) a))) \<and> logged_in A L a s' \<and>
      relay_queue L (net s') a = relay_queue L (net s) a" if "logged_in A L a s" for s
    using fetchEnvelopes_relay [OF that] by metis
  show "\<exists>s' r. acknowledge A [i] s = (s', Inr r) \<and> logged_in A L a s' \<and>
      relay_queue L (net s') a = filter (\<lambda>e. qe_id e \<noteq> i) (relay_queue L (net s) a)" if "logged_in A L a s" for s i
    using acknowledge_relay [OF that, of "[i]"] by fastforce
qed

context mailbox
begin

text \<open>A page of envelopes that are all remembered is skipped, and the pass ends with it.\<close>

lemma drive_skip:
  assumes "tr_tasks t = []" "\<forall>e\<in>set batch. qe_id e \<in> set (tr_handled t)"
  shows "drive fetch ack h (length batch) (drain_next p False batch t, s) = (t, s)"
  using assms(2)
proof (induction batch)
  case (Cons e batch)
  have "drive fetch ack h 1 (drain_next p False (e # batch) t, s) = (drain_next p False batch t, s)"
    using Cons.prems assms(1) by (simp add: drive_def deliver_def duplicate_def deliver_return_def drop_spawned)
  then show ?case using Cons drive_add [of h 1 "length batch"] by simp
qed (simp add: drive_def)

lemma drive_blocked:
  assumes "ready s" "tr_tasks t = []" "\<forall>e\<in>set (take page_size (queue s)). qe_id e \<in> set (tr_handled t)"
  shows "\<exists>n s'. drive fetch ack h n (spawn (Fetching p) t, s) = (t, s') \<and> ready s' \<and> queue s' = queue s"
proof -
  let ?batch = "take page_size (queue s)"
  obtain s' where s': "drive fetch ack h 1 (spawn (Fetching p) t, s) = (page_fetched p (Inr ?batch) t, s')"
    "ready s'" "queue s' = queue s"
    using drive_fetch [OF assms(1,2)] by blast
  have "drive fetch ack h (length ?batch) (page_fetched p (Inr ?batch) t, s') = (t, s')"
    using drive_skip [OF assms(2,3), of h p s'] by (cases "?batch = []") (auto simp: page_fetched_def drive_def)
  then have "drive fetch ack h (1 + length ?batch) (spawn (Fetching p) t, s) = (t, s')"
    unfolding drive_add s'(1) .
  then show ?thesis using s'(2,3) by blast
qed

end

subsection \<open>Properties\<close>

text \<open>
  Claim C27. The application never handles an envelope twice at a time, and not twice within a
  thousand others. In every reachable state, whatever the order of frames, backlog pages, handler
  and acknowledgement outcomes, the handlers running and acknowledgements pending are for different
  ids, at most 1000 ids are remembered, and between the moment an id is remembered as handled and
  a later call of the handler for the same id at least 1000 other deliveries were completed.
\<close>

theorem no_double_handling:
  assumes "transport_reach t"
  shows "distinct (busy (tr_tasks t)) \<and> length (tr_handled t) \<le> 1000 \<and>
     (\<forall>xs i ys e zs. tr_log t = xs @ Remembered i # ys @ HandlerCall e # zs \<longrightarrow> qe_id e = i \<longrightarrow>
       1000 \<le> length (remembered ys))"
  using reach_dedup [OF assms] length_lastn [of MAX_REMEMBERED_IDS "remembered (tr_log t)"]
  by (simp add: dedup_at_def spaced_def MAX_REMEMBERED_IDS_def)

text \<open>
  Claim C29. An envelope is acknowledged only after the application finished with it: before every
  acknowledgement in the log there are the call of the handler with that envelope's id and its
  completion. When the handler fails, nothing is acknowledged and the id is released, so a
  redelivered copy is handled.
\<close>

theorem acknowledged_after_handling:
  assumes "transport_reach t"
  shows "(\<forall>xs i zs. tr_log t = xs @ AckSent i # zs \<longrightarrow> HandlerDone i \<in> set xs \<and> (\<exists>e. qe_id e = i \<and> HandlerCall e \<in> set xs)) \<and>
     (\<forall>j e c err. j < length (tr_tasks t) \<longrightarrow> tr_tasks t ! j = Handling e c \<longrightarrow>
       tr_log (transport_step (Reply j (Handled (Inl err))) t) = tr_log t @ [Failure err] \<and>
       \<not> duplicate e (transport_step (Reply j (Handled (Inl err))) t))"
proof (intro conjI allI impI)
  fix xs i zs assume "tr_log t = xs @ AckSent i # zs"
  then show "HandlerDone i \<in> set xs" "\<exists>e. qe_id e = i \<and> HandlerCall e \<in> set xs"
    using reach_ack [OF assms] unfolding ack_inv_def handled_before_def by blast+
next
  fix j e c err assume j: "j < length (tr_tasks t)" "tr_tasks t ! j = Handling e c"
  have "dedup_at [qe_id e] (drop_task j t)" using dedup_drop [OF reach_dedup [OF assms] j(1)] j(2) by simp
  then have "qe_id e \<notin> set (tr_handled (drop_task j t))" by (auto simp: dedup_at_def)
  then show "tr_log (transport_step (Reply j (Handled (Inl err))) t) = tr_log t @ [Failure err]"
    "\<not> duplicate e (transport_step (Reply j (Handled (Inl err))) t)"
    using j(2) by (simp_all add: handler_settled_def deliver_return_def fail_def note_log_def spawn_def duplicate_def drop_task_def
        split: caller_of_deliver.split)
qed

text \<open>
  Claim C30. The reconnection loop neither spins nor dies. In every reachable state the backoff is
  between 500 ms and 30 s and every retry timer ever set between 250 ms and 30 s; and once
  \<open>connect\<close> was called, a transport that is not closed has a socket or a pending timer.
\<close>

theorem reconnection_paced_and_alive:
  assumes "transport_reach t"
  shows "500 \<le> tr_backoff t \<and> tr_backoff t \<le> 30000 \<and>
     (\<forall>d. TimerSet d \<in> set (tr_log t) \<longrightarrow> 250 \<le> d \<and> d \<le> 30000) \<and>
     (Status Connecting \<in> set (tr_log t) \<longrightarrow> tr_stopped t \<or> tr_retry t \<or> tr_socket t \<noteq> None)"
  using reach_conn [OF assms] by (simp add: conn_inv_def INITIAL_BACKOFF_MS_def MAX_BACKOFF_MS_def)

text \<open>
  Closing is final. Of a closed transport no sequence of callbacks, timers, replies and
  calls makes a further socket, sets a timer or reports another connection attempt, and it stays
  closed; \<open>connect\<close> on it throws.
\<close>

theorem closing_is_final:
  assumes "tr_stopped t"
  shows "tr_stopped (run_inputs inputs t) \<and> tr_made (run_inputs inputs t) = tr_made t \<and>
     filter conn_notice (tr_log (run_inputs inputs t)) = filter conn_notice (tr_log t) \<and>
     connect factory random t = (t, Inl (TransportError ''transport: already closed''))"
  using stopped_run [OF assms, of inputs] assms by (simp add: stays_closed_def connect_def)


text \<open>
  What \<open>drainBacklog\<close> counts on for the rest of a backlog does not happen. When the oldest
  page of the queue consists of envelopes that were handled but whose acknowledgement failed, every
  catch-up pass of the session reads that page, skips it as duplicates without acknowledging it
  again, and ends: the transport and the queue are as before, so younger envelopes are never fetched.
\<close>

theorem unacknowledged_page_blocks_backlog:
  assumes "logged_in A L a s" "tr_tasks t = []"
    and "\<forall>e\<in>set (take 100 (relay_queue L (net s) a)). qe_id e \<in> set (tr_handled t)"
  shows "\<exists>n s'. drive (fetchEnvelopes A) (acknowledge A) h n (drainBacklog t, s) = (t, s') \<and>
     logged_in A L a s' \<and> relay_queue L (net s') a = relay_queue L (net s) a"
  using relay_mailbox.drive_blocked [of A L a s t h 0] assms by (simp add: drainBacklog_def MAX_DRAIN_PAGES_def PAGE_def)

subsection \<open>A run\<close>

definition demo_env :: "string \<Rightarrow> QueuedEnvelope" where
  "demo_env i = \<lparr>qe_id = i, qe_senderId = ''alice'', qe_payload = [7], qe_createdAt = ''now''\<rparr>"

definition demo_run :: Transport where
  "demo_run = run_inputs [Connect None 0, OnMessage (Some ''{\"type\":\"ready\"}''), Reply 0 (Fetched (Inr [demo_env ''e0'']))]
     new_Transport"

lemma demo_run_tasks: "tr_tasks demo_run = [Handling (demo_env ''e0'') (Draining 0 False [])]"
  by code_simp

lemma demo_run_log: "tr_log demo_run = [Status Connecting, Status Ready, HandlerCall (demo_env ''e0'')]"
  by code_simp

lemma demo_run_reach: "transport_reach demo_run"
proof -
  have 1: "transport_reach (transport_step (Connect None 0) new_Transport)"
    by (rule transport_reach.step [OF transport_reach.start]) simp
  have 2: "transport_reach (transport_step (OnMessage (Some ''{\"type\":\"ready\"}'')) (transport_step (Connect None 0) new_Transport))"
    by (rule transport_reach.step [OF 1]) code_simp
  show ?thesis unfolding demo_run_def run_inputs.simps
    by (rule transport_reach.step [OF 2]) code_simp
qed

theorem no_double_handling_witness: "distinct (busy (tr_tasks demo_run)) \<and> length (tr_handled demo_run) \<le> 1000"
  using no_double_handling [OF demo_run_reach] by simp

theorem acknowledged_after_handling_witness:
  "\<not> duplicate (demo_env ''e0'') (transport_step (Reply 0 (Handled (Inl TypeError))) demo_run)"
  using acknowledged_after_handling [OF demo_run_reach] demo_run_tasks by simp

theorem reconnection_paced_and_alive_witness:
  "tr_backoff demo_run \<le> 30000 \<and> (tr_stopped demo_run \<or> tr_retry demo_run \<or> tr_socket demo_run \<noteq> None)"
  using reconnection_paced_and_alive [OF demo_run_reach] demo_run_log by simp

theorem closing_is_final_witness:
  "tr_made (run_inputs [OnClose 0 0, Timer None 0, Connect None 0] (close demo_run)) = 1"
  using closing_is_final [of "close demo_run" "[OnClose 0 0, Timer None 0, Connect None 0]"] by code_simp

definition demo_mail :: "demo_server ApiState" where
  "demo_mail = demo_login ''bob'' \<lparr>ds_queue = \<lambda>_. [demo_env ''e0'', demo_env ''e1''], ds_count = 2\<rparr>"

lemma demo_mail_queue: "relay_queue demo_relay (net demo_mail) ''bob'' = [demo_env ''e0'', demo_env ''e1'']"
  by (simp add: demo_relay_def demo_mail_def demo_login_def)

lemma demo_mail_login: "logged_in demo_api demo_relay ''bob'' demo_mail"
  unfolding demo_mail_def by (rule demo_logged_in) simp


theorem unacknowledged_page_blocks_backlog_witness:
  "\<exists>n s'. drive (fetchEnvelopes demo_api) (acknowledge demo_api) (\<lambda>e. sreturn ()) n
     (drainBacklog (new_Transport\<lparr>tr_handled := [''e0'', ''e1'']\<rparr>), demo_mail) = (new_Transport\<lparr>tr_handled := [''e0'', ''e1'']\<rparr>, s')"
  using unacknowledged_page_blocks_backlog [OF demo_mail_login, of "new_Transport\<lparr>tr_handled := [''e0'', ''e1'']\<rparr>" "\<lambda>e. sreturn ()"]
  by (auto simp: demo_mail_queue demo_env_def new_Transport_def)

end
