(* ===== verification/Client.thy ===== *)
theory Client
  imports Chat_Store_Spec Attachment Safety Transport
begin

section \<open>Chat engine (\<open>client/chat-client.ts\<close>)\<close>

text \<open>
  One object joins all the others. Its methods are effects on a record with the fields of the class,
  the device the vault lives on, the network behind the REST client, and the events raised so far.
  What the outside supplies is a record of dependencies: the cryptography, the vault, \<open>fetch\<close>, the
  key pairs the generators return, the clock and the ids; each is a sequence read in order. A method
  runs to completion before the next one starts, and the replenishment that \<open>openEnvelope\<close> starts
  without waiting is run at that point. Event callbacks are assumed not to throw. A session is one
  mutable object shared by the map of live sessions: an operation on it updates the map whether or
  not it succeeds.
\<close>

definition PREKEY_TARGET :: nat where "PREKEY_TARGET = 50"
definition PREKEY_LOW_WATER :: nat where "PREKEY_LOW_WATER = 10"
definition TYPING_TTL_MS :: number where "TYPING_TTL_MS = 6000"

datatype ChatEvent =
    IncomingEvent string string string
  | ConversationChanged string
  | ConversationsChanged
  | TypingEvent string number
  | ErrorEvent error

record ('d, 'n) ChatClientOptions =
  dp_sodium :: sodium
  dp_vault :: "'d VaultOps"
  dp_api :: "'n ApiConfig"
  dp_signPair :: "nat \<Rightarrow> KeyPair"
  dp_kxPair :: "nat \<Rightarrow> KeyPair"
  dp_now :: "nat \<Rightarrow> number"
  dp_newId :: "nat \<Rightarrow> string"

record ('d, 'n) ChatClient =
  cl_dev :: 'd
  cl_api :: "'n ApiState"
  cl_identity :: "Identity option"
  cl_stored :: "StoredIdentity option"
  cl_transport :: "Transport option"
  cl_assemblers :: "string \<Rightarrow> AttachmentAssembler option"
  cl_sessions :: "string \<Rightarrow> Session option"
  cl_pairs :: nat
  cl_ticks :: nat
  cl_ids :: nat
  cl_events :: "ChatEvent list"

type_synonym ('d, 'n, 'a) client_op = "(('d, 'n) ChatClient, 'a) effect"

definition new_ChatClient :: "'d \<Rightarrow> 'n ApiState \<Rightarrow> ('d, 'n) ChatClient" where
  "new_ChatClient d a =
     \<lparr>cl_dev = d, cl_api = a, cl_identity = None, cl_stored = None, cl_transport = None, cl_assemblers = Map.empty,
      cl_sessions = Map.empty, cl_pairs = 0, cl_ticks = 0, cl_ids = 0, cl_events = []\<rparr>"

text \<open>The id the class makes from 16 random bytes when none is injected.\<close>

definition default_newId :: "bytes \<Rightarrow> string" where
  "default_newId random = filter (\<lambda>c. c \<notin> {CHR ''+'', CHR ''/'', CHR ''=''}) (encodeB64 random)"

subsection \<open>Access to the parts\<close>

definition on_store :: "('d, 'a) effect \<Rightarrow> ('d, 'n, 'a) client_op" where
  "on_store m = (\<lambda>c. case m (cl_dev c) of (d, r) \<Rightarrow> (c\<lparr>cl_dev := d\<rparr>, r))"

definition on_api :: "('n ApiState, 'a) effect \<Rightarrow> ('d, 'n, 'a) client_op" where
  "on_api m = (\<lambda>c. case m (cl_api c) of (a, r) \<Rightarrow> (c\<lparr>cl_api := a\<rparr>, r))"

definition draw_sign :: "('d, 'n) ChatClientOptions \<Rightarrow> ('d, 'n, KeyPair) client_op" where
  "draw_sign E = (\<lambda>c. (c\<lparr>cl_pairs := cl_pairs c + 1\<rparr>, Inr (dp_signPair E (cl_pairs c))))"

definition draw_kx :: "('d, 'n) ChatClientOptions \<Rightarrow> ('d, 'n, KeyPair) client_op" where
  "draw_kx E = (\<lambda>c. (c\<lparr>cl_pairs := cl_pairs c + 1\<rparr>, Inr (dp_kxPair E (cl_pairs c))))"

definition now :: "('d, 'n) ChatClientOptions \<Rightarrow> ('d, 'n, number) client_op" where
  "now E = (\<lambda>c. (c\<lparr>cl_ticks := cl_ticks c + 1\<rparr>, Inr (dp_now E (cl_ticks c))))"

definition newId :: "('d, 'n) ChatClientOptions \<Rightarrow> ('d, 'n, string) client_op" where
  "newId E = (\<lambda>c. (c\<lparr>cl_ids := cl_ids c + 1\<rparr>, Inr (dp_newId E (cl_ids c))))"

definition emit :: "ChatEvent \<Rightarrow> ('d, 'n, unit) client_op" where
  "emit e = smodify (\<lambda>c. c\<lparr>cl_events := cl_events c @ [e]\<rparr>)"

definition set_session :: "string \<Rightarrow> Session \<Rightarrow> ('d, 'n, unit) client_op" where
  "set_session conv s = smodify (\<lambda>c. c\<lparr>cl_sessions := (cl_sessions c)(conv \<mapsto> s)\<rparr>)"

text \<open>\<open>promise.catch((error) => this.events.onError?.(error))\<close>.\<close>

definition reported :: "('d, 'n, 'a) client_op \<Rightarrow> ('d, 'n, unit) client_op" where
  "reported m = scatch (sbind m (\<lambda>_. sreturn ())) (\<lambda>e. emit (ErrorEvent e))"

definition requireIdentity :: "('d, 'n, Identity) client_op" where
  "requireIdentity = sbind (sget cl_identity) (\<lambda>i. slift (of_option (ChatClientError ''client is not ready'') i))"

definition requireStored :: "('d, 'n, StoredIdentity) client_op" where
  "requireStored = sbind (sget cl_stored) (\<lambda>i. slift (of_option (ChatClientError ''client is not ready'') i))"

definition own_account :: "('d, 'n, string) client_op" where
  "own_account = sbind requireStored (\<lambda>s. sreturn (si_accountId s))"

definition client_ready :: "('d, 'n) ChatClient \<Rightarrow> bool" where
  "client_ready c \<longleftrightarrow> cl_identity c \<noteq> None"

definition attachTransport :: "Transport \<Rightarrow> ('d, 'n, unit) client_op" where
  "attachTransport t = smodify (\<lambda>c. c\<lparr>cl_transport := Some t\<rparr>)"

subsection \<open>Lifecycle\<close>

definition stored_pair :: "KeyPair \<Rightarrow> StoredPair" where
  "stored_pair k = \<lparr>sp_publicKey = encodeB64 (publicKey k), sp_privateKey = encodeB64 (privateKey k)\<rparr>"

text \<open>\<open>for (i = 0; i < n; i++)\<close>: pairs with consecutive ids.\<close>

fun draw_prekeys :: "('d, 'n) ChatClientOptions \<Rightarrow> nat \<Rightarrow> nat \<Rightarrow> ('d, 'n, (nat \<times> KeyPair) list) client_op" where
  "draw_prekeys E first 0 = sreturn []"
| "draw_prekeys E first (Suc n) =
     sbind (draw_kx E) (\<lambda>pair. sbind (draw_prekeys E (first + 1) n) (\<lambda>rest. sreturn ((first, pair) # rest)))"

definition publish_of :: "(nat \<times> KeyPair) list \<Rightarrow> (nat \<times> bytes) list" where
  "publish_of pairs = map (\<lambda>(i, k). (i, publicKey k)) pairs"

definition put_prekeys :: "(nat \<times> KeyPair) list \<Rightarrow> (nat \<times> StoredPair) list \<Rightarrow> (nat \<times> StoredPair) list" where
  "put_prekeys pairs table = foldl (\<lambda>t (i, k). AList.update i (stored_pair k) t) table pairs"

definition decode_pair :: "string \<Rightarrow> string \<Rightarrow> string \<Rightarrow> KeyPair result" where
  "decode_pair pub priv ty =
     rbind (decodeB64 pub) (\<lambda>p. rbind (decodeB64 priv) (\<lambda>k. Inr \<lparr>publicKey = p, privateKey = k, keyType = ty\<rparr>))"

definition adopt :: "StoredIdentity \<Rightarrow> ('d, 'n, unit) client_op" where
  "adopt stored =
     sbind (smodify (\<lambda>c. c\<lparr>cl_stored := Some stored\<rparr>)) (\<lambda>_.
     sbind (slift (decode_pair (si_signingPublicKey stored) (si_signingPrivateKey stored) ''ed25519'')) (\<lambda>sp.
     sbind (slift (decode_pair (si_dhPublicKey stored) (si_dhPrivateKey stored) ''x25519'')) (\<lambda>dp.
     smodify (\<lambda>c. c\<lparr>cl_identity := Some \<lparr>signing = sp, dh = dp\<rparr>\<rparr>))))"

definition persistIdentity :: "('d, 'n) ChatClientOptions \<Rightarrow> StoredIdentity \<Rightarrow> ('d, 'n, unit) client_op" where
  "persistIdentity E stored =
     sbind (smodify (\<lambda>c. c\<lparr>cl_stored := Some stored\<rparr>)) (\<lambda>_. on_store (saveIdentity (dp_vault E) stored))"

definition new_stored :: "string \<Rightarrow> Identity \<Rightarrow> KeyPair \<Rightarrow> bytes \<Rightarrow> (nat \<times> KeyPair) list \<Rightarrow> StoredIdentity" where
  "new_stored account identity spkPair signature pairs =
     \<lparr>si_accountId = account,
      si_signingPublicKey = encodeB64 (publicKey (signing identity)), si_signingPrivateKey = encodeB64 (privateKey (signing identity)),
      si_dhPublicKey = encodeB64 (publicKey (dh identity)), si_dhPrivateKey = encodeB64 (privateKey (dh identity)),
      si_signedPrekeyId = 1, si_signedPrekeyPublic = encodeB64 (publicKey spkPair),
      si_signedPrekeyPrivate = encodeB64 (privateKey spkPair), si_signedPrekeySignature = encodeB64 signature,
      si_oneTimePrekeys = put_prekeys pairs []\<rparr>"

definition register :: "('d, 'n) ChatClientOptions \<Rightarrow> ('d, 'n, string) client_op" where
  "register E =
     sbind (draw_sign E) (\<lambda>signPair. sbind (draw_kx E) (\<lambda>dhPair.
     let identity = generateIdentity signPair dhPair; S = dp_sodium E in
     sbind (draw_kx E) (\<lambda>spkPair.
     sbind (slift (signDetached S (privateKey (signing identity)) (signedPrekeyMessage (publicKey spkPair) 1))) (\<lambda>signature.
     sbind (draw_prekeys E 1 PREKEY_TARGET) (\<lambda>pairs.
     let account = accountId S (publicKey (signing identity));
         stored = new_stored account identity spkPair signature pairs in
     sbind (on_api (api_register S (dp_api E) identity
              \<lparr>spk_id = 1, spk_publicKey = publicKey spkPair, spk_signature = signature\<rparr> (publish_of pairs))) (\<lambda>_.
     sbind (on_store (saveIdentity (dp_vault E) stored)) (\<lambda>_.
     sbind (adopt stored) (\<lambda>_.
     sbind (on_api (authenticate S (dp_api E) identity account)) (\<lambda>_.
     sreturn account)))))))))"

definition resume :: "('d, 'n) ChatClientOptions \<Rightarrow> ('d, 'n, bool) client_op" where
  "resume E =
     sbind (on_store (loadIdentity (dp_vault E))) (\<lambda>stored. case stored of
       None \<Rightarrow> sreturn False
     | Some stored \<Rightarrow>
         sbind (adopt stored) (\<lambda>_.
         sbind requireIdentity (\<lambda>identity.
         sbind (on_api (authenticate (dp_sodium E) (dp_api E) identity (si_accountId stored))) (\<lambda>_.
         sreturn True))))"

subsection \<open>Prekeys\<close>

definition VaultPrekeyStore :: "('d, 'n) ChatClientOptions \<Rightarrow> ('d, 'n) ChatClient PrekeyStore" where
  "VaultPrekeyStore E =
     \<lparr>signedPrekey = (\<lambda>i. sbind requireStored (\<lambda>stored.
        if i \<noteq> si_signedPrekeyId stored then sreturn None
        else sbind (slift (decode_pair (si_signedPrekeyPublic stored) (si_signedPrekeyPrivate stored) ''x25519''))
               (\<lambda>k. sreturn (Some k)))),
      takeOneTimePrekey = (\<lambda>i. sbind requireStored (\<lambda>stored.
        case map_of (si_oneTimePrekeys stored) i of
          None \<Rightarrow> sreturn None
        | Some entry \<Rightarrow>
            sbind (persistIdentity E (stored\<lparr>si_oneTimePrekeys := AList.delete i (si_oneTimePrekeys stored)\<rparr>)) (\<lambda>_.
            sbind (slift (decode_pair (sp_publicKey entry) (sp_privateKey entry) ''x25519''))
               (\<lambda>k. sreturn (Some k)))))\<rparr>"

definition highest_prekey :: "StoredIdentity \<Rightarrow> nat" where
  "highest_prekey stored = foldl max 0 (map fst (si_oneTimePrekeys stored))"

definition replenishPrekeys :: "('d, 'n) ChatClientOptions \<Rightarrow> ('d, 'n, nat) client_op" where
  "replenishPrekeys E =
     sbind requireStored (\<lambda>stored.
     let remaining = length (si_oneTimePrekeys stored) in
     if remaining > PREKEY_LOW_WATER then sreturn 0
     else sbind (draw_prekeys E (highest_prekey stored + 1) (PREKEY_TARGET - remaining)) (\<lambda>pairs.
       let stored = stored\<lparr>si_oneTimePrekeys := put_prekeys pairs (si_oneTimePrekeys stored)\<rparr> in
       sbind (smodify (\<lambda>c. c\<lparr>cl_stored := Some stored\<rparr>)) (\<lambda>_.
       sbind (on_api (uploadPrekeys (dp_api E) (publish_of pairs))) (\<lambda>_.
       sbind (persistIdentity E stored) (\<lambda>_.
       sreturn (length pairs))))))"

subsection \<open>Sessions\<close>

definition key_changed_patch :: "string \<Rightarrow> string \<Rightarrow> string option \<Rightarrow> Conversation \<Rightarrow> Conversation" where
  "key_changed_patch encoded old verified c =
     c\<lparr>c_peerIdentityKey := Some encoded, c_identityChangedFrom := Some old,
       c_verifiedIdentityKey := (if verified = Some encoded then verified else None)\<rparr>"

text \<open>An identity key is never empty, so \<open>existing?.peerIdentityKey\<close> is a test for its presence.\<close>

definition recordPeerIdentity :: "('d, 'n) ChatClientOptions \<Rightarrow> string \<Rightarrow> bytes \<Rightarrow> ('d, 'n, unit) client_op" where
  "recordPeerIdentity E conv identityKey =
     (let encoded = encodeB64 identityKey; V = dp_vault E in
      sbind (on_store (getConversation V conv)) (\<lambda>existing.
      case Option.bind existing c_peerIdentityKey of
        Some old \<Rightarrow>
          if old \<noteq> encoded
          then sbind (on_store (upsertConversation V conv (key_changed_patch encoded old
                  (Option.bind existing c_verifiedIdentityKey)))) (\<lambda>_. emit ConversationsChanged)
          else sreturn ()
      | None \<Rightarrow>
          sbind (on_store (upsertConversation V conv (\<lambda>c. c\<lparr>c_peerIdentityKey := Some encoded\<rparr>))) (\<lambda>_. sreturn ())))"

definition sessionFor :: "('d, 'n) ChatClientOptions \<Rightarrow> string \<Rightarrow> ('d, 'n, Session) client_op" where
  "sessionFor E conv =
     sbind (sget (\<lambda>c. cl_sessions c conv)) (\<lambda>cached. case cached of
       Some s \<Rightarrow> sreturn s
     | None \<Rightarrow>
       sbind (on_store (loadSession (dp_vault E) conv)) (\<lambda>loaded. case loaded of
         Some s \<Rightarrow> sbind (set_session conv s) (\<lambda>_. sreturn s)
       | None \<Rightarrow>
         sbind (on_api (fetchBundle (dp_api E) conv)) (\<lambda>bundle.
         sbind (recordPeerIdentity E conv (bundle_identityKey bundle)) (\<lambda>_.
         sbind requireIdentity (\<lambda>identity.
         sbind (draw_kx E) (\<lambda>ephemeral.
         sbind (draw_kx E) (\<lambda>ratchetKey.
         sbind (slift (startSession (dp_sodium E) ephemeral ratchetKey identity bundle)) (\<lambda>s.
         sbind (set_session conv s) (\<lambda>_.
         sbind (on_store (saveSession (dp_vault E) conv s)) (\<lambda>_.
         sreturn s))))))))))"

definition safetyNumberFor :: "('d, 'n) ChatClientOptions \<Rightarrow> string \<Rightarrow> ('d, 'n, string option) client_op" where
  "safetyNumberFor E conv =
     sbind (on_store (getConversation (dp_vault E) conv)) (\<lambda>conversation.
     case Option.bind conversation c_peerIdentityKey of
       None \<Rightarrow> sreturn None
     | Some key \<Rightarrow>
         sbind requireIdentity (\<lambda>identity.
         sbind (slift (decodeB64 key)) (\<lambda>peer.
         sreturn (Some (safetyNumber (dp_sodium E) (publicKey (signing identity)) peer)))))"

definition setVerified :: "('d, 'n) ChatClientOptions \<Rightarrow> string \<Rightarrow> bool \<Rightarrow> ('d, 'n, unit) client_op" where
  "setVerified E conv verified =
     sbind (on_store (getConversation (dp_vault E) conv)) (\<lambda>conversation.
     case Option.bind conversation c_peerIdentityKey of
       None \<Rightarrow> sreturn ()
     | Some key \<Rightarrow>
         sbind (on_store (upsertConversation (dp_vault E) conv
                  (\<lambda>c. c\<lparr>c_verifiedIdentityKey := (if verified then Some key else None)\<rparr>))) (\<lambda>_.
         emit ConversationsChanged))"

definition acknowledgeIdentityChange :: "('d, 'n) ChatClientOptions \<Rightarrow> string \<Rightarrow> ('d, 'n, unit) client_op" where
  "acknowledgeIdentityChange E conv =
     sbind (on_store (upsertConversation (dp_vault E) conv (\<lambda>c. c\<lparr>c_identityChangedFrom := None\<rparr>))) (\<lambda>_.
     emit ConversationsChanged)"

definition persistSession :: "('d, 'n) ChatClientOptions \<Rightarrow> string \<Rightarrow> ('d, 'n, unit) client_op" where
  "persistSession E conv =
     sbind (sget (\<lambda>c. cl_sessions c conv)) (\<lambda>session. case session of
       None \<Rightarrow> sreturn ()
     | Some s \<Rightarrow> on_store (saveSession (dp_vault E) conv s))"

subsection \<open>Sending\<close>

text \<open>An operation on the live session of a conversation.\<close>

definition in_session :: "string \<Rightarrow> Session \<Rightarrow> (Session, 'a) effect \<Rightarrow> ('d, 'n, 'a) client_op" where
  "in_session conv s m = (\<lambda>c. case m s of (s', r) \<Rightarrow> (c\<lparr>cl_sessions := (cl_sessions c)(conv \<mapsto> s')\<rparr>, r))"

definition sendContent :: "('d, 'n) ChatClientOptions \<Rightarrow> string \<Rightarrow> MessageContent \<Rightarrow> ('d, 'n, string option) client_op" where
  "sendContent E conv content =
     sbind (sessionFor E conv) (\<lambda>session.
     sbind (slift (encodeContent content)) (\<lambda>plain.
     sbind (in_session conv session (encrypt (dp_sodium E) plain)) (\<lambda>wire.
     sbind (on_api (sendEnvelope (dp_api E) conv wire)) (\<lambda>envelopeId.
     sbind (persistSession E conv) (\<lambda>_.
     sreturn envelopeId)))))"

definition new_message :: "string \<Rightarrow> string \<Rightarrow> MessageDirection \<Rightarrow> string \<Rightarrow> number option \<Rightarrow> MessageStatus \<Rightarrow> StoredMessage" where
  "new_message i conv dir body stamp st =
     \<lparr>m_id = i, m_conversationId = conv, m_direction = dir, m_body = body, m_timestamp = stamp, m_status = st,
      m_envelopeId = None, m_attachment = None, m_deletedAt = None, m_senderId = None, m_reactions = None\<rparr>"

text \<open>The \<open>catch\<close> and \<open>finally\<close> around every send of a stored message.\<close>

definition send_or_fail ::
  "('d, 'n) ChatClientOptions \<Rightarrow> StoredMessage \<Rightarrow> ('d, 'n, StoredMessage) client_op \<Rightarrow> ('d, 'n, StoredMessage) client_op" where
  "send_or_fail E message work =
     sfinally
       (scatch work (\<lambda>error.
          sbind (on_store (setMessageStatus (dp_vault E) (m_conversationId message) (m_id message) Failed None)) (\<lambda>_.
          sbind (emit (ErrorEvent error)) (\<lambda>_.
          sreturn (message\<lparr>m_status := Failed\<rparr>)))))
       (emit (ConversationChanged (m_conversationId message)))"

definition sendText ::
  "('d, 'n) ChatClientOptions \<Rightarrow> string \<Rightarrow> string \<Rightarrow> string option \<Rightarrow> ('d, 'n, StoredMessage) client_op" where
  "sendText E conv body replyTo =
     sbind (newId E) (\<lambda>i. sbind (now E) (\<lambda>stamp.
     let message = new_message i conv Outgoing body (Some stamp) Pending in
     sbind (on_store (appendMessage (dp_vault E) message)) (\<lambda>_.
     sbind (emit (ConversationChanged conv)) (\<lambda>_.
     send_or_fail E message
       (sbind (sendContent E conv (TextContent i body stamp replyTo)) (\<lambda>envelopeId.
        sbind (on_store (setMessageStatus (dp_vault E) conv i Sent envelopeId)) (\<lambda>_.
        sreturn (message\<lparr>m_status := Sent, m_envelopeId := envelopeId\<rparr>))))))))"

text \<open>
  Only a message of the user's own ever has the status \<open>failed\<close>, and such a message has a timestamp:
  the branch for one without is not reached.
\<close>

definition retry :: "('d, 'n) ChatClientOptions \<Rightarrow> string \<Rightarrow> string \<Rightarrow> ('d, 'n, unit) client_op" where
  "retry E conv messageId =
     sbind (on_store (listMessages (dp_vault E) conv)) (\<lambda>ms.
     case find (\<lambda>m. m_id m = messageId) ms of
       None \<Rightarrow> sreturn ()
     | Some message \<Rightarrow>
         if m_status message \<noteq> Failed then sreturn ()
         else
           sbind (on_store (setMessageStatus (dp_vault E) conv messageId Pending None)) (\<lambda>_.
           sbind (emit (ConversationChanged conv)) (\<lambda>_.
           sfinally
             (scatch
               (sbind (slift (of_option TypeError (m_timestamp message))) (\<lambda>stamp.
                sbind (sendContent E conv (TextContent (m_id message) (m_body message) stamp None)) (\<lambda>envelopeId.
                on_store (setMessageStatus (dp_vault E) conv messageId Sent envelopeId))))
               (\<lambda>error.
                sbind (on_store (setMessageStatus (dp_vault E) conv messageId Failed None)) (\<lambda>_.
                emit (ErrorEvent error))))
             (emit (ConversationChanged conv)))))"

fun send_chunks :: "('d, 'n) ChatClientOptions \<Rightarrow> string \<Rightarrow> AttachmentChunkContent list \<Rightarrow> ('d, 'n, unit) client_op" where
  "send_chunks E conv [] = sreturn ()"
| "send_chunks E conv (k # ks) = sbind (sendContent E conv (AttachmentContent k)) (\<lambda>_. send_chunks E conv ks)"

definition sendAttachment ::
  "('d, 'n) ChatClientOptions \<Rightarrow> string \<Rightarrow> string \<Rightarrow> string \<Rightarrow> bytes \<Rightarrow> string option \<Rightarrow> ('d, 'n, StoredMessage) client_op" where
  "sendAttachment E conv name mimeType content caption =
     sbind (newId E) (\<lambda>attachmentId. sbind (now E) (\<lambda>stamp.
     let message = (new_message attachmentId conv Outgoing (or_empty caption) (Some stamp) Pending)\<lparr>m_attachment :=
           Some \<lparr>sa_name = Some name, sa_mimeType = Some mimeType, sa_size = length content, sa_blobRef = attachmentId\<rparr>\<rparr> in
     sbind (on_store (saveAttachment (dp_vault E) attachmentId content)) (\<lambda>_.
     sbind (on_store (appendMessage (dp_vault E) message)) (\<lambda>_.
     sbind (emit (ConversationChanged conv)) (\<lambda>_.
     send_or_fail E message
       (sbind (send_chunks E conv (chunkAttachment \<lparr>ai_id = attachmentId, ai_name = name, ai_mimeType = mimeType,
                 ai_bytes = content, ai_timestamp = stamp, ai_caption = caption\<rparr>)) (\<lambda>_.
        sbind (on_store (setMessageStatus (dp_vault E) conv attachmentId Sent None)) (\<lambda>_.
        sreturn (message\<lparr>m_status := Sent\<rparr>)))))))))"

definition deleteMessage :: "('d, 'n) ChatClientOptions \<Rightarrow> string \<Rightarrow> string \<Rightarrow> ('d, 'n, unit) client_op" where
  "deleteMessage E conv messageId =
     sbind (now E) (\<lambda>stamp.
     sbind (on_store (markDeleted (dp_vault E) conv messageId (Some stamp))) (\<lambda>_.
     sbind (emit (ConversationChanged conv)) (\<lambda>_.
     reported (sendContent E conv (DeleteContent messageId (Some stamp))))))"

definition requireMessage :: "('d, 'n) ChatClientOptions \<Rightarrow> string \<Rightarrow> string \<Rightarrow> ('d, 'n, StoredMessage) client_op" where
  "requireMessage E conv messageId =
     sbind (on_store (listMessages (dp_vault E) conv)) (\<lambda>ms.
     slift (of_option (ChatClientError (''unknown message '' @ messageId)) (find (\<lambda>m. m_id m = messageId) ms)))"

definition editMessage :: "('d, 'n) ChatClientOptions \<Rightarrow> string \<Rightarrow> string \<Rightarrow> string \<Rightarrow> ('d, 'n, unit) client_op" where
  "editMessage E conv messageId body =
     sbind (now E) (\<lambda>stamp.
     sbind (requireMessage E conv messageId) (\<lambda>message.
     sbind (on_store (appendMessage (dp_vault E) (message\<lparr>m_body := body\<rparr>))) (\<lambda>_.
     sbind (emit (ConversationChanged conv)) (\<lambda>_.
     reported (sendContent E conv (EditContent messageId body (Some stamp)))))))"

definition react :: "('d, 'n) ChatClientOptions \<Rightarrow> string \<Rightarrow> string \<Rightarrow> string \<Rightarrow> bool \<Rightarrow> ('d, 'n, unit) client_op" where
  "react E conv messageId emoji active =
     sbind own_account (\<lambda>me.
     sbind (on_store (setReaction (dp_vault E) conv messageId emoji me active)) (\<lambda>_.
     sbind (emit (ConversationChanged conv)) (\<lambda>_.
     sbind (now E) (\<lambda>stamp.
     reported (sendContent E conv (ReactionContent messageId emoji active (Some stamp)))))))"

definition sendTyping :: "('d, 'n) ChatClientOptions \<Rightarrow> string \<Rightarrow> ('d, 'n, unit) client_op" where
  "sendTyping E conv = reported (sendContent E conv (TypingContent TYPING_TTL_MS))"

definition markRead :: "('d, 'n) ChatClientOptions \<Rightarrow> string \<Rightarrow> ('d, 'n, unit) client_op" where
  "markRead E conv =
     sbind (on_store (listMessages (dp_vault E) conv)) (\<lambda>ms.
     let unread = map m_id (filter (\<lambda>m. m_direction m = Incoming) ms) in
     sbind (on_store (clearUnread (dp_vault E) conv)) (\<lambda>_.
     sbind (emit ConversationsChanged) (\<lambda>_.
     if unread = [] then sreturn ()
     else sbind (now E) (\<lambda>stamp.
          reported (sendContent E conv (ReceiptContent ReadReceipt unread (Some stamp)))))))"

subsection \<open>Groups\<close>

text \<open>One recipient after the other; what fails is reported and collected.\<close>

fun send_each :: "('d, 'n) ChatClientOptions \<Rightarrow> MessageContent \<Rightarrow> string list \<Rightarrow> ('d, 'n, error list) client_op" where
  "send_each E content [] = sreturn []"
| "send_each E content (r # rs) =
     sbind (scatch (sbind (sendContent E r content) (\<lambda>_. sreturn []))
              (\<lambda>error. sbind (emit (ErrorEvent error)) (\<lambda>_. sreturn [error]))) (\<lambda>failed.
     sbind (send_each E content rs) (\<lambda>more. sreturn (failed @ more)))"

definition fanOut ::
  "('d, 'n) ChatClientOptions \<Rightarrow> GroupState \<Rightarrow> MessageContent \<Rightarrow> string list option \<Rightarrow> ('d, 'n, unit) client_op" where
  "fanOut E state content audience =
     sbind own_account (\<lambda>me.
     let recipients = filter (\<lambda>i. i \<noteq> me) (case audience of None \<Rightarrow> set_from (currentMembers state) | Some a \<Rightarrow> a) in
     sbind (send_each E content recipients) (\<lambda>failures.
     if recipients \<noteq> [] \<and> length failures = length recipients then sthrow (hd failures) else sreturn ()))"

definition createGroupConversation ::
  "('d, 'n) ChatClientOptions \<Rightarrow> string \<Rightarrow> string list \<Rightarrow> ('d, 'n, GroupState) client_op" where
  "createGroupConversation E name initial =
     sbind (newId E) (\<lambda>i. sbind (now E) (\<lambda>stamp.
     let groupId = ''g-'' @ i in
     sbind own_account (\<lambda>me.
     sbind (slift (createGroup groupId name me initial stamp)) (\<lambda>state.
     sbind (on_store (saveGroup (dp_vault E) state)) (\<lambda>_.
     sbind (on_store (upsertConversation (dp_vault E) groupId (\<lambda>c. c\<lparr>c_displayName := Some name, c_isGroup := Some True,
              c_lastActivity := Some stamp\<rparr>))) (\<lambda>_.
     sbind (fanOut E state (GroupCreateContent groupId name (currentMembers state) (Some stamp)) None) (\<lambda>_.
     sbind (emit ConversationsChanged) (\<lambda>_.
     sreturn state))))))))"

definition group :: "('d, 'n) ChatClientOptions \<Rightarrow> string \<Rightarrow> ('d, 'n, GroupState option) client_op" where
  "group E groupId = on_store (loadGroup (dp_vault E) groupId)"

definition requireGroup :: "('d, 'n) ChatClientOptions \<Rightarrow> string \<Rightarrow> ('d, 'n, GroupState) client_op" where
  "requireGroup E groupId =
     sbind (on_store (loadGroup (dp_vault E) groupId)) (\<lambda>state. case state of
       None \<Rightarrow> sthrow (ChatClientError (''unknown group '' @ groupId))
     | Some state \<Rightarrow>
         sbind own_account (\<lambda>me.
         if \<not> isMember state me then sthrow (ChatClientError (''not a member of '' @ groupId)) else sreturn state))"

record GroupChange =
  gc_name :: "string option"
  gc_add :: "string list option"
  gc_remove :: "string list option"

definition or_none :: "'a list option \<Rightarrow> 'a list" where
  "or_none xs = (case xs of None \<Rightarrow> [] | Some ys \<Rightarrow> ys)"

text \<open>The two loops and the rename, the same for a change made here and one received.\<close>

definition change_members :: "bool \<Rightarrow> number \<Rightarrow> string \<Rightarrow> string list \<Rightarrow> GroupState \<Rightarrow> GroupState" where
  "change_members added stamp author accounts state =
     foldl (\<lambda>st a. applyMembershipChange st \<lparr>ch_accountId = a, ch_added = added, ch_timestamp = stamp, ch_by = author\<rparr>)
       state accounts"

definition change_group :: "GroupChange \<Rightarrow> number \<Rightarrow> string \<Rightarrow> GroupState \<Rightarrow> GroupState" where
  "change_group change stamp author state =
     (let st = change_members True stamp author (or_none (gc_add change)) state;
          st = change_members False stamp author (or_none (gc_remove change)) st
      in case gc_name change of None \<Rightarrow> st | Some name \<Rightarrow> applyRename st name stamp author)"

definition updateGroup :: "('d, 'n) ChatClientOptions \<Rightarrow> string \<Rightarrow> GroupChange \<Rightarrow> ('d, 'n, GroupState) client_op" where
  "updateGroup E groupId change =
     sbind (requireGroup E groupId) (\<lambda>state.
     sbind (now E) (\<lambda>clock.
     sbind own_account (\<lambda>me.
     let stamp = nextTimestamp state clock; updated = change_group change stamp me state in
     sbind (on_store (saveGroup (dp_vault E) updated)) (\<lambda>_.
     sbind (on_store (upsertConversation (dp_vault E) groupId
              (\<lambda>c. c\<lparr>c_displayName := Some (g_name updated), c_isGroup := Some True\<rparr>))) (\<lambda>_.
     sbind (fanOut E updated (GroupUpdateContent groupId (gc_name change) (gc_add change) (gc_remove change) stamp)
              (Some (set_from (currentMembers updated @ or_none (gc_remove change))))) (\<lambda>_.
     sbind (emit ConversationsChanged) (\<lambda>_.
     sreturn updated)))))))"

definition sendGroupText :: "('d, 'n) ChatClientOptions \<Rightarrow> string \<Rightarrow> string \<Rightarrow> ('d, 'n, StoredMessage) client_op" where
  "sendGroupText E groupId body =
     sbind (requireGroup E groupId) (\<lambda>state.
     sbind (newId E) (\<lambda>i. sbind (now E) (\<lambda>stamp. sbind own_account (\<lambda>me.
     let message = (new_message i groupId Outgoing body (Some stamp) Pending)\<lparr>m_senderId := Some me\<rparr> in
     sbind (on_store (appendMessage (dp_vault E) message)) (\<lambda>_.
     sbind (emit (ConversationChanged groupId)) (\<lambda>_.
     send_or_fail E message
       (sbind (fanOut E state (GroupTextContent groupId i body stamp None) None) (\<lambda>_.
        sbind (on_store (setMessageStatus (dp_vault E) groupId i Sent None)) (\<lambda>_.
        sreturn (message\<lparr>m_status := Sent\<rparr>))))))))))"

definition leaveGroup :: "('d, 'n) ChatClientOptions \<Rightarrow> string \<Rightarrow> ('d, 'n, unit) client_op" where
  "leaveGroup E groupId =
     sbind (requireGroup E groupId) (\<lambda>state.
     sbind (now E) (\<lambda>clock.
     sbind own_account (\<lambda>me.
     let stamp = nextTimestamp state clock in
     sbind (reported (fanOut E state (GroupUpdateContent groupId None None (Some [me]) stamp) None)) (\<lambda>_.
     sbind (on_store (saveGroup (dp_vault E) (change_members False stamp me [me] state))) (\<lambda>_.
     emit ConversationsChanged)))))"

subsection \<open>Receiving\<close>

text \<open>
  Decrypting with a session that exists. When it is the live one the map holds the same object; a
  freshly loaded one enters the map only on success.
\<close>

definition open_existing :: "('d, 'n) ChatClientOptions \<Rightarrow> string \<Rightarrow> Session \<Rightarrow> bool \<Rightarrow> bytes \<Rightarrow> ('d, 'n, bytes) client_op" where
  "open_existing E conv s live payload =
     sbind (draw_kx E) (\<lambda>fresh. \<lambda>c.
       case decrypt (dp_sodium E) fresh payload s of
         (s', Inl e) \<Rightarrow> (if live then c\<lparr>cl_sessions := (cl_sessions c)(conv \<mapsto> s')\<rparr> else c, Inl e)
       | (s', Inr plaintext) \<Rightarrow>
           sbind (set_session conv s') (\<lambda>_. sbind (persistSession E conv) (\<lambda>_. sreturn plaintext)) c)"

definition open_first :: "('d, 'n) ChatClientOptions \<Rightarrow> string \<Rightarrow> bytes \<Rightarrow> ('d, 'n, bytes) client_op" where
  "open_first E conv payload =
     sbind requireStored (\<lambda>_.
     sbind requireIdentity (\<lambda>identity.
     sbind (draw_kx E) (\<lambda>fresh.
     sbind (acceptSession (dp_sodium E) fresh identity (VaultPrekeyStore E) payload) (\<lambda>(session, plaintext).
     sbind (slift (decodeMessage payload)) (\<lambda>message.
     sbind (case im_x3dh message of None \<Rightarrow> sreturn () | Some h \<Rightarrow> recordPeerIdentity E conv (h_identityKey h)) (\<lambda>_.
     sbind (set_session conv session) (\<lambda>_.
     sbind (on_store (saveSession (dp_vault E) conv session)) (\<lambda>_.
     sbind (reported (replenishPrekeys E)) (\<lambda>_.
     sreturn plaintext)))))))))"

definition openEnvelope :: "('d, 'n) ChatClientOptions \<Rightarrow> string \<Rightarrow> DeliveredEnvelope \<Rightarrow> ('d, 'n, bytes) client_op" where
  "openEnvelope E conv envelope =
     sbind (sget (\<lambda>c. cl_sessions c conv)) (\<lambda>live. case live of
       Some s \<Rightarrow> open_existing E conv s True (qe_payload envelope)
     | None \<Rightarrow>
         sbind (on_store (loadSession (dp_vault E) conv)) (\<lambda>loaded. case loaded of
           Some s \<Rightarrow> open_existing E conv s False (qe_payload envelope)
         | None \<Rightarrow> open_first E conv (qe_payload envelope)))"

definition client_acknowledge ::
  "('d, 'n) ChatClientOptions \<Rightarrow> string \<Rightarrow> string list \<Rightarrow> receipt_kind \<Rightarrow> ('d, 'n, unit) client_op" where
  "client_acknowledge E conv messageIds kind =
     sbind (now E) (\<lambda>stamp. reported (sendContent E conv (ReceiptContent kind messageIds (Some stamp))))"

definition assembler_for :: "string \<Rightarrow> ('d, 'n, AttachmentAssembler) client_op" where
  "assembler_for i =
     sbind (sget (\<lambda>c. cl_assemblers c i)) (\<lambda>a. case a of
       Some asm \<Rightarrow> sreturn asm
     | None \<Rightarrow> sbind (smodify (\<lambda>c. c\<lparr>cl_assemblers := (cl_assemblers c)(i \<mapsto> new_assembler)\<rparr>)) (\<lambda>_. sreturn new_assembler))"

definition in_assembler :: "string \<Rightarrow> AttachmentAssembler \<Rightarrow> (AttachmentAssembler, 'a) effect \<Rightarrow> ('d, 'n, 'a) client_op" where
  "in_assembler i asm m = (\<lambda>c. case m asm of (asm', r) \<Rightarrow> (c\<lparr>cl_assemblers := (cl_assemblers c)(i \<mapsto> asm')\<rparr>, r))"

definition file_message :: "string \<Rightarrow> AttachmentChunkContent \<Rightarrow> DeliveredEnvelope \<Rightarrow> AttachmentFile \<Rightarrow> StoredMessage" where
  "file_message conv chunk envelope file =
     (new_message (at_id chunk) conv Incoming (or_empty (file_caption file)) (at_timestamp chunk) StDelivered)
       \<lparr>m_envelopeId := Some (qe_id envelope),
        m_attachment := Some \<lparr>sa_name = file_name file, sa_mimeType = file_mimeType file,
          sa_size = length (file_bytes file), sa_blobRef = at_id chunk\<rparr>\<rparr>"

definition applyAttachmentChunk ::
  "('d, 'n) ChatClientOptions \<Rightarrow> string \<Rightarrow> AttachmentChunkContent \<Rightarrow> DeliveredEnvelope \<Rightarrow> ('d, 'n, unit) client_op" where
  "applyAttachmentChunk E conv chunk envelope =
     sbind (assembler_for (at_id chunk)) (\<lambda>asm.
     sbind (in_assembler (at_id chunk) asm (add_chunk chunk)) (\<lambda>complete. case complete of
       None \<Rightarrow> emit (ConversationChanged conv)
     | Some file \<Rightarrow>
         sbind (smodify (\<lambda>c. c\<lparr>cl_assemblers := (cl_assemblers c)(at_id chunk := None)\<rparr>)) (\<lambda>_.
         sbind (on_store (saveAttachment (dp_vault E) (at_id chunk) (file_bytes file))) (\<lambda>_.
         sbind (on_store (appendMessage (dp_vault E) (file_message conv chunk envelope file))) (\<lambda>_.
         sbind (on_store (incrementUnread (dp_vault E) conv)) (\<lambda>_.
         sbind (emit (ConversationChanged conv)) (\<lambda>_.
         sbind (emit ConversationsChanged) (\<lambda>_.
         client_acknowledge E conv [at_id chunk] Delivered))))))))"

definition incoming_message :: "string \<Rightarrow> string \<Rightarrow> string \<Rightarrow> number \<Rightarrow> DeliveredEnvelope \<Rightarrow> StoredMessage" where
  "incoming_message i conv body stamp envelope =
     (new_message i conv Incoming body (Some stamp) StDelivered)\<lparr>m_envelopeId := Some (qe_id envelope)\<rparr>"

fun apply_statuses :: "('d, 'n) ChatClientOptions \<Rightarrow> string \<Rightarrow> MessageStatus \<Rightarrow> string list \<Rightarrow> ('d, 'n, unit) client_op" where
  "apply_statuses E conv st [] = sreturn ()"
| "apply_statuses E conv st (i # is) =
     sbind (on_store (setMessageStatus (dp_vault E) conv i st None)) (\<lambda>_. apply_statuses E conv st is)"

text \<open>
  A group creation without a timestamp: every comparison with \<open>undefined\<close> is false, so nobody is a
  member of what it stores and nobody can change it. The time 0 has the same effect.
\<close>

definition stamp_or_zero :: "number option \<Rightarrow> number" where
  "stamp_or_zero t = (case t of None \<Rightarrow> 0 | Some x \<Rightarrow> x)"

definition apply_group_create ::
  "('d, 'n) ChatClientOptions \<Rightarrow> string \<Rightarrow> string \<Rightarrow> string \<Rightarrow> string list \<Rightarrow> number option \<Rightarrow> ('d, 'n, unit) client_op" where
  "apply_group_create E sender groupId name initial stamp =
     sbind (slift (createGroup groupId name sender initial (stamp_or_zero stamp))) (\<lambda>state.
     sbind (on_store (saveGroup (dp_vault E) state)) (\<lambda>_.
     sbind (on_store (upsertConversation (dp_vault E) groupId
              (\<lambda>c. c\<lparr>c_displayName := Some name, c_isGroup := Some True, c_lastActivity := stamp\<rparr>))) (\<lambda>_.
     emit ConversationsChanged)))"

definition apply_group_update ::
  "('d, 'n) ChatClientOptions \<Rightarrow> string \<Rightarrow> string \<Rightarrow> GroupChange \<Rightarrow> number \<Rightarrow> ('d, 'n, unit) client_op" where
  "apply_group_update E sender groupId change stamp =
     sbind (on_store (loadGroup (dp_vault E) groupId)) (\<lambda>existing. case existing of
       None \<Rightarrow> sreturn ()
     | Some existing \<Rightarrow>
         if \<not> isMember existing sender
         then emit (ErrorEvent (ChatClientError (sender @ '' is not a member of '' @ groupId)))
         else
           let updated = change_group change stamp sender existing in
           sbind (on_store (saveGroup (dp_vault E) updated)) (\<lambda>_.
           sbind (on_store (upsertConversation (dp_vault E) groupId
                    (\<lambda>c. c\<lparr>c_displayName := Some (g_name updated), c_isGroup := Some True\<rparr>))) (\<lambda>_.
           emit ConversationsChanged)))"

definition apply_group_text ::
  "('d, 'n) ChatClientOptions \<Rightarrow> string \<Rightarrow> string \<Rightarrow> string \<Rightarrow> string \<Rightarrow> number \<Rightarrow> DeliveredEnvelope \<Rightarrow> ('d, 'n, unit) client_op" where
  "apply_group_text E sender groupId i body stamp envelope =
     sbind (on_store (loadGroup (dp_vault E) groupId)) (\<lambda>state.
     if (case state of None \<Rightarrow> True | Some state \<Rightarrow> \<not> isMember state sender)
     then emit (ErrorEvent (ChatClientError (''rejected a group message from '' @ sender)))
     else
       sbind (on_store (appendMessage (dp_vault E)
                ((incoming_message i groupId body stamp envelope)\<lparr>m_senderId := Some sender\<rparr>))) (\<lambda>_.
       sbind (on_store (incrementUnread (dp_vault E) groupId)) (\<lambda>_.
       sbind (emit (IncomingEvent groupId sender body)) (\<lambda>_.
       sbind (emit (ConversationChanged groupId)) (\<lambda>_.
       emit ConversationsChanged)))))"

definition apply_text ::
  "('d, 'n) ChatClientOptions \<Rightarrow> string \<Rightarrow> string \<Rightarrow> string \<Rightarrow> number \<Rightarrow> DeliveredEnvelope \<Rightarrow> ('d, 'n, unit) client_op" where
  "apply_text E conv i body stamp envelope =
     sbind (on_store (appendMessage (dp_vault E) (incoming_message i conv body stamp envelope))) (\<lambda>_.
     sbind (on_store (incrementUnread (dp_vault E) conv)) (\<lambda>_.
     sbind (emit (IncomingEvent conv conv body)) (\<lambda>_.
     sbind (emit (ConversationChanged conv)) (\<lambda>_.
     sbind (emit ConversationsChanged) (\<lambda>_.
     client_acknowledge E conv [i] Delivered)))))"

definition apply_edit :: "('d, 'n) ChatClientOptions \<Rightarrow> string \<Rightarrow> string \<Rightarrow> string \<Rightarrow> ('d, 'n, unit) client_op" where
  "apply_edit E conv targetId body =
     sbind (on_store (listMessages (dp_vault E) conv)) (\<lambda>ms.
     case find (\<lambda>m. m_id m = targetId) ms of
       None \<Rightarrow> sreturn ()
     | Some target \<Rightarrow>
         sbind (on_store (appendMessage (dp_vault E) (target\<lparr>m_body := body\<rparr>))) (\<lambda>_.
         emit (ConversationChanged conv)))"

fun applyContent ::
  "('d, 'n) ChatClientOptions \<Rightarrow> string \<Rightarrow> MessageContent \<Rightarrow> DeliveredEnvelope \<Rightarrow> ('d, 'n, unit) client_op" where
  "applyContent E conv (TextContent i body stamp replyTo) envelope = apply_text E conv i body stamp envelope"
| "applyContent E conv (ReceiptContent kind ids stamp) envelope =
     sbind (apply_statuses E conv (case kind of ReadReceipt \<Rightarrow> StRead | Delivered \<Rightarrow> StDelivered) ids) (\<lambda>_.
     emit (ConversationChanged conv))"
| "applyContent E conv (TypingContent ttlMs) envelope =
     sbind (now E) (\<lambda>t. emit (TypingEvent conv (t + ttlMs)))"
| "applyContent E conv (DeleteContent targetId stamp) envelope =
     sbind (on_store (markDeleted (dp_vault E) conv targetId stamp)) (\<lambda>_. emit (ConversationChanged conv))"
| "applyContent E conv (EditContent targetId body stamp) envelope = apply_edit E conv targetId body"
| "applyContent E conv (ReactionContent targetId emoji active stamp) envelope =
     sbind (on_store (setReaction (dp_vault E) conv targetId emoji conv active)) (\<lambda>_. emit (ConversationChanged conv))"
| "applyContent E conv (AttachmentContent chunk) envelope = applyAttachmentChunk E conv chunk envelope"
| "applyContent E conv (GroupCreateContent groupId name initial stamp) envelope =
     apply_group_create E conv groupId name initial stamp"
| "applyContent E conv (GroupUpdateContent groupId name adds removes stamp) envelope =
     apply_group_update E conv groupId \<lparr>gc_name = name, gc_add = adds, gc_remove = removes\<rparr> stamp"
| "applyContent E conv (GroupTextContent groupId i body stamp replyTo) envelope =
     apply_group_text E conv groupId i body stamp envelope"
| "applyContent E conv (UnsupportedContent ty) envelope = sreturn ()"

definition handleEnvelope :: "('d, 'n) ChatClientOptions \<Rightarrow> DeliveredEnvelope \<Rightarrow> ('d, 'n, unit) client_op" where
  "handleEnvelope E envelope =
     (let conv = qe_senderId envelope in
      scatch
        (sbind (openEnvelope E conv envelope) (\<lambda>plaintext.
         sbind (slift (decodeContent plaintext)) (\<lambda>content.
         applyContent E conv content envelope)))
        (\<lambda>error. emit (ErrorEvent error)))"

subsection \<open>Reads and conversations\<close>

definition conversations :: "('d, 'n) ChatClientOptions \<Rightarrow> ('d, 'n, Conversation list) client_op" where
  "conversations E = on_store (listConversations (dp_vault E))"

definition messages :: "('d, 'n) ChatClientOptions \<Rightarrow> string \<Rightarrow> ('d, 'n, StoredMessage list) client_op" where
  "messages E conv = on_store (listMessages (dp_vault E) conv)"

definition attachment :: "('d, 'n) ChatClientOptions \<Rightarrow> string \<Rightarrow> ('d, 'n, bytes option) client_op" where
  "attachment E ref = on_store (loadAttachment (dp_vault E) ref)"

definition startConversation ::
  "('d, 'n) ChatClientOptions \<Rightarrow> string \<Rightarrow> string option \<Rightarrow> ('d, 'n, Conversation) client_op" where
  "startConversation E peer displayName =
     sbind own_account (\<lambda>me.
     if peer = me then sthrow (ChatClientError ''cannot start a conversation with yourself'')
     else
       sbind (sessionFor E peer) (\<lambda>_.
       sbind (now E) (\<lambda>stamp.
       sbind (on_store (upsertConversation (dp_vault E) peer
                (\<lambda>c. c\<lparr>c_displayName := displayName, c_lastActivity := Some stamp\<rparr>))) (\<lambda>conversation.
       sbind (emit ConversationsChanged) (\<lambda>_.
       sreturn conversation)))))"

definition client_deleteConversation :: "('d, 'n) ChatClientOptions \<Rightarrow> string \<Rightarrow> ('d, 'n, unit) client_op" where
  "client_deleteConversation E conv =
     sbind (smodify (\<lambda>c. c\<lparr>cl_sessions := (cl_sessions c)(conv := None)\<rparr>)) (\<lambda>_.
     sbind (on_store (store_deleteConversation (dp_vault E) conv)) (\<lambda>_.
     emit ConversationsChanged))"

text \<open>The transport is shared with whoever attached it: it is returned as the call leaves it.\<close>

definition disconnect :: "('d, 'n) ChatClient \<Rightarrow> ('d, 'n) ChatClient \<times> Transport option" where
  "disconnect c =
     (c\<lparr>cl_transport := None, cl_sessions := Map.empty, cl_assemblers := Map.empty\<rparr>, map_option close (cl_transport c))"

end
