(* ===== verification/Json_Image.thy ===== *)
theory Json_Image
  imports Content Group
begin

section \<open>What JSON text can hold\<close>

text \<open>
  The values \<open>JSON.parse\<close> returns are values \<open>JSON.stringify\<close> writes back faithfully: their numbers
  have finitely many decimals and their objects one entry per key. So whatever a peer puts into a
  message can be stored. The numbers with finitely many decimals are closed under what the client
  computes with them.
\<close>

definition decimal :: "rat \<Rightarrow> bool" where
  "decimal q \<longleftrightarrow> (\<exists>k n. q * 10 ^ k = of_int n)"

lemma decimalI: "q * 10 ^ k = of_int n \<Longrightarrow> decimal q"
  unfolding decimal_def by blast

lemma is_integer_iff: "is_integer q \<longleftrightarrow> (\<exists>n. q = of_int n)"
  unfolding is_integer_def by (metis of_int_floor_cancel)

lemma is_integer_abs: "is_integer \<bar>q\<bar> \<longleftrightarrow> is_integer q"
proof (cases "0 \<le> q")
  case False
  then have "\<bar>q\<bar> = of_int n \<longleftrightarrow> q = of_int (- n)" for n by auto
  moreover have "(\<exists>n. q = of_int (- n)) \<longleftrightarrow> (\<exists>n. q = of_int n)" by (metis minus_minus)
  ultimately show ?thesis unfolding is_integer_iff by simp
qed simp

subsection \<open>Denominators\<close>

lemma denominator_le:
  assumes "q = of_int x / of_int y" "0 < y"
  shows "snd (quotient_of q) \<le> y"
proof -
  obtain u v where uv: "quotient_of q = (u, v)" by (cases "quotient_of q")
  then have v: "0 < v" "coprime u v" "q = of_int u / of_int v"
    using quotient_of_denom_pos quotient_of_coprime quotient_of_div by metis+
  then have "(of_int u * of_int y :: rat) = of_int x * of_int v" using assms by (simp add: field_simps)
  then have "u * y = x * v" by (metis of_int_eq_iff of_int_mult)
  then have "v dvd u * y" by simp
  then have "v dvd y" using v(2) by (simp add: coprime_commute coprime_dvd_mult_right_iff)
  then show ?thesis using assms(2) uv by (simp add: zdvd_imp_le)
qed

lemma denominator_shrinks:
  assumes "decimal q" "\<not> is_integer q"
  shows "snd (quotient_of (10 * q)) < snd (quotient_of q)"
proof -
  obtain a d where ad: "quotient_of q = (a, d)" by (cases "quotient_of q")
  then have d: "0 < d" "coprime a d" "q = of_int a / of_int d"
    using quotient_of_denom_pos quotient_of_coprime quotient_of_div by metis+
  obtain k n where "q * 10 ^ k = of_int n" using assms(1) unfolding decimal_def by blast
  then have "(of_int a * 10 ^ k :: rat) = of_int n * of_int d" using d by (simp add: field_simps)
  then have "of_int (a * 10 ^ k) = (of_int (n * d) :: rat)" by simp
  then have "a * 10 ^ k = n * d" by (rule of_int_eq_iff [THEN iffD1])
  then have "d dvd a * 10 ^ k" by simp
  then have dvd: "d dvd 10 ^ k" using d(2) by (simp add: coprime_commute coprime_dvd_mult_right_iff)
  have "d \<noteq> 1" using assms(2) d(3) unfolding is_integer_iff by auto
  then have g: "gcd d 10 \<noteq> 1"
  proof (rule contrapos_nn)
    assume "gcd d 10 = 1"
    then have "coprime d (10 ^ k)" by (simp add: coprime_iff_gcd_eq_1 [symmetric])
    then have "is_unit d" using dvd by (metis coprime_absorb_left)
    then show "d = 1" using d(1) by simp
  qed
  obtain h d' t where h: "h = gcd d 10" "d = h * d'" "h * t = 10" by (metis gcd_dvd1 gcd_dvd2 dvdE)
  have "0 < h" using d(1) h(1) by simp
  then have h1: "1 < h" using g h(1) by linarith
  have d': "0 < d'" using d(1) h(2) \<open>0 < h\<close> by (metis zero_less_mult_pos)
  have "(of_int h * of_int t :: rat) = 10" using arg_cong [OF h(3), of "of_int :: int \<Rightarrow> rat"] by simp
  then have "10 * q = (of_int h * of_int t) * (of_int a / (of_int h * of_int d'))" using d(3) h(2) by simp
  also have "\<dots> = of_int (t * a) / of_int d'" using \<open>0 < h\<close> by simp
  finally have "snd (quotient_of (10 * q)) \<le> d'" using d' by (rule denominator_le)
  also have "d' < d" unfolding h(2) using d' h1 by simp
  finally show ?thesis using ad by simp
qed

lemma decimal_shift: "decimal q \<Longrightarrow> decimal (10 * q)"
  unfolding decimal_def by (metis mult.assoc mult.commute of_int_mult of_int_numeral)

lemma scale_hits:
  assumes "snd (quotient_of q) \<le> int n" "decimal q"
  shows "is_integer (q * 10 ^ scale n q)"
  using assms
proof (induction n arbitrary: q)
  case 0
  then show ?case using quotient_of_denom_pos' [of q] by simp
next
  case (Suc n)
  show ?case
  proof (cases "is_integer q")
    case False
    have "snd (quotient_of (10 * q)) \<le> int n" using denominator_shrinks [OF Suc.prems(2) False] Suc.prems(1) by simp
    then have "is_integer (10 * q * 10 ^ scale n (10 * q))" using Suc.prems(2) by (intro Suc.IH decimal_shift)
    then show ?thesis using False by (simp add: mult_ac)
  qed simp
qed

theorem num_ok_iff: "num_ok q \<longleftrightarrow> decimal q"
proof
  assume "num_ok q"
  then have "is_integer (\<bar>q * 10 ^ decimals q\<bar>)" by (simp add: num_ok_def abs_mult)
  then have "is_integer (q * 10 ^ decimals q)" by (simp only: is_integer_abs)
  then show "decimal q" unfolding is_integer_iff decimal_def by blast
next
  assume "decimal q"
  moreover have "snd (quotient_of q) \<le> int (nat (snd (quotient_of q)))" by simp
  ultimately have "is_integer (q * 10 ^ decimals q)" unfolding decimals_def by (intro scale_hits)
  then have "is_integer \<bar>q * 10 ^ decimals q\<bar>" by (simp only: is_integer_abs)
  then show "num_ok q" by (simp add: num_ok_def abs_mult)
qed

subsection \<open>Closure\<close>

lemma decimal_of_int [simp]: "decimal (of_int n)" "decimal (of_nat m)" "decimal 0" "decimal 1"
  by (rule decimalI [of _ 0], simp, rule decimalI [of _ 0 "int m"], simp, rule decimalI [of _ 0 0], simp,
      rule decimalI [of _ 0 1], simp)

lemma decimal_minus: "decimal q \<Longrightarrow> decimal (- q)"
  unfolding decimal_def by (metis mult_minus_left of_int_minus)

lemma decimal_times: "decimal q \<Longrightarrow> decimal (q * 10 ^ j)"
  unfolding decimal_def by (metis (no_types, opaque_lifting) mult.assoc mult.commute of_int_mult of_int_numeral of_int_power)

lemma decimal_divide:
  assumes "decimal q"
  shows "decimal (q / 10 ^ j)"
proof -
  obtain k n where "q * 10 ^ k = of_int n" using assms unfolding decimal_def by blast
  then have "q / 10 ^ j * 10 ^ (k + j) = of_int n" by (simp add: power_add)
  then show ?thesis by (rule decimalI)
qed

lemma decimal_add:
  assumes "decimal p" "decimal q"
  shows "decimal (p + q)"
proof -
  obtain j m k n where "p * 10 ^ j = of_int m" "q * 10 ^ k = of_int n" using assms unfolding decimal_def by blast
  then have "(p + q) * 10 ^ (j + k) = of_int (m * 10 ^ k + n * 10 ^ j)"
    by (simp add: power_add algebra_simps) (metis mult.assoc mult.commute)
  then show ?thesis by (rule decimalI)
qed

lemma num_ok_zero [simp]: "num_ok 0"
  by (simp add: num_ok_iff)

lemma num_ok_add: "num_ok p \<Longrightarrow> num_ok q \<Longrightarrow> num_ok (p + q)"
  by (simp add: num_ok_iff decimal_add)

lemma num_ok_max: "num_ok p \<Longrightarrow> num_ok q \<Longrightarrow> num_ok (max p q)"
  by (simp add: max_def)

subsection \<open>Parsed values\<close>

lemma decimal_scale10: "decimal q \<Longrightarrow> decimal (scale10 q e)"
  by (simp add: scale10_def decimal_times decimal_divide)

lemma decimal_unsigned: "parse_unsigned s = Some (q, r) \<Longrightarrow> decimal q"
proof -
  have "decimal f" if "parse_fraction t = Some (f, u)" for t f u
    using that by (auto simp: parse_fraction_def intro: decimal_divide split: list.splits if_splits)
  then show "parse_unsigned s = Some (q, r) \<Longrightarrow> decimal q"
    by (auto simp: parse_unsigned_def Let_def intro!: decimal_scale10 decimal_add split: if_splits option.splits)
qed

lemma parse_number_ok: "parse_number s = Some (q, r) \<Longrightarrow> num_ok q"
  by (auto simp: parse_number_def num_ok_iff decimal_unsigned decimal_minus split: list.splits if_splits)

lemma update_ok:
  assumes "json_ok (JObj acc)" "json_ok v"
  shows "json_ok (JObj (AList.update k v acc))"
proof -
  have "snd x = v \<or> x \<in> set acc" if "x \<in> set (AList.update k v acc)" for x
    using that by (induction acc) (auto split: if_splits)
  then show ?thesis using assms by (fastforce simp: distinct_update)
qed

lemma parse_ok:
  "parse_value n s = Some (v, r) \<Longrightarrow> json_ok v"
  "parse_elems n s = Some (vs, r') \<Longrightarrow> \<forall>x\<in>set vs. json_ok x"
  "parse_members n acc s = Some (kvs, r'') \<Longrightarrow> json_ok (JObj acc) \<Longrightarrow> json_ok (JObj kvs)"
proof (induction n s and n s and n acc s arbitrary: v r and vs r' and kvs r''
    rule: parse_value_parse_elems_parse_members.induct)
  case (2 n s)
  then show ?case
    by (auto simp: parse_number_ok simp del: parse_elems.simps parse_members.simps split: list.splits if_splits option.splits)
next
  case (4 n s)
  then show ?case
    by (auto simp del: parse_value.simps split: list.splits if_splits option.splits)
next
  case (6 n acc s)
  then show ?case
    by (auto simp: update_ok simp del: parse_value.simps json_ok.simps split: list.splits if_splits option.splits)
qed simp_all

theorem json_parse_ok: "json_parse s = Some v \<Longrightarrow> json_ok v"
  by (auto simp: json_parse_def parse_ok(1) simp del: parse_value.simps split: option.splits if_splits)

end
