(* ===== verification/Client_Inv.thy ===== *)
theory Client_Inv
  imports Client Json_Image
begin

section \<open>The invariant of the chat engine\<close>

text \<open>
  A triple \<open>safe I m Q\<close> says that \<open>m\<close> keeps \<open>I\<close>, whether it returns or throws, and that what it returns
  satisfies \<open>Q\<close>. Its rules follow the program text; the collection \<open>safe_seq\<close> holds one rule per
  operation for the head of a sequence and \<open>safe_end\<close> one for its end, so that the proof for a method
  is the list of what its calls need. The invariant ties the client's memory to the typed data in the
  vault; nothing is assumed about the network: every reply and every envelope is arbitrary.
\<close>

named_theorems safe_seq \<open>rules for the head of a sequence\<close>
named_theorems safe_end \<open>rules for its end\<close>

definition safe :: "('s \<Rightarrow> bool) \<Rightarrow> ('s, 'a) effect \<Rightarrow> ('a \<Rightarrow> bool) \<Rightarrow> bool" where
  "safe I m Q \<longleftrightarrow> (\<forall>c. I c \<longrightarrow> I (fst (m c)) \<and> (\<forall>x. snd (m c) = Inr x \<longrightarrow> Q x))"

lemma safeI: "(\<And>c c' r. I c \<Longrightarrow> m c = (c', r) \<Longrightarrow> I c' \<and> (\<forall>x. r = Inr x \<longrightarrow> Q x)) \<Longrightarrow> safe I m Q"
  unfolding safe_def by (metis prod.collapse)

lemma safeD: "safe I m Q \<Longrightarrow> I c \<Longrightarrow> m c = (c', r) \<Longrightarrow> I c'" "safe I m Q \<Longrightarrow> I c \<Longrightarrow> m c = (c', Inr x) \<Longrightarrow> Q x"
  unfolding safe_def by (metis fst_conv) (metis snd_conv)

lemma safe_bind:
  assumes "safe I m Q" "\<And>x. Q x \<Longrightarrow> safe I (f x) R"
  shows "safe I (sbind m f) R"
proof (rule safeI)
  fix c c' r assume I: "I c" and eq: "sbind m f c = (c', r)"
  obtain d y where m: "m c = (d, y)" by (cases "m c")
  then have d: "I d" by (rule safeD(1) [OF assms(1) I])
  show "I c' \<and> (\<forall>x. r = Inr x \<longrightarrow> R x)"
  proof (cases y)
    case (Inl e)
    then show ?thesis using eq m d by (auto simp: sbind_def)
  next
    case (Inr x)
    then have "f x d = (c', r)" using eq m by (simp add: sbind_def)
    moreover have "Q x" using safeD(2) [OF assms(1) I] m Inr by simp
    ultimately show ?thesis using safeD [OF assms(2) d] by metis
  qed
qed

lemma safe_last: "safe I m Q \<Longrightarrow> (\<And>x. Q x \<Longrightarrow> R x) \<Longrightarrow> safe I m R"
  unfolding safe_def by blast

lemma safe_return: "safe I (sreturn x) (\<lambda>y. y = x)"
  by (simp add: safe_def)

lemma safe_lift: "safe I (slift r) (\<lambda>x. r = Inr x)"
  by (simp add: safe_def)

lemma safe_throw: "safe I (sthrow e) Q"
  by (simp add: safe_def)

lemma safe_get: "(\<And>c. I c \<Longrightarrow> Q (f c)) \<Longrightarrow> safe I (sget f) Q"
  by (simp add: safe_def)

lemma safe_modify: "(\<And>c. I c \<Longrightarrow> I (f c)) \<Longrightarrow> safe I (smodify f) (\<lambda>_. True)"
  by (simp add: safe_def)

lemma safe_if: "(b \<Longrightarrow> safe I m Q) \<Longrightarrow> (\<not> b \<Longrightarrow> safe I m' Q) \<Longrightarrow> safe I (if b then m else m') Q"
  by simp

lemma safe_option:
  "(x = None \<Longrightarrow> safe I m Q) \<Longrightarrow> (\<And>y. x = Some y \<Longrightarrow> safe I (f y) Q) \<Longrightarrow>
   safe I (case x of None \<Rightarrow> m | Some y \<Rightarrow> f y) Q"
  by (cases x) simp_all

lemma safe_let: "safe I (f x) Q \<Longrightarrow> safe I (let y = x in f y) Q"
  by simp

lemma safe_catch:
  assumes "safe I m Q" "\<And>e. safe I (h e) Q"
  shows "safe I (scatch m h) Q"
proof (rule safeI)
  fix c c' r assume I: "I c" and eq: "scatch m h c = (c', r)"
  obtain d y where m: "m c = (d, y)" by (cases "m c")
  then have d: "I d" by (rule safeD(1) [OF assms(1) I])
  show "I c' \<and> (\<forall>x. r = Inr x \<longrightarrow> Q x)"
  proof (cases y)
    case (Inl e)
    then have "h e d = (c', r)" using eq m by (simp add: scatch_def)
    then show ?thesis using safeD [OF assms(2) d] by metis
  next
    case (Inr x)
    then show ?thesis using eq m d safeD(2) [OF assms(1) I] by (simp add: scatch_def)
  qed
qed

lemma safe_finally:
  assumes "safe I m Q" "safe I f R"
  shows "safe I (sfinally m f) Q"
proof (rule safeI)
  fix c c' r assume I: "I c" and eq: "sfinally m f c = (c', r)"
  obtain d y where m: "m c = (d, y)" by (cases "m c")
  have d: "I d" by (rule safeD(1) [OF assms(1) I m])
  obtain e z where f: "f d = (e, z)" by (cases "f d")
  have e: "I e" by (rule safeD(1) [OF assms(2) d f])
  show "I c' \<and> (\<forall>x. r = Inr x \<longrightarrow> Q x)"
  proof (cases z)
    case (Inl err)
    then show ?thesis using eq m f e by (auto simp: sfinally_def)
  next
    case (Inr u)
    then have "c' = e" "r = y" using eq m f by (simp_all add: sfinally_def)
    then show ?thesis using e safeD(2) [OF assms(1) I] m by simp
  qed
qed

lemmas [safe_seq] = safe_return [THEN safe_bind] safe_lift [THEN safe_bind] safe_throw [THEN safe_bind]
  safe_if safe_option safe_let

lemmas [safe_end] = safe_return [THEN safe_last] safe_lift [THEN safe_last] safe_throw

subsection \<open>What the invariant says\<close>

definition conv_good :: "Conversation \<Rightarrow> bool" where
  "conv_good c \<longleftrightarrow> conversation_ok c \<and> (c_verifiedIdentityKey c \<noteq> None \<longrightarrow> c_verifiedIdentityKey c = c_peerIdentityKey c)"

definition session_ok :: "sodium \<Rightarrow> Session \<Rightarrow> bool" where
  "session_ok S s \<longleftrightarrow> ratchet_ok S (sess_state s)"

definition stored_ok :: "sodium \<Rightarrow> StoredIdentity \<Rightarrow> bool" where
  "stored_ok S s \<longleftrightarrow> stored_identity_ok s \<and>
     (\<forall>k. decode_pair (si_signedPrekeyPublic s) (si_signedPrekeyPrivate s) ''x25519'' = Inr k \<longrightarrow> kx_pair S k)"

definition model_good :: "sodium \<Rightarrow> chat_model \<Rightarrow> bool" where
  "model_good S M \<longleftrightarrow> model_inv M \<and> list_all conv_good (cm_convs M) \<and>
     (\<forall>i s. cm_sessions M i = Some s \<longrightarrow> session_ok S s) \<and> (\<forall>i g. cm_groups M i = Some g \<longrightarrow> group_ok g) \<and>
     (\<forall>s. cm_identity M = Some s \<longrightarrow> stored_ok S s)"

definition mem_good :: "sodium \<Rightarrow> ('d, 'n) ChatClient \<Rightarrow> bool" where
  "mem_good S c \<longleftrightarrow> (\<forall>i s. cl_sessions c i = Some s \<longrightarrow> session_ok S s) \<and> (\<forall>s. cl_stored c = Some s \<longrightarrow> stored_ok S s)"

text \<open>What the dependencies promise: HMAC works, generated pairs are pairs, the clock returns numbers.\<close>

definition deps_ok :: "('d, 'n) ChatClientOptions \<Rightarrow> bool" where
  "deps_ok E \<longleftrightarrow> hmac_law (dp_sodium E) \<and> (\<forall>k. kx_pair (dp_sodium E) (dp_kxPair E k)) \<and> (\<forall>k. num_ok (dp_now E k))"

text \<open>\<open>F\<close> is a further property of the data that a proof may carry along.\<close>

definition client_inv ::
  "('d \<Rightarrow> bool) \<Rightarrow> ('d \<Rightarrow> string \<Rightarrow> bytes option) \<Rightarrow> (chat_model \<Rightarrow> bool) \<Rightarrow> sodium \<Rightarrow> ('d, 'n) ChatClient \<Rightarrow> bool" where
  "client_inv good recs F S c \<longleftrightarrow> mem_good S c \<and> (\<exists>M. chat_state good recs (cl_dev c) M \<and> model_good S M \<and> F M)"

text \<open>A property of histories, groups and files only.\<close>

definition hist_only :: "(chat_model \<Rightarrow> bool) \<Rightarrow> bool" where
  "hist_only F \<longleftrightarrow> (\<forall>M M'. cm_hist M = cm_hist M' \<longrightarrow> cm_groups M = cm_groups M' \<longrightarrow> cm_blobs M = cm_blobs M' \<longrightarrow> F M = F M')"

lemma hist_only_True [simp]: "hist_only (\<lambda>_. True)"
  by (simp add: hist_only_def)

lemma hist_only_eq:
  "hist_only F \<Longrightarrow> cm_hist M = cm_hist M' \<Longrightarrow> cm_groups M = cm_groups M' \<Longrightarrow> cm_blobs M = cm_blobs M' \<Longrightarrow> F M = F M'"
  unfolding hist_only_def by blast

lemma hist_onlyD:
  assumes "hist_only F"
  shows "F (M\<lparr>cm_sessions := x\<rparr>) = F M" "F (M\<lparr>cm_convs := y\<rparr>) = F M" "F (M\<lparr>cm_identity := z\<rparr>) = F M" "F (on_convs f M) = F M"
  by (rule hist_only_eq [OF assms]; simp add: on_convs_def)+

subsection \<open>The cryptographic state\<close>

lemma on_state_ok: "(\<And>st st' r. ratchet_ok S st \<Longrightarrow> m st = (st', r) \<Longrightarrow> ratchet_ok S st') \<Longrightarrow>
  session_ok S s \<Longrightarrow> on_state m s = (s', r) \<Longrightarrow> session_ok S s'"
  by (auto simp: on_state_def session_ok_def split: prod.splits)

lemma encrypt_ok:
  assumes "hmac_law S" "session_ok S s"
  shows "session_ok S (fst (encrypt S p s))"
proof -
  obtain s1 r where s1: "on_state (encryptMessage S p) s = (s1, r)" by (cases "on_state (encryptMessage S p) s")
  then have "session_ok S s1" by (rule on_state_ok [rotated 2]) (use assms encryptMessage_inv in blast)+
  then show ?thesis using s1 by (cases r) (simp_all add: encrypt_def sbind_def)
qed

lemma decrypt_ok:
  assumes "hmac_law S" "kx_pair S fresh" "session_ok S s"
  shows "session_ok S (fst (decrypt S fresh raw s))"
proof (cases "decodeMessage raw")
  case (Inr m)
  obtain s1 r where s1: "on_state (decryptMessage S fresh (im_ratchet m)) s = (s1, r)"
    by (cases "on_state (decryptMessage S fresh (im_ratchet m)) s")
  then have "session_ok S s1" by (rule on_state_ok [rotated 2]) (use assms decryptMessage_inv in blast)+
  then show ?thesis using s1 Inr by (cases r) (simp_all add: decrypt_def sbind_def session_ok_def)
qed (simp add: decrypt_def sbind_def assms)

lemma startSession_ok:
  assumes "hmac_law S" "kx_pair S ratchetKey" "startSession S ephemeral ratchetKey identity bundle = Inr s"
  shows "session_ok S s"
  using assms by (auto simp: startSession_def rbind_eq_Inr session_ok_def intro: initializeInitiator_inv)

subsection \<open>Numbers and groups\<close>

fun nums_ok :: "MessageContent \<Rightarrow> bool" where
  "nums_ok (TextContent i b t r) = num_ok t"
| "nums_ok (ReceiptContent k ids t) = opt_num_ok t"
| "nums_ok (TypingContent ttl) = num_ok ttl"
| "nums_ok (DeleteContent tid t) = opt_num_ok t"
| "nums_ok (EditContent tid b t) = opt_num_ok t"
| "nums_ok (ReactionContent tid e act t) = opt_num_ok t"
| "nums_ok (AttachmentContent c) = opt_num_ok (at_timestamp c)"
| "nums_ok (GroupCreateContent g n ms t) = opt_num_ok t"
| "nums_ok (GroupUpdateContent g n adds rems t) = num_ok t"
| "nums_ok (GroupTextContent g i b t r) = num_ok t"
| "nums_ok (UnsupportedContent ty) = True"

lemma field_ok: "json_ok j \<Longrightarrow> field j k = Some v \<Longrightarrow> json_ok v"
  by (cases j) (auto dest: map_of_SomeD)

lemma views_ok: "json_ok j \<Longrightarrow> opt_num_ok (num_view (field j k))" "json_ok j \<Longrightarrow> num_ok (num_value (field j k))"
  by (auto simp: num_view_def num_value_def opt_num_ok_def dest: field_ok split: option.split json.split)

lemma content_view_ok: "json_ok c \<Longrightarrow> nums_ok (content_view ty c)"
  by (simp add: content_view_def views_ok)

lemma decoded_nums_ok:
  assumes "decodeContent b = Inr c"
  shows "nums_ok c"
proof -
  obtain f where f: "json_parse (utf8_decode b) = Some f" "decode_frame f = Inr c"
    using assms by (auto simp: decodeContent_def split: option.splits)
  have "json_ok f" by (rule json_parse_ok [OF f(1)])
  then show ?thesis using f(2)
    by (auto simp: decode_frame_def rbind_eq_Inr content_view_ok dest: field_ok split: if_splits option.splits json.splits)
qed

lemma member_ok_none [simp]: "member_ok no_record"
  by (simp add: member_ok_def no_record_def)

lemma record_of_ok: "group_ok g \<Longrightarrow> member_ok (record_of (members g) a)"
  by (auto simp: group_ok_def record_of_def dest: map_of_SomeD split: option.split)

lemma members_update_ok:
  assumes "group_ok g" "member_ok r"
  shows "group_ok (g\<lparr>members := AList.update a r (members g)\<rparr>)"
proof -
  have "snd x = r \<or> x \<in> set ms" if "x \<in> set (AList.update a r ms)" for x ms
    using that by (induction ms) (auto split: if_splits)
  then show ?thesis using assms by (fastforce simp: group_ok_def distinct_update)
qed

lemma applyMembershipChange_ok: "group_ok g \<Longrightarrow> num_ok (ch_timestamp ch) \<Longrightarrow> group_ok (applyMembershipChange g ch)"
  using record_of_ok [of g "ch_accountId ch"]
  by (auto simp: applyMembershipChange_def Let_def member_ok_def intro!: members_update_ok)

lemma change_members_ok: "group_ok g \<Longrightarrow> num_ok t \<Longrightarrow> group_ok (change_members added t author accounts g)"
  unfolding change_members_def by (induction accounts arbitrary: g) (simp_all add: applyMembershipChange_ok)

lemma change_group_ok: "group_ok g \<Longrightarrow> num_ok t \<Longrightarrow> group_ok (change_group change t author g)"
  using change_members_ok [of "change_members True t author (or_none (gc_add change)) g" t False author] change_members_ok [of g t True author]
  by (auto simp: change_group_def Let_def applyRename_def group_ok_def split: option.split)

lemma createGroup_ok:
  assumes "createGroup gid name creator initial t = Inr g" "num_ok t"
  shows "group_ok g"
proof -
  let ?r = "\<lparr>addedAt = t, removedAt = 0, addedBy = Some creator, removedBy = None\<rparr>"
  have "group_ok (g'\<lparr>members := foldl (\<lambda>m a. AList.update a ?r m) (members g') xs\<rparr>)" if "group_ok g'" for xs g'
    using that
  proof (induction xs arbitrary: g')
    case (Cons x xs)
    have "group_ok (g'\<lparr>members := AList.update x ?r (members g')\<rparr>)"
      using Cons.prems assms(2) by (intro members_update_ok) (simp_all add: member_ok_def)
    from Cons.IH [OF this] show ?case by simp
  qed simp
  moreover have "group_ok (g\<lparr>members := []\<rparr>)"
    using assms by (auto simp: createGroup_def group_ok_def split: if_splits)
  ultimately have "group_ok (g\<lparr>members := []\<rparr>\<lparr>members := foldl (\<lambda>m a. AList.update a ?r m)
      (members (g\<lparr>members := []\<rparr>)) (set_from (creator # initial))\<rparr>)" by blast
  then show ?thesis using assms(1) by (auto simp: createGroup_def split: if_splits)
qed

lemma latest_ok:
  assumes "group_ok g"
  shows "num_ok (latestTimestamp g)"
proof -
  have "num_ok (foldl (\<lambda>latest (_, record). max (max latest (addedAt record)) (removedAt record)) x ms)"
    if "num_ok x" "\<forall>r\<in>set ms. member_ok (snd r)" for x and ms :: "(string \<times> MemberRecord) list"
    using that by (induction ms arbitrary: x) (auto simp: member_ok_def num_ok_max)
  then show ?thesis using assms by (simp add: latestTimestamp_def group_ok_def num_ok_max)
qed

lemma nextTimestamp_ok: "group_ok g \<Longrightarrow> num_ok t \<Longrightarrow> num_ok (nextTimestamp g t)"
  using num_ok_of_nat [of 1] by (simp add: nextTimestamp_def num_ok_max num_ok_add latest_ok)


subsection \<open>The data stays good\<close>

lemma conv_good_new: "conv_good (new_conversation i)"
  by (simp add: conv_good_def new_conversation_def conversation_ok_def opt_num_ok_def)

lemma conv_good_id: "conv_good (c\<lparr>c_id := i\<rparr>) = conv_good c"
  by (simp add: conv_good_def conversation_ok_def)

lemma update_first_found:
  assumes "find P xs = Some y" "x \<in> set (update_first P f xs)"
  shows "x \<in> set xs \<or> x = f y"
  using assms by (induction xs) (auto split: if_splits)

lemma conv_good_upsert:
  assumes "list_all conv_good cs" "conv_good (patch (existing_conversation i cs))"
  shows "list_all conv_good (upsert i patch cs)"
proof (cases "find (\<lambda>c. c_id c = i) cs")
  case None
  then have "\<not> (\<exists>c\<in>set cs. c_id c = i)" by (auto simp: find_None_iff)
  then show ?thesis using assms None by (simp add: upsert_def existing_conversation_def patched_def conv_good_id)
next
  case (Some c)
  then have "\<exists>c\<in>set cs. c_id c = i" by (auto simp: find_Some_iff)
  then show ?thesis
    using assms Some update_first_found [OF Some]
    by (fastforce simp: upsert_def existing_conversation_def patched_def conv_good_id list_all_iff)
qed

lemma existing_good: "list_all conv_good cs \<Longrightarrow> conv_good (existing_conversation i cs)"
  by (auto simp: existing_conversation_def conv_good_new list_all_iff find_Some_iff split: option.split)

lemma model_good_convs:
  assumes "model_good S M" "conv_good (patch (existing_conversation i (cm_convs M)))"
  shows "model_good S (on_convs (upsert i patch) M)"
  using assms model_inv_convs [of M i patch] conv_good_upsert [of "cm_convs M" patch i]
  by (simp add: model_good_def) (simp add: on_convs_def)

lemma model_good_hist: "model_good S M \<Longrightarrow> model_inv (on_hist i f M) \<Longrightarrow> model_good S (on_hist i f M)"
  by (simp add: model_good_def) (simp add: on_hist_def)

lemma model_good_append:
  assumes "model_good S M" "message_ok m"
  shows "model_good S (append_model m M)"
proof -
  have "list_all conv_good (upsert (m_conversationId m) (\<lambda>c. c\<lparr>c_lastActivity := m_timestamp m\<rparr>) (cm_convs M))"
    by (rule conv_good_upsert)
      (use assms existing_good [of "cm_convs M"] in \<open>auto simp: model_good_def conv_good_def conversation_ok_def message_ok_def\<close>)
  moreover have "model_inv (append_model m M)" using assms model_inv_append by (simp add: model_good_def)
  ultimately show ?thesis using assms(1)
    by (simp add: model_good_def) (simp add: append_model_def on_convs_def on_hist_def)
qed

lemma model_good_patch:
  assumes "model_good S M" "\<And>m. m_id (f m) = m_id m \<and> m_conversationId (f m) = m_conversationId m"
  shows "model_good S (patch_model i mid f M)"
  using assms model_inv_patch [of M f i mid] unfolding patch_model_def by (intro model_good_hist) (simp_all add: model_good_def)

lemma model_good_drop: "model_good S M \<Longrightarrow> model_good S (drop_model i M)"
  using model_inv_drop [of M i] by (auto simp: model_good_def drop_model_def list_all_iff)

lemma model_good_save:
  "model_good S M \<Longrightarrow> session_ok S s \<Longrightarrow> model_good S (M\<lparr>cm_sessions := (cm_sessions M)(i \<mapsto> s)\<rparr>)"
  "model_good S M \<Longrightarrow> group_ok g \<Longrightarrow> model_good S (M\<lparr>cm_groups := (cm_groups M)(i \<mapsto> g)\<rparr>)"
  "model_good S M \<Longrightarrow> stored_ok S st \<Longrightarrow> model_good S (M\<lparr>cm_identity := Some st\<rparr>)"
  "model_good S M \<Longrightarrow> model_good S (M\<lparr>cm_blobs := b\<rparr>)"
  by (auto simp: model_good_def model_inv_def)

lemma patches_keep_ids:
  "m_id (status_patch st e m) = m_id m \<and> m_conversationId (status_patch st e m) = m_conversationId m"
  "m_id (tombstone t m) = m_id m \<and> m_conversationId (tombstone t m) = m_conversationId m"
  "m_id (react_patch emoji who active m) = m_id m \<and> m_conversationId (react_patch emoji who active m) = m_conversationId m"
  by (simp_all add: status_patch_def tombstone_def react_patch_def Let_def)

lemma session_storable: "session_ok S s \<Longrightarrow> storable s"
  unfolding session_ok_def by (rule ratchet_ok_storable)

definition wired :: "'d VaultOps \<Rightarrow> ('d, 'n) ChatClientOptions \<Rightarrow> bool" where
  "wired V E \<longleftrightarrow> dp_vault E = V \<and> deps_ok E"

end
