(* ===== verification/Client_Safe.thy ===== *)
theory Client_Safe
  imports Client_Inv
begin

section \<open>Every call of the chat engine keeps its invariant\<close>

text \<open>
  One rule per primitive and per method. What a proof needs of the store comes through the locale
  \<open>record_vault\<close>; the network and the peers are unconstrained.
\<close>

lemma client_invI:
  "mem_good S c \<Longrightarrow> chat_state good recs (cl_dev c) M \<Longrightarrow> model_good S M \<Longrightarrow> F M \<Longrightarrow> client_inv good recs F S c"
  unfolding client_inv_def by blast

lemma client_inv_mem: "client_inv good recs F S c \<Longrightarrow> mem_good S c"
  by (simp add: client_inv_def)

lemma mem_good_dev [simp]: "mem_good S (c\<lparr>cl_dev := d\<rparr>) = mem_good S c"
  by (simp add: mem_good_def)

lemma client_inv_fields [simp]:
  "client_inv good recs F S (c\<lparr>cl_api := a\<rparr>) = client_inv good recs F S c"
  "client_inv good recs F S (c\<lparr>cl_pairs := n\<rparr>) = client_inv good recs F S c"
  "client_inv good recs F S (c\<lparr>cl_ticks := n\<rparr>) = client_inv good recs F S c"
  "client_inv good recs F S (c\<lparr>cl_ids := n\<rparr>) = client_inv good recs F S c"
  "client_inv good recs F S (c\<lparr>cl_events := es\<rparr>) = client_inv good recs F S c"
  "client_inv good recs F S (c\<lparr>cl_transport := t\<rparr>) = client_inv good recs F S c"
  "client_inv good recs F S (c\<lparr>cl_assemblers := as\<rparr>) = client_inv good recs F S c"
  "client_inv good recs F S (c\<lparr>cl_identity := i\<rparr>) = client_inv good recs F S c"
  by (simp_all add: client_inv_def mem_good_def)

lemma client_inv_session:
  "client_inv good recs F S c \<Longrightarrow> session_ok S s \<Longrightarrow> client_inv good recs F S (c\<lparr>cl_sessions := (cl_sessions c)(i \<mapsto> s)\<rparr>)"
  by (auto simp: client_inv_def mem_good_def)

lemma client_inv_forget:
  "client_inv good recs F S c \<Longrightarrow> client_inv good recs F S (c\<lparr>cl_sessions := (cl_sessions c)(i := None)\<rparr>)"
  by (auto simp: client_inv_def mem_good_def)

lemma client_inv_stored:
  "client_inv good recs F S c \<Longrightarrow> stored_ok S s \<Longrightarrow> client_inv good recs F S (c\<lparr>cl_stored := Some s\<rparr>)"
  by (auto simp: client_inv_def mem_good_def)

subsection \<open>Primitives\<close>

lemma safe_api: "safe (client_inv good recs F S) (on_api m) (\<lambda>_. True)"
  by (rule safeI) (auto simp: on_api_def split: prod.splits)

lemma safe_emit: "safe (client_inv good recs F S) (emit e) (\<lambda>_. True)"
  unfolding emit_def by (rule safe_modify) simp

lemma safe_draw_sign: "safe (client_inv good recs F S) (draw_sign E) (\<lambda>_. True)"
  by (rule safeI) (auto simp: draw_sign_def)

lemma safe_draw_kx: "wired V E \<Longrightarrow> S = dp_sodium E \<Longrightarrow> safe (client_inv good recs F S) (draw_kx E) (kx_pair S)"
  by (rule safeI) (auto simp: draw_kx_def wired_def deps_ok_def)

lemma safe_now: "wired V E \<Longrightarrow> safe (client_inv good recs F S) (now E) num_ok"
  by (rule safeI) (auto simp: now_def wired_def deps_ok_def)

lemma safe_newId: "safe (client_inv good recs F S) (newId E) (\<lambda>_. True)"
  by (rule safeI) (auto simp: newId_def)

lemma safe_set_session: "session_ok S s \<Longrightarrow> safe (client_inv good recs F S) (set_session i s) (\<lambda>_. True)"
  unfolding set_session_def by (rule safe_modify) (rule client_inv_session)

lemma safe_in_session:
  "session_ok S (fst (m s)) \<Longrightarrow> safe (client_inv good recs F S) (in_session i s m) (\<lambda>_. True)"
  by (rule safeI) (auto simp: in_session_def client_inv_session split: prod.splits)

lemma safe_live_session: "safe (client_inv good recs F S) (sget (\<lambda>c. cl_sessions c i)) (\<lambda>x. \<forall>s. x = Some s \<longrightarrow> session_ok S s)"
  by (rule safe_get) (auto dest: client_inv_mem simp: mem_good_def)

lemma safe_reported:
  "safe (client_inv good recs F S) m Q \<Longrightarrow> safe (client_inv good recs F S) (reported m) (\<lambda>_. True)"
  unfolding reported_def by (intro safe_catch safe_emit) (rule safe_bind, assumption, simp add: safe_return [THEN safe_last])

lemma safe_requireIdentity: "safe (client_inv good recs F S) requireIdentity (\<lambda>_. True)"
  unfolding requireIdentity_def by (rule safe_bind [OF safe_get, where Q = "\<lambda>_. True"]) (simp_all add: safe_lift [THEN safe_last])

lemma safe_stored: "safe (client_inv good recs F S) (sget cl_stored) (\<lambda>x. \<forall>s. x = Some s \<longrightarrow> stored_ok S s)"
  by (rule safe_get) (auto dest: client_inv_mem simp: mem_good_def)

lemma safe_requireStored: "safe (client_inv good recs F S) requireStored (stored_ok S)"
  unfolding requireStored_def by (rule safe_bind [OF safe_stored]) (rule safe_lift [THEN safe_last], simp add: of_option_eq_Inr)

lemma safe_own_account: "safe (client_inv good recs F S) own_account (\<lambda>_. True)"
  unfolding own_account_def by (rule safe_bind [OF safe_requireStored]) (simp add: safe_return [THEN safe_last])

lemmas [safe_seq] = safe_api [THEN safe_bind] safe_emit [THEN safe_bind] safe_draw_sign [THEN safe_bind]
  safe_draw_kx [THEN safe_bind] safe_now [THEN safe_bind] safe_newId [THEN safe_bind] safe_set_session [THEN safe_bind]
  safe_in_session [THEN safe_bind] safe_live_session [THEN safe_bind] safe_reported [THEN safe_bind]
  safe_requireIdentity [THEN safe_bind] safe_requireStored [THEN safe_bind] safe_own_account [THEN safe_bind]

lemmas [safe_end] = safe_api [THEN safe_last] safe_emit [THEN safe_last] safe_reported [THEN safe_last]


subsection \<open>The store\<close>

context record_vault
begin

lemma safe_store:
  assumes "\<And>M. model_good S M \<Longrightarrow> F M \<Longrightarrow> (\<And>i. list_all message_ok (cm_hist M i)) \<Longrightarrow>
    \<exists>x M'. implements (chat_state good recs) m M (Inr x) M' \<and> model_good S M' \<and> F M' \<and> Q x"
  shows "safe (client_inv good recs F S) (on_store m) Q"
proof (rule safeI)
  fix c c' r assume I: "client_inv good recs F S c" and eq: "on_store m c = (c', r)"
  obtain M where M: "chat_state good recs (cl_dev c) M" "model_good S M" "F M" using I by (auto simp: client_inv_def)
  obtain x M' where x: "implements (chat_state good recs) m M (Inr x) M'" "model_good S M'" "F M'" "Q x"
    using assms [OF M(2,3) chat_state_hist_ok [OF M(1)]] by blast
  obtain d' where d': "m (cl_dev c) = (d', Inr x)" "chat_state good recs d' M'" using x(1) M(1) by (rule implementsE)
  then have "c' = c\<lparr>cl_dev := d'\<rparr>" "r = Inr x" using eq by (simp_all add: on_store_def)
  then show "client_inv good recs F S c' \<and> (\<forall>x. r = Inr x \<longrightarrow> Q x)"
    using x d'(2) client_inv_mem [OF I] by (auto intro!: client_invI [where M = M'])
qed

text \<open>Reads.\<close>

lemma safe_listMessages: "safe (client_inv good recs F S) (on_store (listMessages V i)) (list_all message_ok)"
proof (rule safe_store)
  fix M assume "model_good S M" "F M" "\<And>i. list_all message_ok (cm_hist M i)"
  moreover have "set (oldest_first h) = set h" for h unfolding oldest_first_def by (metis mset_js_sort set_mset_mset)
  ultimately show "\<exists>x M'. implements (chat_state good recs) (listMessages V i) M (Inr x) M' \<and> model_good S M' \<and> F M' \<and>
      list_all message_ok x"
    by (intro exI [of _ "oldest_first (cm_hist M i)"] exI [of _ M]) (simp add: listMessages_impl list_all_iff)
qed

lemma safe_read:
  assumes "\<And>M. implements (chat_state good recs) m M (Inr (x M)) M" "\<And>M. model_good S M \<Longrightarrow> Q (x M)"
  shows "safe (client_inv good recs F S) (on_store m) Q"
  by (rule safe_store) (use assms in blast)

lemma safe_reads:
  "safe (client_inv good recs F S) (on_store (loadSession V i)) (\<lambda>x. \<forall>s. x = Some s \<longrightarrow> session_ok S s)"
  "safe (client_inv good recs F S) (on_store (loadGroup V i)) (\<lambda>x. \<forall>g. x = Some g \<longrightarrow> group_ok g)"
  "safe (client_inv good recs F S) (on_store (loadIdentity V)) (\<lambda>x. \<forall>s. x = Some s \<longrightarrow> stored_ok S s)"
  "safe (client_inv good recs F S) (on_store (getConversation V i)) (\<lambda>_. True)"
  "safe (client_inv good recs F S) (on_store (listConversations V)) (\<lambda>_. True)"
  "safe (client_inv good recs F S) (on_store (loadAttachment V r)) (\<lambda>_. True)"
  by (rule safe_read [OF loadSession_impl] safe_read [OF loadGroup_impl] safe_read [OF loadIdentity_impl]
      safe_read [OF getConversation_impl] safe_read [OF listConversations_impl] safe_read [OF loadAttachment_impl];
    simp add: model_good_def)+

text \<open>Writes to the parts that \<open>hist_only\<close> properties do not see.\<close>

lemma safe_upsert:
  assumes "hist_only F" "\<And>c. conv_good c \<Longrightarrow> conv_good (patch c)" "\<And>c. conversation_ok c \<Longrightarrow> conversation_ok (patch c)"
  shows "safe (client_inv good recs F S) (on_store (upsertConversation V i patch)) (\<lambda>_. True)"
proof (rule safe_store)
  fix M assume "model_good S M" "F M"
  moreover have "model_good S (on_convs (upsert i patch) M)"
    using calculation(1) assms(2) existing_good by (intro model_good_convs) (auto simp: model_good_def)
  ultimately show "\<exists>x M'. implements (chat_state good recs) (upsertConversation V i patch) M (Inr x) M' \<and> model_good S M' \<and> F M' \<and> True"
    using upsertConversation_impl [of patch i M] assms(3) hist_onlyD(4) [OF assms(1)] by blast
qed

lemma safe_incrementUnread:
  assumes "hist_only F"
  shows "safe (client_inv good recs F S) (on_store (incrementUnread V i)) (\<lambda>_. True)"
proof (rule safe_store)
  fix M assume M: "model_good S M" "F M"
  let ?M = "on_convs (upsert i (\<lambda>c. c\<lparr>c_unreadCount := unread_model i M + 1\<rparr>)) M"
  have "model_good S ?M"
    using M(1) existing_good [of "cm_convs M" i] by (intro model_good_convs) (auto simp: model_good_def conv_good_def conversation_ok_def)
  then show "\<exists>x M'. implements (chat_state good recs) (incrementUnread V i) M (Inr x) M' \<and> model_good S M' \<and> F M' \<and> True"
    using incrementUnread_impl hist_onlyD(4) [OF assms] M by blast
qed

lemma safe_clearUnread:
  assumes "hist_only F"
  shows "safe (client_inv good recs F S) (on_store (clearUnread V i)) (\<lambda>_. True)"
proof (rule safe_store)
  fix M assume M: "model_good S M" "F M"
  have "model_good S (on_convs (upsert i (\<lambda>c. c\<lparr>c_unreadCount := 0\<rparr>)) M)"
    using M(1) existing_good [of "cm_convs M" i] by (intro model_good_convs) (auto simp: model_good_def conv_good_def conversation_ok_def)
  then show "\<exists>x M'. implements (chat_state good recs) (clearUnread V i) M (Inr x) M' \<and> model_good S M' \<and> F M' \<and> True"
    unfolding clearUnread_def using write_unread_impl hist_onlyD(4) [OF assms] M by blast
qed

lemma safe_saveSession:
  assumes "hist_only F" "session_ok S s"
  shows "safe (client_inv good recs F S) (on_store (saveSession V i s)) (\<lambda>_. True)"
  by (rule safe_store)
    (use saveSession_impl [OF session_storable [OF assms(2)]] model_good_save(1) [OF _ assms(2)] hist_onlyD(1) [OF assms(1)] in blast)

lemma safe_saveIdentity:
  assumes "hist_only F" "stored_ok S s"
  shows "safe (client_inv good recs F S) (on_store (saveIdentity V s)) (\<lambda>_. True)"
proof -
  have "stored_identity_ok s" using assms(2) by (simp add: stored_ok_def)
  then show ?thesis
    by (intro safe_store) (use saveIdentity_impl model_good_save(3) [OF _ assms(2)] hist_onlyD(3) [OF assms(1)] in blast)
qed

text \<open>Writes to histories, groups and files.\<close>

lemma safe_append:
  assumes "message_ok m" "\<And>M. F M \<Longrightarrow> F (append_model m M)"
  shows "safe (client_inv good recs F S) (on_store (appendMessage V m)) (\<lambda>_. True)"
  by (rule safe_store) (use appendMessage_impl [OF assms(1)] model_good_append [OF _ assms(1)] assms(2) in blast)

lemma safe_patch:
  assumes "\<And>m. message_ok m \<Longrightarrow> message_ok (f m)" "\<And>m. m_id (f m) = m_id m \<and> m_conversationId (f m) = m_conversationId m"
    and "\<And>M. F M \<Longrightarrow> F (patch_model i mid f M)"
  shows "safe (client_inv good recs F S) (on_store (patchMessage V i mid f)) (\<lambda>_. True)"
  by (rule safe_store) (use patchMessage_impl [of f i mid] model_good_patch [of S _ f i mid] assms in blast)

lemma safe_patches:
  "(\<And>M. F M \<Longrightarrow> F (patch_model i mid (status_patch st e) M)) \<Longrightarrow>
   safe (client_inv good recs F S) (on_store (setMessageStatus V i mid st e)) (\<lambda>_. True)"
  "opt_num_ok t \<Longrightarrow> (\<And>M. F M \<Longrightarrow> F (patch_model i mid (tombstone t) M)) \<Longrightarrow>
   safe (client_inv good recs F S) (on_store (markDeleted V i mid t)) (\<lambda>_. True)"
  "(\<And>M. F M \<Longrightarrow> F (patch_model i mid (react_patch emoji who active) M)) \<Longrightarrow>
   safe (client_inv good recs F S) (on_store (setReaction V i mid emoji who active)) (\<lambda>_. True)"
  unfolding setMessageStatus_def markDeleted_def setReaction_def
  by (rule safe_patch; simp add: patches_keep_ids)+

lemma safe_saveGroup:
  assumes "group_ok g" "\<And>M. F M \<Longrightarrow> F (M\<lparr>cm_groups := (cm_groups M)(g_id g \<mapsto> g)\<rparr>)"
  shows "safe (client_inv good recs F S) (on_store (saveGroup V g)) (\<lambda>_. True)"
  by (rule safe_store) (use saveGroup_impl [OF assms(1)] model_good_save(2) [OF _ assms(1)] assms(2) in blast)

lemma safe_saveAttachment:
  assumes "\<And>M. F M \<Longrightarrow> F (M\<lparr>cm_blobs := (cm_blobs M)(r \<mapsto> x)\<rparr>)"
  shows "safe (client_inv good recs F S) (on_store (saveAttachment V r x)) (\<lambda>_. True)"
  by (rule safe_store) (use saveAttachment_impl model_good_save(4) assms in blast)

lemma safe_drop:
  assumes "\<And>M. F M \<Longrightarrow> F (drop_model i M)"
  shows "safe (client_inv good recs F S) (on_store (store_deleteConversation V i)) (\<lambda>_. True)"
  by (rule safe_store) (use deleteConversation_impl model_good_drop assms in blast)

lemmas safe_store_ops = safe_listMessages safe_reads safe_upsert safe_incrementUnread safe_clearUnread safe_saveSession
  safe_saveIdentity safe_append safe_patches safe_saveGroup safe_saveAttachment safe_drop

lemmas [safe_seq] = safe_store_ops [THEN safe_bind]
lemmas [safe_end] = safe_store_ops [THEN safe_last]

end


subsection \<open>Identity, prekeys and sessions\<close>

lemma wired_hmac: "wired V E \<Longrightarrow> hmac_law (dp_sodium E)"
  by (simp add: wired_def deps_ok_def)

lemma decode_stored_pair: "decode_pair (encodeB64 (publicKey k)) (encodeB64 (privateKey k)) ty = Inr (k\<lparr>keyType := ty\<rparr>)"
  by (simp add: decode_pair_def)

lemma kx_pair_type: "kx_pair S k \<Longrightarrow> kx_pair S (k\<lparr>keyType := ''x25519''\<rparr>)"
  by (simp add: kx_pair_def)

lemma distinct_put_prekeys: "distinct_keys table \<Longrightarrow> distinct_keys (put_prekeys pairs table)"
  unfolding put_prekeys_def by (induction pairs arbitrary: table) (auto simp: distinct_update)

lemma stored_ok_new: "kx_pair S spk \<Longrightarrow> stored_ok S (new_stored account identity spk signature pairs)"
  by (auto simp: stored_ok_def stored_identity_ok_def new_stored_def distinct_put_prekeys decode_stored_pair kx_pair_type)

lemma stored_ok_pool:
  "stored_ok S s \<Longrightarrow> distinct_keys pool \<Longrightarrow> stored_ok S (s\<lparr>si_oneTimePrekeys := pool\<rparr>)"
  by (simp add: stored_ok_def stored_identity_ok_def)

lemma stored_ok_pools:
  "stored_ok S s \<Longrightarrow> stored_ok S (s\<lparr>si_oneTimePrekeys := put_prekeys pairs (si_oneTimePrekeys s)\<rparr>)"
  "stored_ok S s \<Longrightarrow> stored_ok S (s\<lparr>si_oneTimePrekeys := AList.delete i (si_oneTimePrekeys s)\<rparr>)"
  by (auto intro!: stored_ok_pool distinct_put_prekeys distinct_delete simp: stored_ok_def stored_identity_ok_def)

lemma safe_set_stored:
  "stored_ok S s \<Longrightarrow> safe (client_inv good recs F S) (smodify (\<lambda>c. c\<lparr>cl_stored := Some s\<rparr>)) (\<lambda>_. True)"
  by (rule safe_modify) (rule client_inv_stored)

lemma safe_set_identity: "safe (client_inv good recs F S) (smodify (\<lambda>c. c\<lparr>cl_identity := i\<rparr>)) (\<lambda>_. True)"
  by (rule safe_modify) simp

lemmas [safe_seq] = safe_set_stored [THEN safe_bind]
lemmas [safe_end] = safe_set_identity [THEN safe_last]

lemma safe_draw_prekeys: "wired V E \<Longrightarrow> safe (client_inv good recs F (dp_sodium E)) (draw_prekeys E first n) (\<lambda>_. True)"
  by (induction n arbitrary: first) (simp_all add: safe_return [THEN safe_last], rule safe_seq, assumption, simp, rule safe_bind, assumption, rule safe_end, simp)

lemma safe_adopt: "stored_ok S s \<Longrightarrow> safe (client_inv good recs F S) (adopt s) (\<lambda>_. True)"
  unfolding adopt_def by (rule safe_seq safe_end | assumption | simp)+

lemmas [safe_seq] = safe_draw_prekeys [THEN safe_bind] safe_adopt [THEN safe_bind]

context record_vault
begin

lemma wired_vault: "wired V E \<Longrightarrow> dp_vault E = V"
  by (simp add: wired_def)

lemma safe_register: "wired V E \<Longrightarrow> hist_only F \<Longrightarrow> safe (client_inv good recs F (dp_sodium E)) (register E) (\<lambda>_. True)"
  unfolding register_def by (simp only: wired_vault Let_def) (rule safe_seq safe_end | assumption | simp add: stored_ok_new)+

lemma safe_resume: "wired V E \<Longrightarrow> safe (client_inv good recs F (dp_sodium E)) (resume E) (\<lambda>_. True)"
  unfolding resume_def by (simp only: wired_vault) (rule safe_seq safe_end | assumption | simp)+

lemma safe_persistIdentity:
  "wired V E \<Longrightarrow> hist_only F \<Longrightarrow> stored_ok S s \<Longrightarrow> safe (client_inv good recs F S) (persistIdentity E s) (\<lambda>_. True)"
  unfolding persistIdentity_def by (simp only: wired_vault) (rule safe_seq safe_end | assumption | simp)+

lemmas [safe_seq] = safe_persistIdentity [THEN safe_bind]

lemma safe_replenish:
  "wired V E \<Longrightarrow> hist_only F \<Longrightarrow> safe (client_inv good recs F (dp_sodium E)) (replenishPrekeys E) (\<lambda>_. True)"
  unfolding replenishPrekeys_def Let_def by (rule safe_seq safe_end | assumption | simp add: stored_ok_pools)+

lemma safe_signedPrekey:
  "safe (client_inv good recs F S) (signedPrekey (VaultPrekeyStore E) i) (\<lambda>x. \<forall>k. x = Some k \<longrightarrow> kx_pair S k)"
  by (simp add: VaultPrekeyStore_def) (rule safe_seq safe_end | assumption | simp add: stored_ok_def)+

lemma safe_takePrekey:
  "wired V E \<Longrightarrow> hist_only F \<Longrightarrow> safe (client_inv good recs F S) (takeOneTimePrekey (VaultPrekeyStore E) i) (\<lambda>_. True)"
  by (simp add: VaultPrekeyStore_def) (rule safe_seq safe_end | assumption | simp add: stored_ok_pools)+

lemma safe_persistSession:
  "wired V E \<Longrightarrow> hist_only F \<Longrightarrow> safe (client_inv good recs F S) (persistSession E i) (\<lambda>_. True)"
  unfolding persistSession_def by (simp only: wired_vault) (rule safe_seq safe_end | assumption | simp)+

lemmas [safe_seq] = safe_persistSession [THEN safe_bind] safe_signedPrekey [THEN safe_bind] safe_takePrekey [THEN safe_bind]

end



subsection \<open>Peer identities\<close>

text \<open>
  Two methods read a conversation and write what depends on it. Between the two the invariant also
  says what was read; \<open>leads I m J Q\<close> is the triple from one invariant to another.
\<close>

definition leads :: "('s \<Rightarrow> bool) \<Rightarrow> ('s, 'a) effect \<Rightarrow> ('s \<Rightarrow> bool) \<Rightarrow> ('a \<Rightarrow> bool) \<Rightarrow> bool" where
  "leads I m J Q \<longleftrightarrow> (\<forall>c. I c \<longrightarrow> J (fst (m c)) \<and> (\<forall>x. snd (m c) = Inr x \<longrightarrow> Q x))"

lemma leads_safe: "(\<And>c. I c \<Longrightarrow> J c) \<Longrightarrow> safe J m Q \<Longrightarrow> leads I m J Q"
  unfolding leads_def safe_def by blast

lemma leadsI: "(\<And>c c' r. I c \<Longrightarrow> m c = (c', r) \<Longrightarrow> J c' \<and> (\<forall>x. r = Inr x \<longrightarrow> Q x)) \<Longrightarrow> leads I m J Q"
  unfolding leads_def by (metis prod.collapse)

lemma leadsD: "leads I m J Q \<Longrightarrow> I c \<Longrightarrow> m c = (c', r) \<Longrightarrow> J c' \<and> (\<forall>x. r = Inr x \<longrightarrow> Q x)"
  unfolding leads_def by (metis fst_conv snd_conv)

lemma leads_bind:
  assumes "leads I m J P" "\<And>x. safe J (f x) Q"
  shows "leads I (sbind m f) J Q"
  unfolding leads_def
proof (intro allI impI)
  fix c assume "I c"
  moreover obtain d r where m: "m c = (d, r)" by (cases "m c")
  ultimately have "J d" using assms(1) unfolding leads_def by (metis fst_conv)
  then show "J (fst (sbind m f c)) \<and> (\<forall>x. snd (sbind m f c) = Inr x \<longrightarrow> Q x)"
    using m assms(2) by (cases r) (auto simp: sbind_def safe_def)
qed

definition reads_conv :: "(chat_model \<Rightarrow> bool) \<Rightarrow> string \<Rightarrow> Conversation option \<Rightarrow> chat_model \<Rightarrow> bool" where
  "reads_conv F i x M \<longleftrightarrow> F M \<and> find (\<lambda>c. c_id c = i) (cm_convs M) = x"

lemma reads_conv_forget: "client_inv good recs (reads_conv F i x) S c \<Longrightarrow> client_inv good recs F S c"
  by (auto simp: client_inv_def reads_conv_def)

context record_vault
begin

lemma safe_getConversation_then:
  assumes "\<And>x. leads (client_inv good recs (reads_conv F i x) S) (n x) (client_inv good recs F S) Q"
  shows "safe (client_inv good recs F S) (sbind (on_store (getConversation V i)) n) Q"
proof (rule safeI)
  fix c c' r assume I: "client_inv good recs F S c" and eq: "sbind (on_store (getConversation V i)) n c = (c', r)"
  obtain M where M: "chat_state good recs (cl_dev c) M" "model_good S M" "F M" using I by (auto simp: client_inv_def)
  let ?x = "find (\<lambda>c. c_id c = i) (cm_convs M)"
  have x: "find (\<lambda>c. c_id c = i) (newest_first (cm_convs M)) = ?x"
    using M(2) by (intro find_conversation) (simp add: model_good_def model_inv_def)
  obtain d where d: "getConversation V i (cl_dev c) = (d, Inr ?x)" "chat_state good recs d M"
    using getConversation_impl [of i M] M(1) unfolding x by (rule implementsE)
  have "client_inv good recs (reads_conv F i ?x) S (c\<lparr>cl_dev := d\<rparr>)"
    by (rule client_invI [where M = M]) (use client_inv_mem [OF I] d(2) M in \<open>auto simp: reads_conv_def\<close>)
  moreover have "n ?x (c\<lparr>cl_dev := d\<rparr>) = (c', r)" using eq d(1) by (simp add: on_store_def sbind_def)
  ultimately show "client_inv good recs F S c' \<and> (\<forall>x. r = Inr x \<longrightarrow> Q x)" by (rule leadsD [OF assms])
qed

lemma leads_upsert:
  assumes "hist_only F" "\<And>c. conversation_ok c \<Longrightarrow> conversation_ok (patch c)"
    and "\<And>c. conv_good c \<Longrightarrow> (case x of None \<Rightarrow> c = new_conversation i | Some y \<Rightarrow> c = y) \<Longrightarrow> conv_good (patch c)"
  shows "leads (client_inv good recs (reads_conv F i x) S) (on_store (upsertConversation V i patch)) (client_inv good recs F S) (\<lambda>_. True)"
proof (rule leadsI)
  fix c c' r assume I: "client_inv good recs (reads_conv F i x) S c"
    and eq: "on_store (upsertConversation V i patch) c = (c', r)"
  then obtain M where M: "chat_state good recs (cl_dev c) M" "model_good S M" "F M" "find (\<lambda>c. c_id c = i) (cm_convs M) = x"
    by (auto simp: client_inv_def reads_conv_def)
  obtain u e where e: "upsertConversation V i patch (cl_dev c) = (e, Inr u)" "chat_state good recs e (on_convs (upsert i patch) M)"
    using upsertConversation_impl [of patch i M] assms(2) M(1) by (meson implementsE)
  have "conv_good (patch (existing_conversation i (cm_convs M)))"
    by (rule assms(3)) (use M(2,4) existing_good [of "cm_convs M" i] in \<open>auto simp: model_good_def existing_conversation_def split: option.split\<close>)
  then have "model_good S (on_convs (upsert i patch) M)" using M(2) by (intro model_good_convs)
  then have "client_inv good recs F S (c\<lparr>cl_dev := e\<rparr>)"
    by (intro client_invI [where M = "on_convs (upsert i patch) M"])
      (use e(2) client_inv_mem [OF I] M(3) hist_onlyD(4) [OF assms(1)] in auto)
  then show "client_inv good recs F S c' \<and> (\<forall>x. r = Inr x \<longrightarrow> True)" using eq e(1) by (auto simp: on_store_def)
qed

lemma safe_recordPeerIdentity:
  assumes "wired V E" "hist_only F"
  shows "safe (client_inv good recs F S) (recordPeerIdentity E i key) (\<lambda>_. True)"
  unfolding recordPeerIdentity_def Let_def wired_vault [OF assms(1)]
  by (rule safe_getConversation_then)
    (auto split!: option.splits intro!: leads_bind [OF leads_upsert [OF assms(2)]] safe_emit [THEN safe_last] safe_return [THEN safe_last]
      leads_safe [OF reads_conv_forget safe_return [THEN safe_last]] simp: key_changed_patch_def conversation_ok_def conv_good_def new_conversation_def)

lemma safe_setVerified:
  assumes "wired V E" "hist_only F"
  shows "safe (client_inv good recs F S) (setVerified E i verified) (\<lambda>_. True)"
  unfolding setVerified_def wired_vault [OF assms(1)]
  by (rule safe_getConversation_then)
    (auto split!: option.splits intro!: leads_bind [OF leads_upsert [OF assms(2)]] safe_emit [THEN safe_last] safe_return [THEN safe_last]
      leads_safe [OF reads_conv_forget safe_return [THEN safe_last]] simp: conversation_ok_def conv_good_def new_conversation_def)

end


subsection \<open>Sending\<close>

text \<open>Patches of a conversation that leave its keys alone.\<close>

lemma conv_patches:
  "conv_good c \<Longrightarrow> opt_num_ok t \<Longrightarrow> conv_good (c\<lparr>c_displayName := n, c_lastActivity := t\<rparr>)"
  "conv_good c \<Longrightarrow> opt_num_ok t \<Longrightarrow> conv_good (c\<lparr>c_displayName := n, c_isGroup := g, c_lastActivity := t\<rparr>)"
  "conv_good c \<Longrightarrow> conv_good (c\<lparr>c_displayName := n, c_isGroup := g\<rparr>)"
  "conv_good c \<Longrightarrow> conv_good (c\<lparr>c_identityChangedFrom := k\<rparr>)"
  "conversation_ok c \<Longrightarrow> opt_num_ok t \<Longrightarrow> conversation_ok (c\<lparr>c_displayName := n, c_lastActivity := t\<rparr>)"
  "conversation_ok c \<Longrightarrow> opt_num_ok t \<Longrightarrow> conversation_ok (c\<lparr>c_displayName := n, c_isGroup := g, c_lastActivity := t\<rparr>)"
  "conversation_ok c \<Longrightarrow> conversation_ok (c\<lparr>c_displayName := n, c_isGroup := g\<rparr>)"
  "conversation_ok c \<Longrightarrow> conversation_ok (c\<lparr>c_identityChangedFrom := k\<rparr>)"
  by (simp_all add: conv_good_def conversation_ok_def)

lemma opt_num_ok_simps [simp]: "opt_num_ok None" "opt_num_ok (Some t) = num_ok t"
  by (simp_all add: opt_num_ok_def)

lemma message_ok_new [simp]: "message_ok (new_message i c d b t st) = opt_num_ok t"
  by (simp add: message_ok_def new_message_def)

lemma message_ok_fields [simp]:
  "message_ok (m\<lparr>m_attachment := a\<rparr>) = message_ok m" "message_ok (m\<lparr>m_senderId := s\<rparr>) = message_ok m"
  "message_ok (m\<lparr>m_envelopeId := e\<rparr>) = message_ok m" "message_ok (m\<lparr>m_body := b\<rparr>) = message_ok m"
  by (simp_all add: message_ok_def)

lemma found_ok: "list_all message_ok ms \<Longrightarrow> find P ms = Some m \<Longrightarrow> message_ok m"
  by (auto simp: list_all_iff find_Some_iff)

context record_vault
begin

lemmas [safe_seq] = safe_recordPeerIdentity [THEN safe_bind]

lemma safe_sessionFor:
  "wired V E \<Longrightarrow> hist_only F \<Longrightarrow> safe (client_inv good recs F (dp_sodium E)) (sessionFor E i) (session_ok (dp_sodium E))"
  unfolding sessionFor_def
  by (simp only: wired_vault) (rule safe_seq safe_end | assumption | simp | erule (1) startSession_ok [OF wired_hmac])+

lemmas [safe_seq] = safe_sessionFor [THEN safe_bind]

lemma safe_sendContent:
  "wired V E \<Longrightarrow> hist_only F \<Longrightarrow> safe (client_inv good recs F (dp_sodium E)) (sendContent E i content) (\<lambda>_. True)"
  unfolding sendContent_def by (rule safe_seq safe_end | assumption | simp add: encrypt_ok wired_hmac)+

lemmas [safe_seq] = safe_sendContent [THEN safe_bind]
lemmas safe_report = safe_sendContent [THEN safe_reported]
lemmas [safe_seq] = safe_report [THEN safe_bind]
lemmas [safe_end] = safe_report [THEN safe_last]

lemma safe_send_chunks:
  "wired V E \<Longrightarrow> hist_only F \<Longrightarrow> safe (client_inv good recs F (dp_sodium E)) (send_chunks E i ks) (\<lambda>_. True)"
  by (induction ks) (simp_all add: safe_return [THEN safe_last] safe_sendContent [THEN safe_bind])

lemma safe_send_each:
  assumes "wired V E" "hist_only F"
  shows "safe (client_inv good recs F (dp_sodium E)) (send_each E content rs) (\<lambda>_. True)"
proof (induction rs)
  case (Cons r rs)
  have "safe (client_inv good recs F (dp_sodium E)) (scatch (sbind (sendContent E r content) (\<lambda>_. sreturn []))
      (\<lambda>error. sbind (emit (ErrorEvent error)) (\<lambda>_. sreturn [error]))) (\<lambda>_. True)"
    by (rule safe_catch) (rule safe_seq safe_end | simp add: assms)+
  then show ?case unfolding send_each.simps
    by (rule safe_bind) (rule safe_bind [OF Cons.IH], rule safe_end, simp)
qed (simp add: safe_def)

lemma safe_fanOut:
  "wired V E \<Longrightarrow> hist_only F \<Longrightarrow> safe (client_inv good recs F (dp_sodium E)) (fanOut E g content audience) (\<lambda>_. True)"
  unfolding fanOut_def by (rule safe_seq safe_end safe_send_each [THEN safe_bind] | assumption | simp)+

lemma safe_send_or_fail:
  assumes "wired V E" "\<And>M. F M \<Longrightarrow> F (patch_model (m_conversationId m) (m_id m) (status_patch Failed None) M)"
    and "safe (client_inv good recs F S) work (\<lambda>_. True)"
  shows "safe (client_inv good recs F S) (send_or_fail E m work) (\<lambda>_. True)"
  unfolding send_or_fail_def wired_vault [OF assms(1)]
  by (rule safe_finally [OF safe_catch [OF assms(3)] safe_emit]) (rule safe_seq safe_end | simp add: assms(2))+

lemmas [safe_seq] = safe_send_chunks [THEN safe_bind] safe_fanOut [THEN safe_bind]
lemmas [safe_end] = safe_send_or_fail [THEN safe_last]

lemma safe_sendText:
  "wired V E \<Longrightarrow> safe (client_inv good recs (\<lambda>_. True) (dp_sodium E)) (sendText E i body replyTo) (\<lambda>_. True)"
  unfolding sendText_def Let_def by (simp only: wired_vault) (rule safe_seq safe_end | assumption | simp)+

lemma safe_sendAttachment:
  "wired V E \<Longrightarrow> safe (client_inv good recs (\<lambda>_. True) (dp_sodium E)) (sendAttachment E i name mime content caption) (\<lambda>_. True)"
  unfolding sendAttachment_def Let_def by (simp only: wired_vault) (rule safe_seq safe_end | assumption | simp)+

lemma safe_retry:
  assumes "wired V E"
  shows "safe (client_inv good recs (\<lambda>_. True) (dp_sodium E)) (retry E i mid) (\<lambda>_. True)"
  unfolding retry_def wired_vault [OF assms]
  by (rule safe_seq safe_end safe_finally [OF safe_catch safe_emit] | simp add: assms)+

lemma safe_deleteMessage:
  "wired V E \<Longrightarrow> safe (client_inv good recs (\<lambda>_. True) (dp_sodium E)) (deleteMessage E i mid) (\<lambda>_. True)"
  unfolding deleteMessage_def by (simp only: wired_vault) (rule safe_seq safe_end | assumption | simp)+

lemma safe_requireMessage: "wired V E \<Longrightarrow> safe (client_inv good recs F S) (requireMessage E i mid) message_ok"
  unfolding requireMessage_def
  by (simp only: wired_vault) (rule safe_seq safe_end | assumption | simp add: of_option_eq_Inr | erule (1) found_ok)+

lemmas [safe_seq] = safe_requireMessage [THEN safe_bind]

lemma safe_editMessage:
  "wired V E \<Longrightarrow> safe (client_inv good recs (\<lambda>_. True) (dp_sodium E)) (editMessage E i mid body) (\<lambda>_. True)"
  unfolding editMessage_def by (simp only: wired_vault) (rule safe_seq safe_end | assumption | simp)+

lemma safe_react:
  "wired V E \<Longrightarrow> safe (client_inv good recs (\<lambda>_. True) (dp_sodium E)) (react E i mid emoji active) (\<lambda>_. True)"
  unfolding react_def by (simp only: wired_vault) (rule safe_seq safe_end | assumption | simp)+

lemma safe_sendTyping:
  "wired V E \<Longrightarrow> hist_only F \<Longrightarrow> safe (client_inv good recs F (dp_sodium E)) (sendTyping E i) (\<lambda>_. True)"
  unfolding sendTyping_def by (rule safe_report)

lemma safe_markRead:
  "wired V E \<Longrightarrow> hist_only F \<Longrightarrow> safe (client_inv good recs F (dp_sodium E)) (markRead E i) (\<lambda>_. True)"
  unfolding markRead_def Let_def by (simp only: wired_vault) (rule safe_seq safe_end | assumption | simp)+

end


subsection \<open>Groups\<close>

context record_vault
begin

lemma safe_requireGroup: "wired V E \<Longrightarrow> safe (client_inv good recs F S) (requireGroup E g) group_ok"
  unfolding requireGroup_def by (simp only: wired_vault) (rule safe_seq safe_end | assumption | simp)+

lemmas [safe_seq] = safe_requireGroup [THEN safe_bind]

lemma safe_createGroup:
  "wired V E \<Longrightarrow> safe (client_inv good recs (\<lambda>_. True) (dp_sodium E)) (createGroupConversation E name initial) (\<lambda>_. True)"
  unfolding createGroupConversation_def Let_def
  by (simp only: wired_vault) (rule safe_seq safe_end | assumption | simp add: conv_patches | erule (1) createGroup_ok)+

lemma safe_updateGroup:
  "wired V E \<Longrightarrow> safe (client_inv good recs (\<lambda>_. True) (dp_sodium E)) (updateGroup E g change) (\<lambda>_. True)"
  unfolding updateGroup_def Let_def
  by (simp only: wired_vault) (rule safe_seq safe_end | assumption | simp add: conv_patches change_group_ok nextTimestamp_ok)+

lemma safe_sendGroupText:
  "wired V E \<Longrightarrow> safe (client_inv good recs (\<lambda>_. True) (dp_sodium E)) (sendGroupText E g body) (\<lambda>_. True)"
  unfolding sendGroupText_def Let_def by (simp only: wired_vault) (rule safe_seq safe_end | assumption | simp)+

lemma safe_leaveGroup:
  "wired V E \<Longrightarrow> safe (client_inv good recs (\<lambda>_. True) (dp_sodium E)) (leaveGroup E g) (\<lambda>_. True)"
  unfolding leaveGroup_def Let_def
  by (simp only: wired_vault)
    (rule safe_seq safe_end safe_fanOut [THEN safe_reported, THEN safe_bind] | assumption | simp add: change_members_ok nextTimestamp_ok)+

end

subsection \<open>Receiving\<close>

lemma initializeResponder_session:
  assumes "hmac_law S" "kx_pair S fresh" "kx_pair S spk" "initializeResponder sk ad spk = Inr st" "decryptMessage S fresh m st = (st', r)"
  shows "session_ok S \<lparr>sess_state = st', pendingX3DH = None\<rparr>"
  using decryptMessage_inv [OF assms(1) initializeResponder_inv [OF assms(3,4)] assms(2,5)] by (simp add: session_ok_def)

context record_vault
begin

lemma safe_take_prekey:
  "wired V E \<Longrightarrow> hist_only F \<Longrightarrow> safe (client_inv good recs F S) (take_prekey (VaultPrekeyStore E) h) (\<lambda>_. True)"
  unfolding take_prekey_def by (rule safe_seq safe_end | assumption | simp)+

lemma safe_acceptSession:
  assumes "wired V E" "hist_only F" "kx_pair (dp_sodium E) fresh"
  shows "safe (client_inv good recs F (dp_sodium E)) (acceptSession (dp_sodium E) fresh me (VaultPrekeyStore E) raw)
     (\<lambda>(s, p). session_ok (dp_sodium E) s)"
  unfolding acceptSession_def
  by (rule safe_seq safe_end safe_take_prekey [OF assms(1,2), THEN safe_bind] | simp add: assms
      | auto split: prod.splits sum.splits intro: initializeResponder_session [OF wired_hmac [OF assms(1)] assms(3)])+

lemma safe_open_existing:
  assumes "wired V E" "hist_only F" "session_ok (dp_sodium E) s"
  shows "safe (client_inv good recs F (dp_sodium E)) (open_existing E i s live payload) (\<lambda>_. True)"
  unfolding open_existing_def
proof (rule safe_bind [OF safe_draw_kx [OF assms(1) refl]], rule safeI)
  fix fresh c c' r
  assume fresh: "kx_pair (dp_sodium E) fresh" and I: "client_inv good recs F (dp_sodium E) c"
    and eq: "(case decrypt (dp_sodium E) fresh payload s of
         (s', Inl e) \<Rightarrow> (if live then c\<lparr>cl_sessions := (cl_sessions c)(i \<mapsto> s')\<rparr> else c, Inl e)
       | (s', Inr plaintext) \<Rightarrow>
           sbind (set_session i s') (\<lambda>_. sbind (persistSession E i) (\<lambda>_. sreturn plaintext)) c) = (c', r)"
  obtain s' x where d: "decrypt (dp_sodium E) fresh payload s = (s', x)" by (cases "decrypt (dp_sodium E) fresh payload s")
  have s': "session_ok (dp_sodium E) s'" using decrypt_ok [OF wired_hmac [OF assms(1)] fresh assms(3), of payload] d by simp
  show "client_inv good recs F (dp_sodium E) c' \<and> (\<forall>x. r = Inr x \<longrightarrow> True)"
  proof (cases x)
    case (Inl e)
    then show ?thesis using eq d I s' by (auto intro: client_inv_session split: if_splits)
  next
    case (Inr plaintext)
    have "safe (client_inv good recs F (dp_sodium E))
        (sbind (set_session i s') (\<lambda>_. sbind (persistSession E i) (\<lambda>_. sreturn plaintext))) (\<lambda>_. True)"
      by (rule safe_seq safe_end | simp add: assms s')+
    from safeD(1) [OF this I] show ?thesis using eq d Inr by simp
  qed
qed

lemma safe_open_first:
  assumes "wired V E" "hist_only F"
  shows "safe (client_inv good recs F (dp_sodium E)) (open_first E i payload) (\<lambda>_. True)"
proof -
  have peer: "safe (client_inv good recs F (dp_sodium E))
      (case h of None \<Rightarrow> sreturn () | Some h \<Rightarrow> recordPeerIdentity E i (h_identityKey h)) (\<lambda>_. True)" for h
    by (rule safe_seq safe_end safe_recordPeerIdentity | simp add: assms)+
  show ?thesis unfolding open_first_def wired_vault [OF assms(1)]
    by (rule safe_seq safe_end safe_acceptSession [OF assms, THEN safe_bind] peer [THEN safe_bind]
        safe_replenish [OF assms, THEN safe_reported, THEN safe_bind] | rule assms | simp add: assms split: prod.splits | clarify)+
qed

lemma safe_openEnvelope:
  "wired V E \<Longrightarrow> hist_only F \<Longrightarrow> safe (client_inv good recs F (dp_sodium E)) (openEnvelope E i envelope) (\<lambda>_. True)"
  unfolding openEnvelope_def
  by (simp only: wired_vault) (rule safe_seq safe_end safe_open_existing safe_open_first | assumption | simp)+

end


lemma safe_assemblers: "safe (client_inv good recs F S) (smodify (\<lambda>c. c\<lparr>cl_assemblers := f c\<rparr>)) (\<lambda>_. True)"
  by (rule safe_modify) simp

lemmas [safe_seq] = safe_assemblers [THEN safe_bind]

lemma safe_forget: "safe (client_inv good recs F S) (smodify (\<lambda>c. c\<lparr>cl_sessions := (cl_sessions c)(i := None)\<rparr>)) (\<lambda>_. True)"
  by (rule safe_modify) (rule client_inv_forget)

lemmas [safe_seq] = safe_forget [THEN safe_bind]

lemma safe_assembler_for: "safe (client_inv good recs F S) (assembler_for i) (\<lambda>_. True)"
  unfolding assembler_for_def
  by (rule safe_bind [OF safe_get, where Q = "\<lambda>_. True"]) (rule safe_seq safe_end | simp)+

lemma safe_in_assembler: "safe (client_inv good recs F S) (in_assembler i asm m) (\<lambda>_. True)"
  by (rule safeI) (auto simp: in_assembler_def split: prod.splits)

lemmas [safe_seq] = safe_assembler_for [THEN safe_bind] safe_in_assembler [THEN safe_bind]

lemma incoming_ok [simp]: "message_ok (incoming_message i conv body t envelope) = num_ok t"
  by (simp add: incoming_message_def)

lemma file_message_ok [simp]: "message_ok (file_message conv chunk envelope file) = opt_num_ok (at_timestamp chunk)"
  by (simp add: file_message_def)

lemma stamp_or_zero_ok: "opt_num_ok t \<Longrightarrow> num_ok (stamp_or_zero t)"
  by (cases t) (simp_all add: stamp_or_zero_def)

context record_vault
begin

lemma safe_acknowledge:
  "wired V E \<Longrightarrow> hist_only F \<Longrightarrow> safe (client_inv good recs F (dp_sodium E)) (client_acknowledge E i ids kind) (\<lambda>_. True)"
  unfolding client_acknowledge_def by (rule safe_seq safe_end | assumption | simp)+

lemmas [safe_end] = safe_acknowledge [THEN safe_last]

lemma safe_chunk:
  "wired V E \<Longrightarrow> opt_num_ok (at_timestamp chunk) \<Longrightarrow>
   safe (client_inv good recs (\<lambda>_. True) (dp_sodium E)) (applyAttachmentChunk E i chunk envelope) (\<lambda>_. True)"
  unfolding applyAttachmentChunk_def by (simp only: wired_vault) (rule safe_seq safe_end | assumption | simp)+

lemma safe_statuses:
  "wired V E \<Longrightarrow> safe (client_inv good recs (\<lambda>_. True) S) (apply_statuses E i st ids) (\<lambda>_. True)"
  by (induction ids) (simp_all only: apply_statuses.simps wired_vault, (rule safe_seq safe_end | simp)+)

lemma safe_group_create:
  "wired V E \<Longrightarrow> opt_num_ok t \<Longrightarrow>
   safe (client_inv good recs (\<lambda>_. True) S) (apply_group_create E sender gid name initial t) (\<lambda>_. True)"
  unfolding apply_group_create_def
  by (simp only: wired_vault)
    (rule safe_seq safe_end | assumption | simp add: conv_patches | erule createGroup_ok | erule stamp_or_zero_ok)+

lemma safe_group_update:
  "wired V E \<Longrightarrow> num_ok t \<Longrightarrow>
   safe (client_inv good recs (\<lambda>_. True) S) (apply_group_update E sender gid change t) (\<lambda>_. True)"
  unfolding apply_group_update_def Let_def
  by (simp only: wired_vault) (rule safe_seq safe_end | assumption | simp add: conv_patches change_group_ok)+

lemma safe_group_text:
  "wired V E \<Longrightarrow> num_ok t \<Longrightarrow>
   safe (client_inv good recs (\<lambda>_. True) S) (apply_group_text E sender gid i body t envelope) (\<lambda>_. True)"
  unfolding apply_group_text_def by (simp only: wired_vault) (rule safe_seq safe_end | assumption | simp)+

lemma safe_text:
  "wired V E \<Longrightarrow> num_ok t \<Longrightarrow>
   safe (client_inv good recs (\<lambda>_. True) (dp_sodium E)) (apply_text E i mid body t envelope) (\<lambda>_. True)"
  unfolding apply_text_def by (simp only: wired_vault) (rule safe_seq safe_end | assumption | simp)+

lemma safe_edit:
  "wired V E \<Longrightarrow> safe (client_inv good recs (\<lambda>_. True) S) (apply_edit E i mid body) (\<lambda>_. True)"
  unfolding apply_edit_def
  by (simp only: wired_vault) (rule safe_seq safe_end | assumption | simp | erule (1) found_ok)+

lemma safe_applyContent:
  assumes "wired V E" "nums_ok content"
  shows "safe (client_inv good recs (\<lambda>_. True) (dp_sodium E)) (applyContent E i content envelope) (\<lambda>_. True)"
  using assms(2)
  by (cases content)
    (simp_all only: applyContent.simps nums_ok.simps wired_vault [OF assms(1)],
      (rule safe_text safe_statuses [THEN safe_bind] safe_edit safe_chunk safe_group_create safe_group_update safe_group_text
         safe_seq safe_end | rule assms(1) | assumption | simp)+)

lemma safe_handleEnvelope:
  assumes "wired V E"
  shows "safe (client_inv good recs (\<lambda>_. True) (dp_sodium E)) (handleEnvelope E envelope) (\<lambda>_. True)"
  unfolding handleEnvelope_def Let_def
  by (rule safe_catch [OF _ safe_emit])
    (rule safe_seq safe_end safe_openEnvelope [OF assms, THEN safe_bind] safe_applyContent [OF assms] | simp | erule decoded_nums_ok)+

lemma safe_startConversation:
  "wired V E \<Longrightarrow> hist_only F \<Longrightarrow> safe (client_inv good recs F (dp_sodium E)) (startConversation E peer name) (\<lambda>_. True)"
  unfolding startConversation_def
  by (simp only: wired_vault) (rule safe_seq safe_end | assumption | simp add: conv_patches)+

lemma safe_ackChange:
  "wired V E \<Longrightarrow> hist_only F \<Longrightarrow> safe (client_inv good recs F S) (acknowledgeIdentityChange E i) (\<lambda>_. True)"
  unfolding acknowledgeIdentityChange_def
  by (simp only: wired_vault) (rule safe_seq safe_end | assumption | simp add: conv_patches)+

lemma safe_deleteConversation:
  "wired V E \<Longrightarrow> safe (client_inv good recs (\<lambda>_. True) S) (client_deleteConversation E i) (\<lambda>_. True)"
  unfolding client_deleteConversation_def
  by (simp only: wired_vault) (rule safe_seq safe_end | simp)+

lemma safe_client_reads:
  "wired V E \<Longrightarrow> safe (client_inv good recs F S) (conversations E) (\<lambda>_. True)"
  "wired V E \<Longrightarrow> safe (client_inv good recs F S) (messages E i) (\<lambda>_. True)"
  "wired V E \<Longrightarrow> safe (client_inv good recs F S) (attachment E r) (\<lambda>_. True)"
  "wired V E \<Longrightarrow> safe (client_inv good recs F S) (group E i) (\<lambda>_. True)"
  "wired V E \<Longrightarrow> safe (client_inv good recs F S) (safetyNumberFor E i) (\<lambda>_. True)"
  unfolding conversations_def messages_def attachment_def group_def safetyNumberFor_def
  by (simp_all only: wired_vault) (rule safe_seq safe_end | simp)+

end

end
