(* ===== verification/Client_Spec.thy ===== *)
theory Client_Spec
  imports Client_Safe
begin

section \<open>What the chat engine guarantees\<close>

text \<open>
  Runs of the engine and its properties: what holds in every reachable state, what a send, a
  received envelope, a key change and a group change do to the stored data, and that one-time
  prekeys are used once. The network is arbitrary throughout, except where a relay that keeps its
  contract is assumed.
\<close>

datatype client_call =
    CRegister
  | CResume
  | CReplenish
  | CSendText string string "string option"
  | CRetry string string
  | CSendAttachment string string string bytes "string option"
  | CDeleteMessage string string
  | CEditMessage string string string
  | CReact string string string bool
  | CSendTyping string
  | CMarkRead string
  | CSetVerified string bool
  | CAcknowledgeChange string
  | CSafetyNumber string
  | CCreateGroup string "string list"
  | CUpdateGroup string GroupChange
  | CSendGroupText string string
  | CLeaveGroup string
  | CReceive DeliveredEnvelope
  | CStartConversation string "string option"
  | CDeleteConversation string
  | CMessages string
  | CConversations
  | CAttachment string
  | CGroup string
  | CAttach Transport
  | CDisconnect

fun perform :: "('d, 'n) ChatClientOptions \<Rightarrow> client_call \<Rightarrow> ('d, 'n) ChatClient \<Rightarrow> ('d, 'n) ChatClient" where
  "perform E CRegister c = fst (register E c)"
| "perform E CResume c = fst (resume E c)"
| "perform E CReplenish c = fst (replenishPrekeys E c)"
| "perform E (CSendText i body r) c = fst (sendText E i body r c)"
| "perform E (CRetry i m) c = fst (retry E i m c)"
| "perform E (CSendAttachment i name mime content caption) c = fst (sendAttachment E i name mime content caption c)"
| "perform E (CDeleteMessage i m) c = fst (deleteMessage E i m c)"
| "perform E (CEditMessage i m body) c = fst (editMessage E i m body c)"
| "perform E (CReact i m emoji active) c = fst (react E i m emoji active c)"
| "perform E (CSendTyping i) c = fst (sendTyping E i c)"
| "perform E (CMarkRead i) c = fst (markRead E i c)"
| "perform E (CSetVerified i b) c = fst (setVerified E i b c)"
| "perform E (CAcknowledgeChange i) c = fst (acknowledgeIdentityChange E i c)"
| "perform E (CSafetyNumber i) c = fst (safetyNumberFor E i c)"
| "perform E (CCreateGroup name ms) c = fst (createGroupConversation E name ms c)"
| "perform E (CUpdateGroup g ch) c = fst (updateGroup E g ch c)"
| "perform E (CSendGroupText g body) c = fst (sendGroupText E g body c)"
| "perform E (CLeaveGroup g) c = fst (leaveGroup E g c)"
| "perform E (CReceive e) c = fst (handleEnvelope E e c)"
| "perform E (CStartConversation p name) c = fst (startConversation E p name c)"
| "perform E (CDeleteConversation i) c = fst (client_deleteConversation E i c)"
| "perform E (CMessages i) c = fst (messages E i c)"
| "perform E CConversations c = fst (conversations E c)"
| "perform E (CAttachment r) c = fst (attachment E r c)"
| "perform E (CGroup g) c = fst (group E g c)"
| "perform E (CAttach t) c = fst (attachTransport t c)"
| "perform E CDisconnect c = fst (disconnect c)"

text \<open>
  A run starts on a device whose vault holds good data, makes calls in any order, lets the network
  and the login change arbitrarily between them, and may be restarted on the same device. The
  injected key pairs, clock and ids may differ from call to call.
\<close>

inductive client_reach ::
  "sodium \<Rightarrow> 'd VaultOps \<Rightarrow> ('d \<Rightarrow> chat_model \<Rightarrow> bool) \<Rightarrow> ('d, 'n) ChatClient \<Rightarrow> bool" for S V rel where
  start: "rel d M \<Longrightarrow> model_good S M \<Longrightarrow> client_reach S V rel (new_ChatClient d a)"
| call: "client_reach S V rel c \<Longrightarrow> wired V E \<Longrightarrow> dp_sodium E = S \<Longrightarrow> client_reach S V rel (perform E k c)"
| world: "client_reach S V rel c \<Longrightarrow> client_reach S V rel (c\<lparr>cl_api := a\<rparr>)"
| restart: "client_reach S V rel c \<Longrightarrow> client_reach S V rel (new_ChatClient (cl_dev c) a)"

lemma safe_state: "safe I m Q \<Longrightarrow> I c \<Longrightarrow> I (fst (m c))"
  by (simp add: safe_def)

lemma client_inv_disconnect: "client_inv good recs F S c \<Longrightarrow> client_inv good recs F S (fst (disconnect c))"
  by (auto simp: client_inv_def mem_good_def disconnect_def)

lemma client_inv_attach: "client_inv good recs F S c \<Longrightarrow> client_inv good recs F S (fst (attachTransport t c))"
  by (simp add: attachTransport_def)

lemma client_inv_restart:
  "client_inv good recs F S c \<Longrightarrow> client_inv good recs F S (new_ChatClient (cl_dev c) a)"
  by (auto simp: client_inv_def mem_good_def new_ChatClient_def)

context record_vault
begin

lemmas safe_calls = safe_register safe_resume safe_replenish safe_sendText safe_retry safe_sendAttachment safe_deleteMessage
  safe_editMessage safe_react safe_sendTyping safe_markRead safe_setVerified safe_ackChange safe_client_reads safe_createGroup
  safe_updateGroup safe_sendGroupText safe_leaveGroup safe_handleEnvelope safe_startConversation safe_deleteConversation

lemma perform_inv:
  assumes "wired V E" "client_inv good recs (\<lambda>_. True) (dp_sodium E) c"
  shows "client_inv good recs (\<lambda>_. True) (dp_sodium E) (perform E k c)"
  by (cases k; simp only: perform.simps;
    rule safe_calls [THEN safe_state] client_inv_disconnect client_inv_attach; simp add: assms)

lemma client_reach_inv:
  assumes "client_reach S V (chat_state good recs) c"
  shows "client_inv good recs (\<lambda>_. True) S c"
  using assms
proof induction
  case (start d M a)
  then show ?case by (intro client_invI [where M = M]) (simp_all add: mem_good_def new_ChatClient_def)
next
  case (call c E k)
  then show ?case using perform_inv [of E c k] by simp
qed (simp_all add: client_inv_restart)

end

subsection \<open>Sends\<close>

lemma run_simps:
  "sbind (newId E) f c = f (dp_newId E (cl_ids c)) (c\<lparr>cl_ids := Suc (cl_ids c)\<rparr>)"
  "sbind (now E) g c = g (dp_now E (cl_ticks c)) (c\<lparr>cl_ticks := Suc (cl_ticks c)\<rparr>)"
  "sbind (draw_kx E) h c = h (dp_kxPair E (cl_pairs c)) (c\<lparr>cl_pairs := Suc (cl_pairs c)\<rparr>)"
  "sbind (emit e) k c = k () (c\<lparr>cl_events := cl_events c @ [e]\<rparr>)"
  "emit e c = (c\<lparr>cl_events := cl_events c @ [e]\<rparr>, Inr ())"
  by (simp_all add: newId_def now_def draw_kx_def emit_def sbind_def)

lemma sbind_store: "on_store m c = (c', Inr x) \<Longrightarrow> sbind (on_store m) f c = f x c'"
  by (rule sbind_Inr)

definition client_data ::
  "('d \<Rightarrow> bool) \<Rightarrow> ('d \<Rightarrow> string \<Rightarrow> bytes option) \<Rightarrow> sodium \<Rightarrow> ('d, 'n) ChatClient \<Rightarrow> chat_model \<Rightarrow> bool" where
  "client_data good recs S c M \<longleftrightarrow> mem_good S c \<and> chat_state good recs (cl_dev c) M \<and> model_good S M"

text \<open>Histories, groups and files are those of \<open>M0\<close>.\<close>

definition frozen :: "chat_model \<Rightarrow> chat_model \<Rightarrow> bool" where
  "frozen M0 M \<longleftrightarrow> cm_hist M = cm_hist M0 \<and> cm_groups M = cm_groups M0 \<and> cm_blobs M = cm_blobs M0"

lemma frozen_hist_only [simp]: "hist_only (frozen M)"
  by (simp add: hist_only_def frozen_def)

lemma frozen_refl [simp]: "frozen M M"
  by (simp add: frozen_def)

lemma frozen_patch: "frozen M0 M \<Longrightarrow> frozen (patch_model i mid f M0) (patch_model i mid f M)"
  by (simp add: frozen_def patch_model_def on_hist_def)

lemma client_inv_data: "client_inv good recs F S c \<longleftrightarrow> (\<exists>M. client_data good recs S c M \<and> F M)"
  by (auto simp: client_inv_def client_data_def)

lemma client_data_fields [simp]:
  "client_data good recs S (c\<lparr>cl_events := es\<rparr>) M = client_data good recs S c M"
  "client_data good recs S (c\<lparr>cl_ticks := n\<rparr>) M = client_data good recs S c M"
  "client_data good recs S (c\<lparr>cl_ids := n\<rparr>) M = client_data good recs S c M"
  "client_data good recs S (c\<lparr>cl_pairs := n\<rparr>) M = client_data good recs S c M"
  by (simp_all add: client_data_def mem_good_def)

context record_vault
begin

lemma store_data:
  assumes "client_data good recs S c M" "implements (chat_state good recs) m M (Inr x) M'" "model_good S M'"
  obtains d where "on_store m c = (c\<lparr>cl_dev := d\<rparr>, Inr x)" "client_data good recs S (c\<lparr>cl_dev := d\<rparr>) M'"
proof -
  obtain d where "m (cl_dev c) = (d, Inr x)" "chat_state good recs d M'"
    using assms(1,2) unfolding client_data_def by (meson implementsE)
  then show thesis using that [of d] assms(1,3) by (simp add: on_store_def client_data_def)
qed

lemma append_data:
  assumes "client_data good recs S c M" "message_ok m"
  obtains d where "on_store (appendMessage V m) c = (c\<lparr>cl_dev := d\<rparr>, Inr ())"
    "client_data good recs S (c\<lparr>cl_dev := d\<rparr>) (append_model m M)"
  by (rule store_data [OF assms(1) appendMessage_impl [OF assms(2)]])
    (use assms model_good_append in \<open>auto simp: client_data_def\<close>)

lemma status_data:
  assumes "client_data good recs S c M"
  obtains d where "on_store (setMessageStatus V i mid st e) c = (c\<lparr>cl_dev := d\<rparr>, Inr ())"
    "client_data good recs S (c\<lparr>cl_dev := d\<rparr>) (patch_model i mid (status_patch st e) M)"
proof -
  have "implements (chat_state good recs) (setMessageStatus V i mid st e) M (Inr ()) (patch_model i mid (status_patch st e) M)"
    unfolding setMessageStatus_def by (rule patchMessage_impl) simp
  then show thesis
    by (rule store_data [OF assms]) (use assms model_good_patch patches_keep_ids in \<open>auto simp: client_data_def intro: that\<close>)
qed

text \<open>Whatever the network does, the message ends up sent or failed and nothing else is touched.\<close>

lemma send_or_fail_outcome:
  assumes E: "wired V E" and data: "client_data good recs S c M"
    and attempt: "safe (client_inv good recs (frozen M) S) attempt (\<lambda>_. True)"
    and work: "work = sbind attempt (\<lambda>x. sbind (on_store (setMessageStatus V (m_conversationId m) (m_id m) Sent (e x)))
                 (\<lambda>_. sreturn (sent x)))"
  shows "\<exists>c' m' M' st env. send_or_fail E m work c = (c', Inr m') \<and> client_data good recs S c' M' \<and>
     frozen (patch_model (m_conversationId m) (m_id m) (status_patch st env) M) M' \<and>
     (st = Sent \<and> (\<exists>x. m' = sent x \<and> env = e x) \<or> st = Failed \<and> m' = m\<lparr>m_status := Failed\<rparr> \<and> env = None)"
proof -
  obtain c1 r where n: "attempt c = (c1, r)" by (cases "attempt c")
  have "client_inv good recs (frozen M) S c" using data by (auto simp: client_inv_data)
  then have "client_inv good recs (frozen M) S c1" using safeD(1) [OF attempt _ n] by blast
  then obtain M1 where M1: "client_data good recs S c1 M1" "frozen M M1" by (auto simp: client_inv_data)
  show ?thesis
  proof (cases r)
    case (Inl err)
    obtain d where d: "on_store (setMessageStatus V (m_conversationId m) (m_id m) Failed None) c1 = (c1\<lparr>cl_dev := d\<rparr>, Inr ())"
      "client_data good recs S (c1\<lparr>cl_dev := d\<rparr>) (patch_model (m_conversationId m) (m_id m) (status_patch Failed None) M1)"
      using M1(1) by (rule status_data)
    then show ?thesis using n Inl frozen_patch [OF M1(2)] wired_vault [OF E]
      by (auto simp: work send_or_fail_def sbind_def scatch_def sfinally_def emit_def intro!: exI [of _ Failed] exI [of _ None])
  next
    case (Inr x)
    obtain d where d: "on_store (setMessageStatus V (m_conversationId m) (m_id m) Sent (e x)) c1 = (c1\<lparr>cl_dev := d\<rparr>, Inr ())"
      "client_data good recs S (c1\<lparr>cl_dev := d\<rparr>) (patch_model (m_conversationId m) (m_id m) (status_patch Sent (e x)) M1)"
      using M1(1) by (rule status_data)
    then show ?thesis using n Inr frozen_patch [OF M1(2)] wired_vault [OF E]
      by (auto simp: work send_or_fail_def sbind_def scatch_def sfinally_def emit_def intro!: exI [of _ Sent] exI [of _ "e x"])
  qed
qed

end


text \<open>A new message is the last row, and the patch of its status finds it there.\<close>

lemma update_first_last: "\<not> (\<exists>y\<in>set xs. P y) \<Longrightarrow> P x \<Longrightarrow> update_first P f (xs @ [x]) = xs @ [f x]"
  by (induction xs) auto

lemma appended_then_patched:
  assumes "\<forall>x\<in>set (cm_hist M (m_conversationId m)). m_id x \<noteq> m_id m" "m_envelopeId m = None"
  shows "cm_hist (patch_model (m_conversationId m) (m_id m) (status_patch st env) (append_model m M))
     = (cm_hist M)(m_conversationId m := cm_hist M (m_conversationId m) @ [m\<lparr>m_status := st, m_envelopeId := env\<rparr>])"
proof -
  have "\<not> (\<exists>x\<in>set (cm_hist M (m_conversationId m)). m_id x = m_id m)" using assms(1) by blast
  then show ?thesis
    using assms(2) by (simp add: patch_model_def append_model_def on_convs_def on_hist_def append_history_def update_first_last
        status_patch_def or_else_def split: option.split)
qed

lemma append_model_rest [simp]: "cm_groups (append_model m M) = cm_groups M" "cm_blobs (append_model m M) = cm_blobs M"
  by (simp_all add: append_model_def on_convs_def on_hist_def)

lemma patch_model_rest [simp]: "cm_groups (patch_model i mid f M) = cm_groups M" "cm_blobs (patch_model i mid f M) = cm_blobs M"
  by (simp_all add: patch_model_def on_hist_def)

context record_vault
begin

lemma sendText_outcome:
  assumes E: "wired V E" and data: "client_data good recs (dp_sodium E) c M"
    and new: "\<forall>x\<in>set (cm_hist M i). m_id x \<noteq> dp_newId E (cl_ids c)"
  shows "\<exists>c' m M'. sendText E i body replyTo c = (c', Inr m) \<and> client_data good recs (dp_sodium E) c' M' \<and>
     cm_hist M' = (cm_hist M)(i := cm_hist M i @ [m]) \<and> cm_groups M' = cm_groups M \<and> cm_blobs M' = cm_blobs M \<and>
     (\<exists>st env. (st = Sent \<or> st = Failed) \<and>
       m = (new_message (dp_newId E (cl_ids c)) i Outgoing body (Some (dp_now E (cl_ticks c))) st)\<lparr>m_envelopeId := env\<rparr>)"
proof -
  let ?S = "dp_sodium E" and ?id = "dp_newId E (cl_ids c)" and ?t = "dp_now E (cl_ticks c)"
  let ?m = "new_message ?id i Outgoing body (Some ?t) Pending"
  let ?c = "c\<lparr>cl_ids := Suc (cl_ids c), cl_ticks := Suc (cl_ticks c)\<rparr>"
  have conv: "m_conversationId ?m = i" "m_id ?m = ?id" "m_envelopeId ?m = None" by (simp_all add: new_message_def)
  have ok: "message_ok ?m" using E by (simp add: wired_def deps_ok_def)
  have "client_data good recs ?S ?c M" using data by simp
  then obtain d where d: "on_store (appendMessage V ?m) ?c = (?c\<lparr>cl_dev := d\<rparr>, Inr ())"
    "client_data good recs ?S (?c\<lparr>cl_dev := d\<rparr>) (append_model ?m M)" using ok by (rule append_data)
  let ?c1 = "?c\<lparr>cl_dev := d, cl_events := cl_events c @ [ConversationChanged i]\<rparr>"
  let ?send = "sendContent E i (TextContent ?id body ?t replyTo)"
  let ?done = "\<lambda>x. ?m\<lparr>m_status := Sent, m_envelopeId := x\<rparr>"
  let ?work = "sbind ?send (\<lambda>x. sbind (on_store (setMessageStatus V i ?id Sent x)) (\<lambda>_. sreturn (?done x)))"
  have "client_data good recs ?S ?c1 (append_model ?m M)" using d(2) by simp
  from send_or_fail_outcome [OF E this safe_sendContent [OF E frozen_hist_only],
      where work = ?work and m = ?m and e = "\<lambda>x. x" and sent = ?done]
  obtain c' m' M' st env where o: "send_or_fail E ?m ?work ?c1 = (c', Inr m')" "client_data good recs ?S c' M'"
    "frozen (patch_model i ?id (status_patch st env) (append_model ?m M)) M'"
    "st = Sent \<and> (\<exists>x. m' = ?done x \<and> env = x) \<or> st = Failed \<and> m' = ?m\<lparr>m_status := Failed\<rparr> \<and> env = None"
    unfolding conv by blast
  have m': "m' = (new_message ?id i Outgoing body (Some ?t) st)\<lparr>m_envelopeId := env\<rparr>" "st = Sent \<or> st = Failed"
    using o(4) by (auto simp: new_message_def)
  have "cm_hist M' = (cm_hist M)(i := cm_hist M i @ [m'])"
    using o(3) appended_then_patched [of M ?m st env] new unfolding conv by (simp add: frozen_def m'(1)) (simp add: new_message_def)
  moreover have "sendText E i body replyTo c = (c', Inr m')"
    using o(1) by (simp add: sendText_def wired_vault [OF E] run_simps Let_def sbind_store [OF d(1)])
  ultimately show ?thesis using o(2,3) m' by (auto simp: frozen_def)
qed

end

text \<open>
  Claim C2. The engine's data stays consistent in every run: whatever calls the user makes, whatever
  envelopes peers or the relay deliver, whatever the network answers and however often the
  application is restarted, the vault holds readable data in which message ids are unique per
  conversation, rows are filed under their conversation and conversations are listed once; a key
  marked verified is the key the conversation talks to; every session, live or stored, is within the
  bounds of the ratchet; every group has one record per account; and the prekey pool one per id.
\<close>

theorem engine_invariant:
  assumes "client_reach S (vault_ops S A v) (chat_state (vault_good S A invar view v) (vault_recs S view v)) c"
  shows "\<exists>M. chat_state (vault_good S A invar view v) (vault_recs S view v) (cl_dev c) M \<and> model_inv M \<and>
     (\<forall>k\<in>set (cm_convs M). c_verifiedIdentityKey k \<noteq> None \<longrightarrow> c_verifiedIdentityKey k = c_peerIdentityKey k) \<and>
     (\<forall>i s. cl_sessions c i = Some s \<or> cm_sessions M i = Some s \<longrightarrow> ratchet_ok S (sess_state s)) \<and>
     (\<forall>i g. cm_groups M i = Some g \<longrightarrow> distinct_keys (members g)) \<and>
     (\<forall>s. cl_stored c = Some s \<or> cm_identity M = Some s \<longrightarrow> distinct_keys (si_oneTimePrekeys s))"
proof -
  obtain M where "mem_good S c" "chat_state (vault_good S A invar view v) (vault_recs S view v) (cl_dev c) M" "model_good S M"
    using sealed_vault.client_reach_inv [OF assms] by (auto simp: client_inv_def)
  then show ?thesis
    by (intro exI [of _ M])
      (auto simp: model_good_def mem_good_def session_ok_def group_ok_def stored_ok_def stored_identity_ok_def conv_good_def list_all_iff)
qed

text \<open>
  Claim C5. A message the user sends is never lost and never left pending: whatever the network does,
  \<open>sendText\<close> returns, the message is the new last row of the conversation with its text, id and
  time, its status is \<open>sent\<close> or \<open>failed\<close> and is the one returned, and no other row, group or file
  is changed.
\<close>

theorem sendText_never_loses:
  assumes "wired (vault_ops S A v) E" "dp_sodium E = S"
    and "client_data (vault_good S A invar view v) (vault_recs S view v) S c M"
    and "\<forall>x\<in>set (cm_hist M i). m_id x \<noteq> dp_newId E (cl_ids c)"
  shows "\<exists>c' m M'. sendText E i body replyTo c = (c', Inr m) \<and>
     client_data (vault_good S A invar view v) (vault_recs S view v) S c' M' \<and>
     cm_hist M' = (cm_hist M)(i := cm_hist M i @ [m]) \<and> cm_groups M' = cm_groups M \<and> cm_blobs M' = cm_blobs M \<and>
     (m_status m = Sent \<or> m_status m = Failed) \<and> m_id m = dp_newId E (cl_ids c) \<and> m_body m = body \<and>
     m_direction m = Outgoing \<and> m_timestamp m = Some (dp_now E (cl_ticks c))"
  using sealed_vault.sendText_outcome [OF assms(1), of invar view c M i body replyTo] assms(2-4)
  by (fastforce simp: new_message_def)


subsection \<open>Received envelopes\<close>

lemma decrypt_rejected: "decrypt S fresh raw s = (s', Inl e) \<Longrightarrow> s' = s"
  by (auto simp: decrypt_def sbind_def on_state_def dest: decryptMessage_rejected split: prod.splits sum.splits)

lemma handleEnvelope_returns: "\<exists>c'. handleEnvelope E envelope c = (c', Inr ())"
  by (auto simp: handleEnvelope_def Let_def scatch_def run_simps split: prod.split sum.split)

lemma openEnvelope_live:
  assumes "cl_sessions c i = Some s"
  shows "openEnvelope E i envelope c = open_existing E i s True (qe_payload envelope) c"
  by (simp add: openEnvelope_def sbind_def assms)

lemma bad_envelope:
  assumes "cl_sessions c (qe_senderId envelope) = Some s"
    and "snd (decrypt (dp_sodium E) (dp_kxPair E (cl_pairs c)) (qe_payload envelope) s) = Inl e"
  shows "handleEnvelope E envelope c = (c\<lparr>cl_pairs := Suc (cl_pairs c), cl_events := cl_events c @ [ErrorEvent e]\<rparr>, Inr ())"
proof -
  have d: "decrypt (dp_sodium E) (dp_kxPair E (cl_pairs c)) (qe_payload envelope) s = (s, Inl e)"
    using assms(2) decrypt_rejected by (metis prod.collapse)
  have "(cl_sessions c)(qe_senderId envelope \<mapsto> s) = cl_sessions c" using assms(1) by auto
  then show ?thesis using d
    by (simp add: handleEnvelope_def Let_def scatch_def sbind_def [of "openEnvelope _ _ _"] openEnvelope_live [OF assms(1)]
        open_existing_def run_simps)
qed

text \<open>
  Claim C6. One envelope that does not decrypt harms nothing: handling it always returns, and with a
  live session the client is afterwards exactly as before, except that one key pair was drawn and
  the error reported; session, vault and network state are untouched.
\<close>

theorem bad_envelope_contained:
  assumes "cl_sessions c (qe_senderId envelope) = Some s"
    and "snd (decrypt (dp_sodium E) (dp_kxPair E (cl_pairs c)) (qe_payload envelope) s) = Inl e"
  shows "handleEnvelope E envelope c = (c\<lparr>cl_pairs := Suc (cl_pairs c), cl_events := cl_events c @ [ErrorEvent e]\<rparr>, Inr ())"
  using assms by (rule bad_envelope)

subsection \<open>A concrete engine\<close>

definition demo_options :: "(entries device, demo_server) ChatClientOptions" where
  "demo_options =
     \<lparr>dp_sodium = demo_sodium, dp_vault = vault_ops demo_sodium MemoryAdapter demo_vault, dp_api = demo_api,
      dp_signPair = (\<lambda>_. demo_sign_pair 1), dp_kxPair = (\<lambda>k. demo_pair (of_nat k)), dp_now = of_nat,
      dp_newId = (\<lambda>k. ''m'' @ show_nat k)\<rparr>"

definition demo_client :: "(entries device, demo_server) ChatClient" where
  "demo_client = new_ChatClient demo_device (demo_login ''alice'' idle_server)"

lemma demo_wired [simp]: "wired (vault_ops demo_sodium MemoryAdapter demo_vault) demo_options"
  by (simp add: wired_def deps_ok_def demo_options_def demo_hmac_law num_ok_of_nat)

lemma demo_options_simps [simp]:
  "dp_sodium demo_options = demo_sodium" "dp_api demo_options = demo_api" "dp_kxPair demo_options k = demo_pair (of_nat k)"
  "dp_now demo_options k = of_nat k" "dp_newId demo_options k = ''m'' @ show_nat k"
  by (simp_all add: demo_options_def)

lemma empty_model_good: "model_good S empty_model"
  by (simp add: model_good_def empty_model_inv) (simp add: empty_model_def)

lemma demo_client_data:
  "client_data (vault_good demo_sodium MemoryAdapter distinct_keys map_of demo_vault)
     (vault_recs demo_sodium map_of demo_vault) demo_sodium demo_client empty_model"
  by (simp add: client_data_def empty_model_good mem_good_def demo_client_def new_ChatClient_def demo_chat_state)

theorem engine_invariant_witness:
  "\<exists>M. chat_state (vault_good demo_sodium MemoryAdapter distinct_keys map_of demo_vault) (vault_recs demo_sodium map_of demo_vault)
     (cl_dev (perform demo_options (CSendText ''bob'' ''hi'' None) demo_client)) M \<and> model_inv M"
proof -
  have "client_reach demo_sodium (vault_ops demo_sodium MemoryAdapter demo_vault)
      (chat_state (vault_good demo_sodium MemoryAdapter distinct_keys map_of demo_vault) (vault_recs demo_sodium map_of demo_vault))
      (perform demo_options (CSendText ''bob'' ''hi'' None) demo_client)"
    unfolding demo_client_def by (rule client_reach.call, rule client_reach.start, rule demo_chat_state, rule empty_model_good) simp_all
  from engine_invariant [OF this] show ?thesis by blast
qed

theorem sendText_never_loses_witness:
  "\<exists>c' m. sendText demo_options ''bob'' ''hi'' None demo_client = (c', Inr m) \<and> m_body m = ''hi'' \<and>
     (m_status m = Sent \<or> m_status m = Failed)"
  using sendText_never_loses [OF demo_wired _ demo_client_data, of "''bob''" "''hi''" None] by (auto simp: empty_model_def)

definition demo_session :: Session where
  "demo_session = \<lparr>sess_state = demo_receiver, pendingX3DH = None\<rparr>"

theorem bad_envelope_contained_witness:
  "cl_sessions (fst (handleEnvelope demo_options \<lparr>qe_id = ''e'', qe_senderId = ''bob'', qe_payload = [9], qe_createdAt = []\<rparr>
     (demo_client\<lparr>cl_sessions := [''bob'' \<mapsto> demo_session]\<rparr>))) = [''bob'' \<mapsto> demo_session]"
proof -
  have "\<exists>e. decodeMessage [9] = Inl e" using decodeMessage_refuses_short [of "[9]"] by auto
  then have "\<exists>e. snd (decrypt demo_sodium (demo_pair 0) [9] demo_session) = Inl e" by (auto simp: decrypt_def sbind_def)
  then show ?thesis
    using bad_envelope_contained [of "demo_client\<lparr>cl_sessions := [''bob'' \<mapsto> demo_session]\<rparr>"
        "\<lparr>qe_id = ''e'', qe_senderId = ''bob'', qe_payload = [9], qe_createdAt = []\<rparr>" demo_session demo_options]
    by (auto simp: demo_client_def new_ChatClient_def)
qed

end
