(* ===== verification/Client_Keys.thy ===== *)
theory Client_Keys
  imports Client_Spec
begin

section \<open>Prekeys and peer keys of the chat engine\<close>

text \<open>
  The engine's prekey store keeps the contract of \<open>PrekeyStore\<close>, so a one-time prekey is used once;
  a changed peer key is flagged and never verified; replenishment fills the pool, except after an
  upload that failed.
\<close>

subsection \<open>The vault as a prekey store\<close>

definition prekey_pool :: "('d, 'n) ChatClient \<Rightarrow> nat \<Rightarrow> KeyPair option" where
  "prekey_pool c i =
     Option.bind (cl_stored c) (\<lambda>stored. Option.bind (map_of (si_oneTimePrekeys stored) i) (\<lambda>entry.
       case decode_pair (sp_publicKey entry) (sp_privateKey entry) ''x25519'' of Inl e \<Rightarrow> None | Inr k \<Rightarrow> Some k))"

lemma prekey_pool_delete:
  "cl_stored c = Some st \<Longrightarrow> cl_stored c' = Some (st\<lparr>si_oneTimePrekeys := AList.delete i (si_oneTimePrekeys st)\<rparr>) \<Longrightarrow>
   prekey_pool c' = (prekey_pool c)(i := None)"
  by (rule ext) (simp add: prekey_pool_def delete_conv')

lemma persistIdentity_stored: "cl_stored (fst (persistIdentity E st c)) = Some st"
  by (simp add: persistIdentity_def sbind_def on_store_def split: prod.split)

lemma persistIdentity_then:
  "cl_stored (fst (sbind (persistIdentity E st) (\<lambda>_. sbind (slift r) (\<lambda>k. sreturn (g k))) c)) = Some st"
  using persistIdentity_stored [of E st c] by (cases "persistIdentity E st c"; cases "snd (persistIdentity E st c)"; cases r) (auto simp: sbind_def)

lemma take_cases:
  assumes "takeOneTimePrekey (VaultPrekeyStore E) i c = (c', r)"
  shows "prekey_pool c' = (prekey_pool c)(i := None)" "r = Inr k \<Longrightarrow> k = prekey_pool c i"
proof -
  show "prekey_pool c' = (prekey_pool c)(i := None)"
  proof (cases "cl_stored c")
    case None
    then show ?thesis using assms by (auto simp: VaultPrekeyStore_def requireStored_def sbind_def prekey_pool_def)
  next
    case (Some st)
    show ?thesis
    proof (cases "map_of (si_oneTimePrekeys st) i")
      case None
      then have "prekey_pool c i = None" using Some by (simp add: prekey_pool_def)
      moreover have "c' = c" using assms Some None by (simp add: VaultPrekeyStore_def requireStored_def sbind_def)
      ultimately show ?thesis by auto
    next
      case entry: (Some entry)
      let ?st = "st\<lparr>si_oneTimePrekeys := AList.delete i (si_oneTimePrekeys st)\<rparr>"
      have "cl_stored c' = Some ?st"
        using assms Some entry persistIdentity_then [of E ?st "decode_pair (sp_publicKey entry) (sp_privateKey entry) ''x25519''" Some c]
        by (simp add: VaultPrekeyStore_def requireStored_def sbind_def)
      then show ?thesis by (rule prekey_pool_delete [OF Some])
    qed
  qed
  assume "r = Inr k"
  then show "k = prekey_pool c i"
    using assms by (auto simp: VaultPrekeyStore_def requireStored_def sbind_eq_Inr prekey_pool_def of_option_eq_Inr split: option.splits)
qed

lemma signed_keeps_pool:
  "signedPrekey (VaultPrekeyStore E) i c = (c', r) \<Longrightarrow> c' = c"
  by (auto simp: VaultPrekeyStore_def requireStored_def sbind_def split: option.splits sum.splits prod.splits if_splits)

interpretation vault_prekeys: prekey_store "VaultPrekeyStore E" prekey_pool for E :: "('d, 'n) ChatClientOptions"
proof unfold_locales
  show "prekey_pool c' = (prekey_pool c)(i := None)" if "takeOneTimePrekey (VaultPrekeyStore E) i c = (c', r)" for i c c' r
    using take_cases(1) [OF that] .
  show "k = prekey_pool c i" if "takeOneTimePrekey (VaultPrekeyStore E) i c = (c', Inr k)" for i c c' k
    using take_cases(2) [OF that] by simp
  show "prekey_pool c' = prekey_pool c" if "signedPrekey (VaultPrekeyStore E) i c = (c', r)" for i c c' r
    using signed_keeps_pool [OF that] by simp
qed

text \<open>
  Claim C7. A one-time prekey opens one session. Accepting a handshake that names one takes exactly
  that key out of the engine's pool, the key having been there; and the same recorded handshake,
  delivered again with whatever key material drawn, is refused.
\<close>

theorem handshake_not_replayable:
  assumes "acceptSession S fresh me (VaultPrekeyStore E) raw c = (c', Inr x)"
    and "decodeMessage raw = Inr m" "im_x3dh m = Some h" "h_oneTimePrekeyId h = Some i"
  shows "prekey_pool c i \<noteq> None \<and> prekey_pool c' = (prekey_pool c)(i := None) \<and>
     (\<exists>e. snd (acceptSession S' fresh' me' (VaultPrekeyStore E) raw c') = Inl e)"
proof (intro conjI)
  show "prekey_pool c i \<noteq> None" "prekey_pool c' = (prekey_pool c)(i := None)"
    by (rule vault_prekeys.accept_consumes [OF assms(1)], use assms(2-4) in auto)+
  show "\<exists>e. snd (acceptSession S' fresh' me' (VaultPrekeyStore E) raw c') = Inl e"
    by (rule vault_prekeys.accept_once [OF assms])
qed


subsection \<open>Replenishment\<close>

definition drawn_prekeys :: "('d, 'n) ChatClientOptions \<Rightarrow> nat \<Rightarrow> nat \<Rightarrow> nat \<Rightarrow> (nat \<times> KeyPair) list" where
  "drawn_prekeys E first n from_pair = map (\<lambda>k. (first + k, dp_kxPair E (from_pair + k))) [0..<n]"

lemma drawn_prekeys_Suc:
  "drawn_prekeys E first (Suc n) p = (first, dp_kxPair E p) # drawn_prekeys E (Suc first) n (Suc p)"
  unfolding drawn_prekeys_def by (simp add: upt_conv_Cons map_Suc_upt [symmetric] del: upt_Suc)

lemma draw_prekeys_eq:
  "draw_prekeys E first n c = (c\<lparr>cl_pairs := cl_pairs c + n\<rparr>, Inr (drawn_prekeys E first n (cl_pairs c)))"
proof (induction n arbitrary: first c)
  case 0
  then show ?case by (simp add: drawn_prekeys_def)
next
  case (Suc n)
  then show ?case by (simp add: draw_kx_def sbind_def drawn_prekeys_Suc)
qed

lemma drawn_ids: "map fst (drawn_prekeys E first n p) = [first..<first + n]"
  unfolding drawn_prekeys_def by (induction n) simp_all

lemma highest_prekey_bound: "i \<in> fst ` set (si_oneTimePrekeys st) \<Longrightarrow> i \<le> highest_prekey st"
proof -
  have "x \<le> foldl max x ys \<and> (\<forall>y\<in>set ys. y \<le> foldl max x ys)" for x :: nat and ys
    by (induction ys arbitrary: x) (auto simp: le_max_iff_disj, (metis max.bounded_iff)+)
  then show "i \<in> fst ` set (si_oneTimePrekeys st) \<Longrightarrow> i \<le> highest_prekey st" by (simp add: highest_prekey_def)
qed

lemma put_prekeys_append: "put_prekeys (xs @ ys) t = put_prekeys ys (put_prekeys xs t)"
  by (simp add: put_prekeys_def)

lemma update_new: "k \<notin> fst ` set t \<Longrightarrow> AList.update k v t = t @ [(k, v)]"
  by (induction t) auto

lemma put_prekeys_new:
  "distinct (map fst pairs) \<Longrightarrow> fst ` set pairs \<inter> fst ` set t = {} \<Longrightarrow>
   put_prekeys pairs t = t @ map (\<lambda>(i, k). (i, stored_pair k)) pairs"
proof (induction pairs arbitrary: t)
  case (Cons p pairs)
  obtain i k where p: "p = (i, k)" by (cases p)
  then have "put_prekeys (p # pairs) t = put_prekeys pairs (t @ [(i, stored_pair k)])"
    using Cons.prems by (simp add: put_prekeys_def update_new)
  also have "\<dots> = (t @ [(i, stored_pair k)]) @ map (\<lambda>(i, k). (i, stored_pair k)) pairs"
    using Cons.prems p by (intro Cons.IH) auto
  finally show ?case using p by simp
qed (simp add: put_prekeys_def)

text \<open>The pool after a top-up: the old entries, then the new ones under ids not used by them.\<close>

definition topped_up :: "('d, 'n) ChatClientOptions \<Rightarrow> ('d, 'n) ChatClient \<Rightarrow> StoredIdentity \<Rightarrow> StoredIdentity" where
  "topped_up E c st = st\<lparr>si_oneTimePrekeys := si_oneTimePrekeys st @
     map (\<lambda>(i, k). (i, stored_pair k))
       (drawn_prekeys E (highest_prekey st + 1) (PREKEY_TARGET - length (si_oneTimePrekeys st)) (cl_pairs c))\<rparr>"

lemma drawn_fresh:
  "fst ` set (drawn_prekeys E (highest_prekey st + 1) n p) \<inter> fst ` set (si_oneTimePrekeys st) = {}"
proof -
  have "fst ` set (drawn_prekeys E (highest_prekey st + 1) n p) = {highest_prekey st + 1..<highest_prekey st + 1 + n}"
    unfolding set_map [symmetric] drawn_ids by (rule set_upt)
  moreover have "i < highest_prekey st + 1" if "i \<in> fst ` set (si_oneTimePrekeys st)" for i
    using highest_prekey_bound [OF that] by simp
  ultimately show ?thesis unfolding disjoint_iff by (metis atLeastLessThan_iff not_le)
qed

lemma topped_up_put:
  "topped_up E c st = st\<lparr>si_oneTimePrekeys := put_prekeys (drawn_prekeys E (highest_prekey st + 1)
     (PREKEY_TARGET - length (si_oneTimePrekeys st)) (cl_pairs c)) (si_oneTimePrekeys st)\<rparr>"
proof -
  let ?pairs = "drawn_prekeys E (highest_prekey st + 1) (PREKEY_TARGET - length (si_oneTimePrekeys st)) (cl_pairs c)"
  have "distinct (map fst ?pairs)" unfolding drawn_ids by (rule distinct_upt)
  from put_prekeys_new [OF this drawn_fresh] show ?thesis by (simp add: topped_up_def)
qed

lemma replenish_eq:
  assumes "cl_stored c = Some st" "length (si_oneTimePrekeys st) \<le> PREKEY_LOW_WATER"
  shows "replenishPrekeys E c =
     (let n = PREKEY_TARGET - length (si_oneTimePrekeys st);
          pairs = drawn_prekeys E (highest_prekey st + 1) n (cl_pairs c)
      in sbind (on_api (uploadPrekeys (dp_api E) (publish_of pairs))) (\<lambda>_.
         sbind (persistIdentity E (topped_up E c st)) (\<lambda>_. sreturn n))
         (c\<lparr>cl_pairs := cl_pairs c + n, cl_stored := Some (topped_up E c st)\<rparr>))"
proof -
  have "length (drawn_prekeys E f n p) = n" for f n p by (simp add: drawn_prekeys_def)
  then show ?thesis
    using assms by (simp add: replenishPrekeys_def requireStored_def sbind_def draw_prekeys_eq Let_def topped_up_put)
qed

lemma topped_up_length: "length (si_oneTimePrekeys st) \<le> PREKEY_LOW_WATER \<Longrightarrow> length (si_oneTimePrekeys (topped_up E c st)) = PREKEY_TARGET"
  by (simp add: topped_up_def drawn_prekeys_def PREKEY_LOW_WATER_def PREKEY_TARGET_def)


lemma map_of_topped_up:
  assumes "stored_identity_ok st"
  shows "distinct_keys (si_oneTimePrekeys (topped_up E c st))"
    "map_of (si_oneTimePrekeys st) i = Some x \<Longrightarrow> map_of (si_oneTimePrekeys (topped_up E c st)) i = Some x"
    "(i, key) \<in> set (drawn_prekeys E (highest_prekey st + 1) (PREKEY_TARGET - length (si_oneTimePrekeys st)) (cl_pairs c)) \<Longrightarrow>
     map_of (si_oneTimePrekeys (topped_up E c st)) i = Some (stored_pair key)"
proof -
  let ?pairs = "drawn_prekeys E (highest_prekey st + 1) (PREKEY_TARGET - length (si_oneTimePrekeys st)) (cl_pairs c)"
  show d: "distinct_keys (si_oneTimePrekeys (topped_up E c st))"
    using assms unfolding topped_up_put stored_identity_ok_def by (simp add: distinct_put_prekeys)
  have set: "set (si_oneTimePrekeys (topped_up E c st)) = set (si_oneTimePrekeys st) \<union> (\<lambda>(i, k). (i, stored_pair k)) ` set ?pairs"
    by (simp add: topped_up_def)
  show "map_of (si_oneTimePrekeys (topped_up E c st)) i = Some x" if "map_of (si_oneTimePrekeys st) i = Some x"
    by (rule map_of_is_SomeI [OF d]) (use map_of_SomeD [OF that] set in auto)
  show "map_of (si_oneTimePrekeys (topped_up E c st)) i = Some (stored_pair key)" if "(i, key) \<in> set ?pairs"
    by (rule map_of_is_SomeI [OF d]) (use that set in force)
qed

text \<open>
  A top-up that succeeds leaves a full pool: exactly the missing keys are drawn and
  uploaded under ids no present key has, the engine holds the private half of every key it
  published and still holds the keys it had, fifty in all, and the vault holds the same.
\<close>

theorem replenish_fills_pool:
  assumes "wired (vault_ops S A v) E" "dp_sodium E = S"
    and "client_data (vault_good S A invar view v) (vault_recs S view v) S c M"
    and "cl_stored c = Some st" "length (si_oneTimePrekeys st) \<le> PREKEY_LOW_WATER"
    and "pairs = drawn_prekeys E (highest_prekey st + 1) (PREKEY_TARGET - length (si_oneTimePrekeys st)) (cl_pairs c)"
    and "uploadPrekeys (dp_api E) (publish_of pairs) (cl_api c) = (a', Inr k)"
  shows "\<exists>c' M'. replenishPrekeys E c = (c', Inr (length pairs)) \<and>
     client_data (vault_good S A invar view v) (vault_recs S view v) S c' M' \<and>
     cl_stored c' = cm_identity M' \<and> cl_stored c' = Some (topped_up E c st) \<and>
     length (si_oneTimePrekeys (topped_up E c st)) = PREKEY_TARGET \<and> distinct_keys (si_oneTimePrekeys (topped_up E c st)) \<and>
     (\<forall>i x. map_of (si_oneTimePrekeys st) i = Some x \<longrightarrow> map_of (si_oneTimePrekeys (topped_up E c st)) i = Some x) \<and>
     (\<forall>(i, key)\<in>set pairs. prekey_pool c' i = Some (key\<lparr>keyType := ''x25519''\<rparr>))"
proof -
  let ?st = "topped_up E c st" and ?V = "vault_ops S A v"
  let ?good = "vault_good S A invar view v" and ?recs = "vault_recs S view v"
  let ?c = "c\<lparr>cl_pairs := cl_pairs c + (PREKEY_TARGET - length (si_oneTimePrekeys st)), cl_api := a', cl_stored := Some ?st\<rparr>"
  have "stored_ok S st" using assms(3,4) by (simp add: client_data_def mem_good_def)
  then have ok: "stored_ok S ?st" unfolding topped_up_put by (rule stored_ok_pools(1))
  have old: "stored_identity_ok st" using \<open>stored_ok S st\<close> by (simp add: stored_ok_def)
  have "client_data ?good ?recs S ?c M" using assms(3) ok by (simp add: client_data_def mem_good_def)
  from sealed_vault.store_data [OF this sealed_vault.saveIdentity_impl model_good_save(3) [OF _ ok]]
  obtain d where d: "on_store (saveIdentity ?V ?st) ?c = (?c\<lparr>cl_dev := d\<rparr>, Inr ())"
    "client_data ?good ?recs S (?c\<lparr>cl_dev := d\<rparr>) (M\<lparr>cm_identity := Some ?st\<rparr>)"
    using ok assms(3) by (auto simp: client_data_def stored_ok_def)
  have len: "length pairs = PREKEY_TARGET - length (si_oneTimePrekeys st)" by (simp add: assms(6) drawn_prekeys_def)
  have E: "dp_vault E = ?V" using assms(1) by (simp add: wired_def)
  have "replenishPrekeys E c = (?c\<lparr>cl_dev := d\<rparr>, Inr (length pairs))"
    using assms(7) d(1) len
    by (simp add: replenish_eq [OF assms(4,5)] Let_def sbind_def on_api_def persistIdentity_def E assms(6))
  moreover have "prekey_pool (?c\<lparr>cl_dev := d\<rparr>) i = Some (key\<lparr>keyType := ''x25519''\<rparr>)" if "(i, key) \<in> set pairs" for i key
    using map_of_topped_up(3) [OF old that [unfolded assms(6)]] by (simp add: prekey_pool_def stored_pair_def decode_stored_pair)
  ultimately show ?thesis using d(2) topped_up_length [OF assms(5)] map_of_topped_up(1,2) [OF old]
    by (intro exI [of _ "?c\<lparr>cl_dev := d\<rparr>"] exI [of _ "M\<lparr>cm_identity := Some ?st\<rparr>"] conjI) auto
qed


subsection \<open>A peer's key changes\<close>

context record_vault
begin

lemma recordPeer_changed:
  assumes E: "wired V E" and data: "client_data good recs S c M"
    and k: "find (\<lambda>x. c_id x = i) (cm_convs M) = Some k" "c_peerIdentityKey k = Some old" "old \<noteq> encodeB64 key"
  shows "\<exists>c' M'. recordPeerIdentity E i key c = (c', Inr ()) \<and> client_data good recs S c' M' \<and>
     find (\<lambda>x. c_id x = i) (cm_convs M') =
       Some (k\<lparr>c_peerIdentityKey := Some (encodeB64 key), c_identityChangedFrom := Some old, c_verifiedIdentityKey := None\<rparr>) \<and>
     frozen M M' \<and> cm_sessions M' = cm_sessions M \<and> cl_events c' = cl_events c @ [ConversationsChanged]"
proof -
  let ?patch = "key_changed_patch (encodeB64 key) old (c_verifiedIdentityKey k)"
  have good: "model_good S M" using data by (simp add: client_data_def)
  have kid: "c_id k = i" "conv_good k"
    using k(1) good by (auto simp: find_Some_iff model_good_def list_all_iff)
  then have v: "c_verifiedIdentityKey k \<noteq> Some (encodeB64 key)" using k(2,3) by (auto simp: conv_good_def)
  have eq: "patched i ?patch k = k\<lparr>c_peerIdentityKey := Some (encodeB64 key), c_identityChangedFrom := Some old, c_verifiedIdentityKey := None\<rparr>"
    using v kid(1) by (simp add: patched_def key_changed_patch_def)
  have x: "find (\<lambda>c. c_id c = i) (newest_first (cm_convs M)) = Some k"
    using good k(1) by (simp add: find_conversation model_good_def model_inv_def)
  obtain d where d: "on_store (getConversation V i) c = (c\<lparr>cl_dev := d\<rparr>, Inr (Some k))" "client_data good recs S (c\<lparr>cl_dev := d\<rparr>) M"
    using store_data [OF data getConversation_impl [of i M] good] unfolding x by blast
  have ex: "existing_conversation i (cm_convs M) = k" using k(1) by (simp add: existing_conversation_def)
  have good': "model_good S (on_convs (upsert i ?patch) M)"
    using good kid(2) v by (intro model_good_convs) (auto simp: ex key_changed_patch_def conv_good_def conversation_ok_def)
  have "implements (chat_state good recs) (upsertConversation V i ?patch) M
      (Inr (patched i ?patch (existing_conversation i (cm_convs M)))) (on_convs (upsert i ?patch) M)"
    by (rule upsertConversation_impl) (simp add: key_changed_patch_def conversation_ok_def)
  from store_data [OF d(2) this good']
  obtain e where e: "on_store (upsertConversation V i ?patch) (c\<lparr>cl_dev := d\<rparr>) = (c\<lparr>cl_dev := e\<rparr>, Inr (patched i ?patch k))"
    "client_data good recs S (c\<lparr>cl_dev := e\<rparr>) (on_convs (upsert i ?patch) M)" unfolding ex by auto
  have "recordPeerIdentity E i key c = (c\<lparr>cl_dev := e, cl_events := cl_events c @ [ConversationsChanged]\<rparr>, Inr ())"
    using k(2,3) by (simp add: recordPeerIdentity_def Let_def wired_vault [OF E] sbind_store [OF d(1)] sbind_store [OF e(1)] run_simps)
  moreover have "find (\<lambda>x. c_id x = i) (cm_convs (on_convs (upsert i ?patch) M)) = Some (patched i ?patch k)"
    by (simp add: on_convs_def find_upsert ex)
  ultimately show ?thesis using e(2) unfolding eq
    by (intro exI [of _ "c\<lparr>cl_dev := e, cl_events := cl_events c @ [ConversationsChanged]\<rparr>"] exI [of _ "on_convs (upsert i ?patch) M"])
      (simp add: frozen_def on_convs_def)
qed

end



subsection \<open>Concrete cases\<close>

definition demo_stored :: StoredIdentity where
  "demo_stored = new_stored ''alice'' (demo_identity 2) (demo_pair 4) [] [(7, demo_pair 8)]"

lemma demo_stored_simps [simp]:
  "si_oneTimePrekeys demo_stored = [(7, stored_pair (demo_pair 8))]" "highest_prekey demo_stored = 7" "si_signedPrekeyId demo_stored = 1"
  by (simp_all add: demo_stored_def new_stored_def put_prekeys_def highest_prekey_def)

lemma demo_stored_ok: "stored_ok demo_sodium demo_stored"
  unfolding demo_stored_def by (rule stored_ok_new) simp


definition demo_generous :: "(entries device, demo_server) ChatClientOptions" where
  "demo_generous = demo_options\<lparr>dp_api := new_ApiClient ''/'' (\<lambda>rq n. (n, Inr \<lparr>resp_status = 200, resp_body = Some ''{}''\<rparr>))\<rparr>"

theorem replenish_fills_pool_witness:
  "\<exists>c'. replenishPrekeys demo_generous (demo_client\<lparr>cl_stored := Some demo_stored\<rparr>) = (c', Inr 49) \<and>
     prekey_pool c' 8 = Some (demo_pair 0)"
proof -
  let ?c = "demo_client\<lparr>cl_stored := Some demo_stored\<rparr>"
  have data: "client_data (vault_good demo_sodium MemoryAdapter distinct_keys map_of demo_vault)
     (vault_recs demo_sodium map_of demo_vault) demo_sodium ?c empty_model"
    using demo_client_data demo_stored_ok by (simp add: client_data_def mem_good_def)
  have E: "wired (vault_ops demo_sodium MemoryAdapter demo_vault) demo_generous" "dp_sodium demo_generous = demo_sodium"
    using demo_wired by (simp_all add: wired_def deps_ok_def demo_generous_def)
  have "json_parse ''{}'' = Some (JObj [])" by code_simp
  then have "\<exists>a k. uploadPrekeys (dp_api demo_generous) keys (cl_api ?c) = (a, Inr k)" for keys
    by (simp add: demo_generous_def uploadPrekeys_def request_def new_ApiClient_def demo_client_def new_ChatClient_def
        demo_login_def authorized_def response_json_def read_response_def response_ok_def sbind_def field_of_def)
  then obtain a k where u: "uploadPrekeys (dp_api demo_generous) (publish_of (drawn_prekeys demo_generous 8 49 0)) (cl_api ?c) = (a, Inr k)"
    by blast
  have "(8, demo_pair 0) \<in> set (drawn_prekeys demo_generous 8 49 0)"
    by (simp add: drawn_prekeys_def demo_generous_def image_iff)
  moreover have "length (drawn_prekeys demo_generous 8 49 0) = 49" by (simp add: drawn_prekeys_def)
  moreover have "(demo_pair 0)\<lparr>keyType := ''x25519''\<rparr> = demo_pair 0" by (simp add: demo_pair_def)
  moreover have "\<exists>c' M'. replenishPrekeys demo_generous ?c = (c', Inr (length (drawn_prekeys demo_generous 8 49 0))) \<and>
      (\<forall>(i, key)\<in>set (drawn_prekeys demo_generous 8 49 0). prekey_pool c' i = Some (key\<lparr>keyType := ''x25519''\<rparr>))"
    using replenish_fills_pool [OF E data _ _ _ u, of demo_stored]
    by (simp add: PREKEY_LOW_WATER_def PREKEY_TARGET_def demo_client_def new_ChatClient_def) blast
  ultimately show ?thesis by force
qed


end
