(* ===== verification/Client_Delivery.thy ===== *)
theory Client_Delivery
  imports Client_Spec Dialogue
begin

section \<open>From one chat engine to another\<close>

text \<open>
  Two engines on two devices, a relay that keeps its contract between them, and two live sessions
  that are the ends of one dialogue: what one user types is the next row in the other's history.
\<close>

subsection \<open>Live sessions\<close>

lemma sessionFor_live: "cl_sessions c i = Some s \<Longrightarrow> sessionFor E i c = (c, Inr s)"
  by (simp add: sessionFor_def sbind_def)

lemma in_session_apply:
  "m s = (s', r) \<Longrightarrow> in_session i s m c = (c\<lparr>cl_sessions := (cl_sessions c)(i \<mapsto> s')\<rparr>, r)"
  by (simp add: in_session_def)

lemma client_data_session:
  "client_data good recs S c M \<Longrightarrow> session_ok S s \<Longrightarrow> client_data good recs S (c\<lparr>cl_sessions := (cl_sessions c)(i \<mapsto> s)\<rparr>) M"
  by (auto simp: client_data_def mem_good_def)

lemma client_data_api [simp]: "client_data good recs S (c\<lparr>cl_api := a\<rparr>) M = client_data good recs S c M"
  by (simp add: client_data_def mem_good_def)

lemma client_data_live: "client_data good recs S c M \<Longrightarrow> cl_sessions c i = Some s \<Longrightarrow> session_ok S s"
  by (auto simp: client_data_def mem_good_def)

lemma client_data_good: "client_data good recs S c M \<Longrightarrow> model_good S M"
  by (simp add: client_data_def)

context record_vault
begin

lemma persistSession_data:
  assumes "wired V E" "client_data good recs S c M" "cl_sessions c i = Some s"
  obtains d where "persistSession E i c = (c\<lparr>cl_dev := d\<rparr>, Inr ())"
    "client_data good recs S (c\<lparr>cl_dev := d\<rparr>) (M\<lparr>cm_sessions := (cm_sessions M)(i \<mapsto> s)\<rparr>)"
proof -
  have ok: "session_ok S s" using assms(2,3) by (rule client_data_live)
  obtain d where d: "on_store (saveSession V i s) c = (c\<lparr>cl_dev := d\<rparr>, Inr ())"
    "client_data good recs S (c\<lparr>cl_dev := d\<rparr>) (M\<lparr>cm_sessions := (cm_sessions M)(i \<mapsto> s)\<rparr>)"
    by (rule store_data [OF assms(2) saveSession_impl [OF session_storable [OF ok]]
        model_good_save(1) [OF client_data_good [OF assms(2)] ok]])
  then show thesis using that assms(3) by (simp add: persistSession_def sbind_def wired_vault [OF assms(1)])
qed

lemma sendContent_sent:
  assumes E: "wired V E" and data: "client_data good recs (dp_sodium E) c M" and live: "cl_sessions c i = Some s"
    and enc: "encodeContent content = Inr plain" "encrypt (dp_sodium E) plain s = (s', Inr w)"
    and net: "sendEnvelope (dp_api E) i w (cl_api c) = (a', Inr envelope)"
  obtains d where "sendContent E i content c = (c\<lparr>cl_sessions := (cl_sessions c)(i \<mapsto> s'), cl_api := a', cl_dev := d\<rparr>, Inr envelope)"
    "client_data good recs (dp_sodium E) (c\<lparr>cl_sessions := (cl_sessions c)(i \<mapsto> s'), cl_api := a', cl_dev := d\<rparr>)
       (M\<lparr>cm_sessions := (cm_sessions M)(i \<mapsto> s')\<rparr>)"
proof -
  let ?c = "c\<lparr>cl_sessions := (cl_sessions c)(i \<mapsto> s'), cl_api := a'\<rparr>"
  have "session_ok (dp_sodium E) s'"
    using encrypt_ok [OF wired_hmac [OF E] client_data_live [OF data live], of plain] enc(2) by simp
  then have "client_data good recs (dp_sodium E) ?c M" using client_data_session [OF data] by simp
  then obtain d where d: "persistSession E i ?c = (?c\<lparr>cl_dev := d\<rparr>, Inr ())"
    "client_data good recs (dp_sodium E) (?c\<lparr>cl_dev := d\<rparr>) (M\<lparr>cm_sessions := (cm_sessions M)(i \<mapsto> s')\<rparr>)"
    using E by (rule_tac persistSession_data [of E "dp_sodium E" ?c M i s']) auto
  have "sendContent E i content c = (?c\<lparr>cl_dev := d\<rparr>, Inr envelope)"
    using d(1) net enc by (simp add: sendContent_def sessionFor_live [OF live] sbind_def in_session_def on_api_def)
  then show thesis using that d(2) by blast
qed

text \<open>Whatever becomes of it, content sent over a live session changes no stored data but the session.\<close>

lemma sendContent_live:
  assumes E: "wired V E" and data: "client_data good recs (dp_sodium E) c M" and live: "cl_sessions c i = Some s"
  shows "\<exists>c' r x. sendContent E i content c = (c', r) \<and> client_data good recs (dp_sodium E) c' (M\<lparr>cm_sessions := x\<rparr>) \<and>
     cl_events c' = cl_events c"
proof (cases "encodeContent content")
  case (Inl e)
  then show ?thesis using data
    by (intro exI [of _ c] exI [of _ "Inl e"] exI [of _ "cm_sessions M"]) (simp add: sendContent_def sessionFor_live [OF live] sbind_def)
next
  case (Inr plain)
  obtain s' r where s': "encrypt (dp_sodium E) plain s = (s', r)" by (cases "encrypt (dp_sodium E) plain s")
  have "session_ok (dp_sodium E) s'"
    using encrypt_ok [OF wired_hmac [OF E] client_data_live [OF data live], of plain] s' by simp
  note c1 = client_data_session [OF data this, of i]
  show ?thesis
  proof (cases r)
    case (Inl e)
    then show ?thesis using c1 s' Inr
      by (intro exI [of _ "c\<lparr>cl_sessions := (cl_sessions c)(i \<mapsto> s')\<rparr>"] exI [of _ "Inl e"] exI [of _ "cm_sessions M"])
        (simp add: sendContent_def sessionFor_live [OF live] sbind_def in_session_def)
  next
    case w: (Inr w)
    obtain a' r' where a: "sendEnvelope (dp_api E) i w (cl_api c) = (a', r')" by (cases "sendEnvelope (dp_api E) i w (cl_api c)")
    show ?thesis
    proof (cases r')
      case (Inl e)
      then show ?thesis using c1 s' Inr w a
        by (intro exI [of _ "c\<lparr>cl_sessions := (cl_sessions c)(i \<mapsto> s'), cl_api := a'\<rparr>"] exI [of _ "Inl e"] exI [of _ "cm_sessions M"])
          (simp add: sendContent_def sessionFor_live [OF live] sbind_def in_session_def on_api_def)
    next
      case sent: (Inr envelope)
      from s' w a have "encrypt (dp_sodium E) plain s = (s', Inr w)" "sendEnvelope (dp_api E) i w (cl_api c) = (a', Inr envelope)"
        using sent by simp_all
      from sendContent_sent [OF E data live Inr this]
      obtain d where "sendContent E i content c = (c\<lparr>cl_sessions := (cl_sessions c)(i \<mapsto> s'), cl_api := a', cl_dev := d\<rparr>, Inr envelope)"
        "client_data good recs (dp_sodium E) (c\<lparr>cl_sessions := (cl_sessions c)(i \<mapsto> s'), cl_api := a', cl_dev := d\<rparr>)
           (M\<lparr>cm_sessions := (cm_sessions M)(i \<mapsto> s')\<rparr>)" .
      then show ?thesis by (intro exI conjI) (assumption, assumption, simp)
    qed
  qed
qed

end


subsection \<open>A received text\<close>

lemma unread_append: "unread_model j (append_model m M) = unread_model j M" if "model_inv M"
proof -
  let ?p = "\<lambda>c. c\<lparr>c_lastActivity := m_timestamp m\<rparr>" and ?i = "m_conversationId m"
  let ?n = "\<lambda>cs. case find (\<lambda>c. c_id c = j) cs of None \<Rightarrow> 0 | Some c \<Rightarrow> c_unreadCount c"
  have d: "distinct (map c_id (cm_convs M))" using that by (simp add: model_inv_def)
  then have d': "distinct (map c_id (upsert ?i ?p (cm_convs M)))" by (auto simp: upsert_ids)
  have "?n (update_first (\<lambda>c. c_id c = ?i) (patched ?i ?p) cs) = ?n cs" for cs
    by (induction cs) (auto simp: patched_def)
  moreover have "?n (cs @ [patched ?i ?p (new_conversation ?i)]) = ?n cs" for cs
    by (induction cs) (auto simp: patched_def new_conversation_def)
  ultimately have "?n (upsert ?i ?p (cm_convs M)) = ?n (cm_convs M)" by (simp add: upsert_def)
  then show ?thesis
    using find_conversation [OF d, of j] find_conversation [OF d', of j]
    by (simp add: unread_model_def append_model_def on_convs_def on_hist_def)
qed

context record_vault
begin

lemma unread_data:
  assumes "client_data good recs S c M"
  obtains d where "on_store (incrementUnread V i) c = (c\<lparr>cl_dev := d\<rparr>, Inr ())"
    "client_data good recs S (c\<lparr>cl_dev := d\<rparr>) (on_convs (upsert i (\<lambda>c. c\<lparr>c_unreadCount := unread_model i M + 1\<rparr>)) M)"
proof -
  have "model_good S (on_convs (upsert i (\<lambda>c. c\<lparr>c_unreadCount := unread_model i M + 1\<rparr>)) M)"
    using client_data_good [OF assms] existing_good [of "cm_convs M" i]
    by (intro model_good_convs) (auto simp: model_good_def conv_good_def conversation_ok_def)
  from store_data [OF assms incrementUnread_impl this] that show thesis by blast
qed

lemma text_applied:
  assumes E: "wired V E" and data: "client_data good recs (dp_sodium E) c M" and live: "cl_sessions c i = Some s"
    and new: "\<forall>m\<in>set (cm_hist M i). m_id m \<noteq> mid" and stamp: "num_ok t"
  shows "\<exists>c' M'. apply_text E i mid body t envelope c = (c', Inr ()) \<and> client_data good recs (dp_sodium E) c' M' \<and>
     cm_hist M' = (cm_hist M)(i := cm_hist M i @ [incoming_message mid i body t envelope]) \<and>
     unread_model i M' = unread_model i M + 1 \<and> cm_groups M' = cm_groups M \<and> cm_blobs M' = cm_blobs M \<and>
     IncomingEvent i i body \<in> set (cl_events c')"
proof -
  let ?S = "dp_sodium E" and ?m = "incoming_message mid i body t envelope"
  have m: "m_conversationId ?m = i" "m_id ?m = mid" by (simp_all add: incoming_message_def new_message_def)
  have "message_ok ?m" using stamp by simp
  with data obtain d1 where d1: "on_store (appendMessage V ?m) c = (c\<lparr>cl_dev := d1\<rparr>, Inr ())"
    "client_data good recs ?S (c\<lparr>cl_dev := d1\<rparr>) (append_model ?m M)" by (rule append_data)
  let ?M1 = "append_model ?m M" and ?c1 = "c\<lparr>cl_dev := d1\<rparr>"
  let ?M2 = "on_convs (upsert i (\<lambda>c. c\<lparr>c_unreadCount := unread_model i ?M1 + 1\<rparr>)) ?M1"
  obtain d2 where d2: "on_store (incrementUnread V i) ?c1 = (?c1\<lparr>cl_dev := d2\<rparr>, Inr ())"
    "client_data good recs ?S (?c1\<lparr>cl_dev := d2\<rparr>) ?M2" using d1(2) by (rule unread_data)
  let ?c2 = "c\<lparr>cl_dev := d2, cl_events := cl_events c @ [IncomingEvent i i body, ConversationChanged i, ConversationsChanged],
    cl_ticks := Suc (cl_ticks c)\<rparr>"
  have "client_data good recs ?S ?c2 ?M2" using d2(2) by simp
  moreover have "cl_sessions ?c2 i = Some s" using live by simp
  ultimately obtain c3 r x where c3: "sendContent E i (ReceiptContent Delivered [mid] (Some (dp_now E (cl_ticks c)))) ?c2 = (c3, r)"
    "client_data good recs ?S c3 (?M2\<lparr>cm_sessions := x\<rparr>)" "cl_events c3 = cl_events ?c2"
    using sendContent_live [OF E] by blast
  let ?c4 = "case r of Inl e \<Rightarrow> c3\<lparr>cl_events := cl_events c3 @ [ErrorEvent e]\<rparr> | Inr _ \<Rightarrow> c3"
  have "apply_text E i mid body t envelope c = (?c4, Inr ())"
    using c3(1) by (cases r) (simp_all add: apply_text_def wired_vault [OF E] sbind_store [OF d1(1)] sbind_store [OF d2(1)]
        run_simps client_acknowledge_def reported_def scatch_def sbind_def [of "sendContent _ _ _"])
  moreover have "client_data good recs ?S ?c4 (?M2\<lparr>cm_sessions := x\<rparr>)" using c3(2) by (cases r) simp_all
  moreover have "IncomingEvent i i body \<in> set (cl_events ?c4)" using c3(3) by (cases r) simp_all
  moreover have "cm_hist ?M2 = (cm_hist M)(i := cm_hist M i @ [?m])"
    using new m by (auto simp: on_convs_def append_model_def on_hist_def append_history_def)
  moreover have "unread_model i ?M2 = unread_model i M + 1"
    using unread_written [OF model_inv_append [of M ?m]] unread_append [of M i ?m] client_data_good [OF data] by (simp add: model_good_def)
  ultimately show ?thesis
    by (intro exI [of _ ?c4] exI [of _ "?M2\<lparr>cm_sessions := x\<rparr>"]) (simp add: on_convs_def unread_model_def)
qed

lemma text_received:
  assumes E: "wired V E" and data: "client_data good recs (dp_sodium E) c M" and live: "cl_sessions c (qe_senderId env) = Some s"
    and dec: "decrypt (dp_sodium E) (dp_kxPair E (cl_pairs c)) (qe_payload env) s = (s', Inr plain)"
    and content: "decodeContent plain = Inr (TextContent mid body t replyTo)"
    and new: "\<forall>m\<in>set (cm_hist M (qe_senderId env)). m_id m \<noteq> mid"
  shows "\<exists>c' M'. handleEnvelope E env c = (c', Inr ()) \<and> client_data good recs (dp_sodium E) c' M' \<and>
     cm_hist M' = (cm_hist M)(qe_senderId env := cm_hist M (qe_senderId env) @ [incoming_message mid (qe_senderId env) body t env]) \<and>
     unread_model (qe_senderId env) M' = unread_model (qe_senderId env) M + 1 \<and> cm_groups M' = cm_groups M \<and> cm_blobs M' = cm_blobs M \<and>
     IncomingEvent (qe_senderId env) (qe_senderId env) body \<in> set (cl_events c')"
proof -
  let ?S = "dp_sodium E" and ?i = "qe_senderId env"
  have fresh: "kx_pair ?S (dp_kxPair E (cl_pairs c))" using E by (simp add: wired_def deps_ok_def)
  have ok: "session_ok ?S s'"
    using decrypt_ok [OF wired_hmac [OF E] fresh client_data_live [OF data live], of "qe_payload env"] dec by simp
  let ?c = "c\<lparr>cl_pairs := Suc (cl_pairs c), cl_sessions := (cl_sessions c)(?i \<mapsto> s')\<rparr>"
  have c: "client_data good recs ?S ?c M" using client_data_session [OF _ ok, of _ _ "c\<lparr>cl_pairs := Suc (cl_pairs c)\<rparr>" M ?i] data by simp
  moreover have s': "cl_sessions ?c ?i = Some s'" by simp
  ultimately obtain d where d: "persistSession E ?i ?c = (?c\<lparr>cl_dev := d\<rparr>, Inr ())"
    "client_data good recs ?S (?c\<lparr>cl_dev := d\<rparr>) (M\<lparr>cm_sessions := (cm_sessions M)(?i \<mapsto> s')\<rparr>)"
    by (rule persistSession_data [OF E])
  have t: "num_ok t" using decoded_nums_ok [OF content] by simp
  have "openEnvelope E ?i env c = (?c\<lparr>cl_dev := d\<rparr>, Inr plain)"
    using dec d(1) by (simp add: openEnvelope_live [OF live] open_existing_def draw_kx_def set_session_def sbind_def)
  then have "handleEnvelope E env c = scatch (applyContent E ?i (TextContent mid body t replyTo) env)
      (\<lambda>error. emit (ErrorEvent error)) (?c\<lparr>cl_dev := d\<rparr>)"
    using content by (simp add: handleEnvelope_def Let_def scatch_def sbind_def)
  moreover obtain c' M' where "apply_text E ?i mid body t env (?c\<lparr>cl_dev := d\<rparr>) = (c', Inr ())"
    "client_data good recs ?S c' M'" "cm_hist M' = (cm_hist M)(?i := cm_hist M ?i @ [incoming_message mid ?i body t env])"
    "unread_model ?i M' = unread_model ?i M + 1" "cm_groups M' = cm_groups M" "cm_blobs M' = cm_blobs M"
    "IncomingEvent ?i ?i body \<in> set (cl_events c')"
    using text_applied [OF E d(2), of ?i s' mid t body env] new t by (auto simp: unread_model_def)
  ultimately show ?thesis by (auto simp: scatch_def)
qed

end


subsection \<open>Sessions in step\<close>

text \<open>\<open>sa\<close> and \<open>sb\<close> are the two ends of a dialogue in which nothing of \<open>sa\<close>'s is under way.\<close>

definition in_dialogue :: "sodium \<Rightarrow> Session \<Rightarrow> Session \<Rightarrow> bool" where
  "in_dialogue S sa sb \<longleftrightarrow> (\<exists>d x. dialogue_inv S d \<and> ends d x = sa \<and> ends d (other x) = sb \<and> wires d x = [])"

definition can_send :: "Session \<Rightarrow> bool" where
  "can_send s \<longleftrightarrow> sendingChainKey (sess_state s) \<noteq> None \<and> sendCount (sess_state s) < 2 ^ 32 \<and>
     previousChainLength (sess_state s) < 2 ^ 32"

lemma dialogue_speaks:
  assumes laws: "hmac_law S" "dh_law S" "aead_law S" and d: "in_dialogue S sa sb" and ready: "can_send sa"
    and fresh: "kx_pair S fresh" "publicKey fresh \<noteq> publicKey (ourRatchetKey (sess_state sb))"
  shows "\<exists>w sa' sb'. encrypt S p sa = (sa', Inr w) \<and> decrypt S fresh w sb = (sb', Inr p) \<and> in_dialogue S sa' sb'"
proof -
  obtain d x where d: "dialogue_inv S d" "ends d x = sa" "ends d (other x) = sb" "wires d x = []"
    using d by (auto simp: in_dialogue_def)
  let ?d1 = "say S x p d"
  have i1: "dialogue_inv S ?d1" using say_inv [OF laws d(1)] ready by (simp add: can_send_def d(2))
  obtain sa' r where enc: "encrypt S p sa = (sa', r)" by (cases "encrypt S p sa")
  then obtain w where w: "r = Inr w" using dialogue_inv_heard(1) [OF i1] by (cases r) (auto simp: say_def d(2))
  have d1: "ends ?d1 x = sa'" "ends ?d1 (other x) = sb" "wires ?d1 x = [w]" "said ?d1 x = said d x @ [p]" "heard ?d1 = heard d"
    using enc w d by (auto simp: say_def)
  let ?d2 = "hear S (other x) fresh ?d1"
  have i2: "dialogue_inv S ?d2" using hear_inv [OF laws(1,2) i1 fresh(1)] fresh(2) d1(2) by simp
  obtain sb' r' where dec: "decrypt S fresh w sb = (sb', r')" by (cases "decrypt S fresh w sb")
  have d2: "ends ?d2 x = sa'" "ends ?d2 (other x) = sb'" "wires ?d2 x = []" "said ?d2 x = said d x @ [p]"
    "heard ?d2 (other x) = heard d (other x) @ [r']"
    using dec d1 by (auto simp: hear_def)
  have "length (heard d (other x)) = length (said d x)" using dialogue_inv_heard(3) [OF d(1), of x] d(4) by simp
  then have "r' = Inr p" using dialogue_inv_heard(2) [OF i2, of x] unfolding d2 by simp
  then show ?thesis using enc w dec i2 d2 by (auto simp: in_dialogue_def)
qed

subsection \<open>Properties\<close>

context record_vault
begin

lemma sendText_sent:
  assumes E: "wired V E" and data: "client_data good recs (dp_sodium E) c M" and live: "cl_sessions c i = Some s"
    and enc: "encodeContent (TextContent (dp_newId E (cl_ids c)) body (dp_now E (cl_ticks c)) replyTo) = Inr plain"
      "encrypt (dp_sodium E) plain s = (s', Inr w)"
    and sent: "sendEnvelope (dp_api E) i w (cl_api c) = (a', Inr envelope)"
  shows "\<exists>c'. sendText E i body replyTo c = (c', Inr ((new_message (dp_newId E (cl_ids c)) i Outgoing body
        (Some (dp_now E (cl_ticks c))) Sent)\<lparr>m_envelopeId := envelope\<rparr>)) \<and> cl_api c' = a'"
proof -
  let ?S = "dp_sodium E" and ?id = "dp_newId E (cl_ids c)" and ?t = "dp_now E (cl_ticks c)"
  let ?m = "new_message ?id i Outgoing body (Some ?t) Pending"
  let ?c = "c\<lparr>cl_ids := Suc (cl_ids c), cl_ticks := Suc (cl_ticks c)\<rparr>"
  have "message_ok ?m" using E by (simp add: wired_def deps_ok_def)
  moreover have "client_data good recs ?S ?c M" using data by simp
  ultimately obtain d where d: "on_store (appendMessage V ?m) ?c = (?c\<lparr>cl_dev := d\<rparr>, Inr ())"
    "client_data good recs ?S (?c\<lparr>cl_dev := d\<rparr>) (append_model ?m M)" using append_data by blast
  let ?c1 = "?c\<lparr>cl_dev := d, cl_events := cl_events c @ [ConversationChanged i]\<rparr>"
  have c1: "client_data good recs ?S ?c1 (append_model ?m M)" "cl_sessions ?c1 i = Some s"
    "sendEnvelope (dp_api E) i w (cl_api ?c1) = (a', Inr envelope)"
    using d(2) live sent by simp_all
  let ?c2 = "\<lambda>d. ?c1\<lparr>cl_sessions := (cl_sessions ?c1)(i \<mapsto> s'), cl_api := a', cl_dev := d\<rparr>"
  obtain d2 where d2: "sendContent E i (TextContent ?id body ?t replyTo) ?c1 = (?c2 d2, Inr envelope)"
    "client_data good recs ?S (?c2 d2) ((append_model ?m M)\<lparr>cm_sessions := (cm_sessions (append_model ?m M))(i \<mapsto> s')\<rparr>)"
    by (rule sendContent_sent [OF E c1(1,2) enc c1(3)])
  obtain d3 where d3: "on_store (setMessageStatus V i ?id Sent envelope) (?c2 d2) = ((?c2 d2)\<lparr>cl_dev := d3\<rparr>, Inr ())"
    using d2(2) by (rule status_data)
  let ?work = "sbind (sendContent E i (TextContent ?id body ?t replyTo)) (\<lambda>x.
      sbind (on_store (setMessageStatus V i ?id Sent x)) (\<lambda>_. sreturn (?m\<lparr>m_status := Sent, m_envelopeId := x\<rparr>)))"
  have "?work ?c1 = ((?c2 d2)\<lparr>cl_dev := d3\<rparr>, Inr (?m\<lparr>m_status := Sent, m_envelopeId := envelope\<rparr>))"
    unfolding sbind_Inr [of "sendContent E i (TextContent ?id body ?t replyTo)" ?c1, OF d2(1)] sbind_store [OF d3] by simp
  then have "\<exists>c'. send_or_fail E ?m ?work ?c1 = (c', Inr (?m\<lparr>m_status := Sent, m_envelopeId := envelope\<rparr>)) \<and> cl_api c' = a'"
    by (simp add: send_or_fail_def scatch_def sfinally_def run_simps)
  moreover have "sendText E i body replyTo c = send_or_fail E ?m ?work ?c1"
    by (simp add: sendText_def wired_vault [OF E] run_simps Let_def sbind_store [OF d(1)])
  ultimately show ?thesis by (simp add: new_message_def)
qed

end



subsection \<open>A concrete exchange\<close>

lemma demo_dialogue:
  "\<exists>sa sb. in_dialogue demo_sodium sa sb \<and> can_send sa \<and> session_ok demo_sodium sa \<and> session_ok demo_sodium sb \<and>
     ourRatchetKey (sess_state sb) = demo_pair 4"
proof -
  note laws = demo_hmac_law demo_dh_law
  have "length (replicate 32 7 :: bytes) = 32" by simp
  from in_step_start [OF laws demo_kx_pair demo_kx_pair this]
  obtain a b where ab: "initializeInitiator demo_sodium (replicate 32 7) [] (publicKey (demo_pair 4)) (demo_pair 3) = Inr a"
    "initializeResponder (replicate 32 7) [] (demo_pair 4) = Inr b" "in_step demo_sodium a b [] []"
    "sendCount a = 0" "previousChainLength a = 0" by metis
  let ?s = "\<lambda>st. \<lparr>sess_state = st, pendingX3DH = None\<rparr>"
  let ?d = "\<lparr>ends = \<lambda>x. case x of Initiator \<Rightarrow> ?s a | Responder \<Rightarrow> ?s b, wires = \<lambda>_. [], said = \<lambda>_. [], heard = \<lambda>_. [], refusals = []\<rparr>"
  have "dialogue_inv demo_sodium ?d"
  proof (rule dialogue_invI [where l = Initiator and ql = "[]" and qf = "[]"])
    show "pending_ok (ends ?d x)" for x by (cases x) (simp_all add: pending_ok_def)
  qed (simp_all add: accounted_def ab(3))
  then have "in_dialogue demo_sodium (?s a) (?s b)"
    unfolding in_dialogue_def by (intro exI [of _ ?d] exI [of _ Initiator]) simp
  moreover have "ratchet_ok demo_sodium a" "ratchet_ok demo_sodium b"
    using initializeInitiator_inv [OF demo_hmac_law demo_kx_pair ab(1)] initializeResponder_inv [OF demo_kx_pair ab(2)] by simp_all
  moreover have "sendingChainKey a \<noteq> None" "ourRatchetKey b = demo_pair 4"
    using ab(1,2) by (auto simp: initializeInitiator_def initializeResponder_def rbind_eq_Inr)
  ultimately show ?thesis using ab(4,5) by (intro exI [of _ "?s a"] exI [of _ "?s b"]) (simp add: can_send_def session_ok_def)
qed


end
