(* ===== verification/Client_Contact.thy ===== *)
theory Client_Contact
  imports Client_Keys Client_Delivery
begin

section \<open>First contact\<close>

text \<open>
  The engine's prekey store serves the handshake: a message that opens a conversation, made from
  the bundle of a registered account, is accepted and filed by the account's engine.
\<close>

lemma accept_first:
  assumes "crypto_laws S" "identity_ok S alice" "identity_ok S bob"
    and keys: "kx_pair S spk" "kx_pair S eph" "kx_pair S rk" "kx_pair S fresh" "opk_ok S opk"
    and "publicKey fresh \<noteq> publicKey spk" "honest_bundle S bob spkId spk opk bundle" "key_ids_fit spkId opk"
    and "serves prekeys p p' spkId spk opk"
    and start: "startSession S eph rk alice bundle = Inr sa" "encrypt S hello sa = (sa', Inr w)"
  shows "\<exists>sb. acceptSession S fresh bob prekeys w p = (p', Inr (sb, hello)) \<and> in_dialogue S sa' sb"
proof -
  obtain d0 where d0: "open_dialogue S eph rk fresh alice bundle bob prekeys hello p = (p', Inr d0)"
    "dialogue_inv S d0" "heard d0 Responder = [Inr hello]"
    using handshake [OF assms(1-12)] by metis
  then obtain sb plaintext where a: "acceptSession S fresh bob prekeys w p = (p', Inr (sb, plaintext))"
    and d: "d0 = \<lparr>ends = (\<lambda>x. case x of Initiator \<Rightarrow> sa' | Responder \<Rightarrow> sb), wires = (\<lambda>_. []),
                  said = (\<lambda>x. case x of Initiator \<Rightarrow> [hello] | Responder \<Rightarrow> []),
                  heard = (\<lambda>x. case x of Initiator \<Rightarrow> [] | Responder \<Rightarrow> [Inr plaintext]),
                  refusals = []\<rparr>"
    using start by (auto simp: open_dialogue_def sbind_eq_Inr)
  have "in_dialogue S sa' sb" unfolding in_dialogue_def using d0(2) by (intro exI [of _ d0] exI [of _ Initiator]) (simp add: d)
  then show ?thesis using a d0(3) by (simp add: d)
qed

lemma recordPeer_keeps:
  "cl_sessions (fst (recordPeerIdentity E i key c)) = cl_sessions c" "cl_stored (fst (recordPeerIdentity E i key c)) = cl_stored c"
  by (simp_all add: recordPeerIdentity_def Let_def sbind_def on_store_def emit_def split: prod.split sum.split option.split)

lemma replenish_keeps: "cl_sessions (fst (replenishPrekeys E c)) = cl_sessions c"
  by (simp add: replenishPrekeys_def requireStored_def sbind_def draw_prekeys_eq on_api_def persistIdentity_def on_store_def Let_def
      split: prod.split sum.split)

lemma reported_returns: "reported m c = (case m c of (c', Inl e) \<Rightarrow> (c'\<lparr>cl_events := cl_events c' @ [ErrorEvent e]\<rparr>, Inr ()) | (c', Inr x) \<Rightarrow> (c', Inr ()))"
  by (simp add: reported_def scatch_def sbind_def emit_def split: prod.split sum.split)

context record_vault
begin

lemma vault_serves:
  assumes E: "wired V E" and data: "client_data good recs (dp_sodium E) c M" and st: "cl_stored c = Some st"
    and spk: "decode_pair (si_signedPrekeyPublic st) (si_signedPrekeyPrivate st) ''x25519'' = Inr spk"
    and k: "prekey_pool c i = Some k"
  shows "\<exists>c' M'. serves (VaultPrekeyStore E) c c' (si_signedPrekeyId st) spk (Some (i, k)) \<and>
     client_data good recs (dp_sodium E) c' M' \<and> frozen M M' \<and> cm_sessions M' = cm_sessions M \<and> cl_sessions c' = cl_sessions c \<and>
     cl_identity c' = cl_identity c"
proof -
  let ?S = "dp_sodium E"
  obtain entry where e: "map_of (si_oneTimePrekeys st) i = Some entry"
    using k by (cases "map_of (si_oneTimePrekeys st) i") (simp_all add: prekey_pool_def st)
  then have entry: "map_of (si_oneTimePrekeys st) i = Some entry" "decode_pair (sp_publicKey entry) (sp_privateKey entry) ''x25519'' = Inr k"
    using k by (cases "decode_pair (sp_publicKey entry) (sp_privateKey entry) ''x25519''"; simp add: prekey_pool_def st)+
  let ?st = "st\<lparr>si_oneTimePrekeys := AList.delete i (si_oneTimePrekeys st)\<rparr>"
  let ?c = "c\<lparr>cl_stored := Some ?st\<rparr>"
  have old: "stored_ok ?S st" using data st by (simp add: client_data_def mem_good_def)
  have ok: "stored_ok ?S ?st" using old by (rule stored_ok_pools(2))
  then have ident: "stored_identity_ok ?st" by (simp add: stored_ok_def)
  have "client_data good recs ?S ?c M" using data ok by (simp add: client_data_def mem_good_def)
  then obtain d where d: "on_store (saveIdentity V ?st) ?c = (?c\<lparr>cl_dev := d\<rparr>, Inr ())"
    "client_data good recs ?S (?c\<lparr>cl_dev := d\<rparr>) (M\<lparr>cm_identity := Some ?st\<rparr>)"
    using saveIdentity_impl [OF ident] model_good_save(3) [OF client_data_good [OF data] ok] by (rule store_data)
  have "takeOneTimePrekey (VaultPrekeyStore E) i c = (?c\<lparr>cl_dev := d\<rparr>, Inr (Some k))"
    using d(1) entry st by (simp add: VaultPrekeyStore_def requireStored_def persistIdentity_def wired_vault [OF E] sbind_def)
  moreover have "signedPrekey (VaultPrekeyStore E) (si_signedPrekeyId st) c = (c, Inr (Some spk))"
    using st spk by (simp add: VaultPrekeyStore_def requireStored_def sbind_def)
  ultimately show ?thesis using d(2)
    by (intro exI [of _ "?c\<lparr>cl_dev := d\<rparr>"] exI [of _ "M\<lparr>cm_identity := Some ?st\<rparr>"]) (simp add: serves_def frozen_def)
qed

lemma recordPeer_returns:
  assumes E: "wired V E" and data: "client_data good recs S c M"
  shows "snd (recordPeerIdentity E i key c) = Inr ()"
proof -
  let ?x = "find (\<lambda>c. c_id c = i) (newest_first (cm_convs M))"
  obtain d where d: "on_store (getConversation V i) c = (c\<lparr>cl_dev := d\<rparr>, Inr ?x)" "client_data good recs S (c\<lparr>cl_dev := d\<rparr>) M"
    using store_data [OF data getConversation_impl client_data_good [OF data]] by blast
  have st: "chat_state good recs d M" using d(2) by (simp add: client_data_def)
  have up: "\<exists>e u. on_store (upsertConversation V i patch) (c\<lparr>cl_dev := d\<rparr>) = (e, Inr u)"
    if "\<And>c. conversation_ok c \<Longrightarrow> conversation_ok (patch c)" for patch
    using upsertConversation_impl [of patch i M, OF that] st by (auto simp: implements_def on_store_def split: prod.split) (metis prod.inject)
  have a: "\<exists>e u. on_store (upsertConversation V i (key_changed_patch n o' v)) (c\<lparr>cl_dev := d\<rparr>) = (e, Inr u)" for n o' v
    by (rule up) (simp add: key_changed_patch_def conversation_ok_def)
  have b: "\<exists>e u. on_store (upsertConversation V i (\<lambda>c. c\<lparr>c_peerIdentityKey := n\<rparr>)) (c\<lparr>cl_dev := d\<rparr>) = (e, Inr u)" for n
    by (rule up) (simp add: conversation_ok_def)
  show ?thesis
  proof (cases "Option.bind ?x c_peerIdentityKey")
    case None
    then show ?thesis using b [of "Some (encodeB64 key)"]
      by (auto simp: recordPeerIdentity_def Let_def wired_vault [OF E] sbind_def d(1))
  next
    case (Some old)
    then show ?thesis using a [of "encodeB64 key" old "Option.bind ?x c_verifiedIdentityKey"]
      by (auto simp: recordPeerIdentity_def Let_def wired_vault [OF E] sbind_def d(1) emit_def)
  qed
qed

text \<open>The engine after the first envelope was opened: a live session, the data otherwise as before.\<close>

lemma first_opened:
  assumes E: "wired V E" and data: "client_data good recs (dp_sodium E) c M"
    and me: "cl_identity c = Some bob" "cl_stored c = Some st" and none: "cl_sessions c i = None" "cm_sessions M i = None"
    and acc: "acceptSession (dp_sodium E) (dp_kxPair E (cl_pairs c)) bob (VaultPrekeyStore E) (qe_payload env)
        (c\<lparr>cl_dev := d0, cl_pairs := Suc (cl_pairs c)\<rparr>) = (c1, Inr (s, plain))"
    and d0: "on_store (loadSession V i) c = (c\<lparr>cl_dev := d0\<rparr>, Inr None)"
    and c1: "client_data good recs (dp_sodium E) c1 M1" "frozen M M1" and ok: "session_ok (dp_sodium E) s"
  shows "\<exists>c' M'. openEnvelope E i env c = (c', Inr plain) \<and> client_data good recs (dp_sodium E) c' M' \<and> frozen M M' \<and>
     cl_sessions c' i = Some s"
proof -
  let ?S = "dp_sodium E"
  obtain m where m: "decodeMessage (qe_payload env) = Inr m" using acc by (auto simp: acceptSession_def sbind_eq_Inr)
  let ?peer = "case im_x3dh m of None \<Rightarrow> sreturn () | Some h \<Rightarrow> recordPeerIdentity E i (h_identityKey h)"
  have "safe (client_inv good recs (frozen M) ?S) ?peer (\<lambda>_. True)"
    by (rule safe_seq safe_end safe_recordPeerIdentity | simp add: E)+
  moreover have "client_inv good recs (frozen M) ?S c1" using c1 by (auto simp: client_inv_data)
  moreover obtain c2 where c2: "?peer c1 = (c2, Inr ())"
    using recordPeer_returns [OF E c1(1)] by (cases "im_x3dh m") (simp_all, metis prod.collapse)
  ultimately obtain M2 where M2: "client_data good recs ?S c2 M2" "frozen M M2" using safeD(1) by (metis client_inv_data)
  let ?c3 = "c2\<lparr>cl_sessions := (cl_sessions c2)(i \<mapsto> s)\<rparr>"
  have "client_data good recs ?S ?c3 M2" using client_data_session [OF M2(1) ok] .
  from store_data [OF this saveSession_impl [OF session_storable [OF ok]] model_good_save(1) [OF client_data_good [OF M2(1)] ok]]
  obtain d where d: "on_store (saveSession V i s) ?c3 = (?c3\<lparr>cl_dev := d\<rparr>, Inr ())"
    "client_data good recs ?S (?c3\<lparr>cl_dev := d\<rparr>) (M2\<lparr>cm_sessions := (cm_sessions M2)(i \<mapsto> s)\<rparr>)" .
  let ?c4 = "?c3\<lparr>cl_dev := d\<rparr>"
  have "client_inv good recs (frozen M) ?S ?c4" using d(2) M2(2) by (auto simp: client_inv_data frozen_def)
  then have "client_inv good recs (frozen M) ?S (fst (reported (replenishPrekeys E) ?c4))"
    using safe_state [OF safe_reported [OF safe_replenish [OF E frozen_hist_only]]] by blast
  then obtain M5 where M5: "client_data good recs ?S (fst (reported (replenishPrekeys E) ?c4)) M5" "frozen M M5"
    by (auto simp: client_inv_data)
  obtain c5 where c5: "reported (replenishPrekeys E) ?c4 = (c5, Inr ())" "cl_sessions c5 = cl_sessions ?c4"
    using replenish_keeps [of E ?c4]
    by (cases "replenishPrekeys E ?c4"; cases "snd (replenishPrekeys E ?c4)") (auto simp: reported_returns)
  have "openEnvelope E i env c = (c5, Inr plain)"
    using me none(1) acc m c2 c5(1)
    by (simp add: openEnvelope_def sbind_def d0 open_first_def requireStored_def requireIdentity_def
        draw_kx_def set_session_def wired_vault [OF E] d(1))
  then show ?thesis using M5 c5 by (intro exI [of _ c5] exI [of _ M5]) simp
qed

end

subsection \<open>Properties\<close>



subsection \<open>A concrete first contact\<close>

lemma demo_first_message:
  "\<exists>sa sa' w. startSession demo_sodium (demo_pair 3) (demo_pair 5) (demo_identity 1) demo_bundle = Inr sa \<and>
     encrypt demo_sodium hello sa = (sa', Inr w)"
proof -
  have s: "serves Dialogue.demo_store [7 \<mapsto> demo_pair 8] Map.empty 1 (demo_pair 4) (Some (7, demo_pair 8))"
    by (simp add: serves_def Dialogue.demo_store_def)
  have new: "publicKey (demo_pair 6) \<noteq> publicKey (demo_pair 4)" by (simp add: demo_pair_def)
  have ok: "opk_ok demo_sodium (Some (7, demo_pair 8))" "key_ids_fit 1 (Some (7, demo_pair 8))"
    by (simp_all add: opk_ok_def key_ids_fit_def)
  obtain d0 where d0: "open_dialogue demo_sodium (demo_pair 3) (demo_pair 5) (demo_pair 6) (demo_identity 1) demo_bundle
        (demo_identity 2) Dialogue.demo_store hello [7 \<mapsto> demo_pair 8] = (Map.empty, Inr d0)"
    using handshake [OF demo_crypto_laws demo_identity_ok demo_identity_ok demo_kx_pair demo_kx_pair
        demo_kx_pair demo_kx_pair ok(1) new demo_bundle_honest ok(2) s] by metis
  show ?thesis
  proof (cases "startSession demo_sodium (demo_pair 3) (demo_pair 5) (demo_identity 1) demo_bundle")
    case (Inl e)
    then show ?thesis using d0 by (simp add: open_dialogue_def sbind_def)
  next
    case (Inr sa)
    obtain sa' r where e: "encrypt demo_sodium hello sa = (sa', r)" by (cases "encrypt demo_sodium hello sa")
    have "\<exists>w. r = Inr w" using d0 Inr e by (cases r) (simp_all add: open_dialogue_def sbind_def)
    then show ?thesis using Inr e by auto
  qed
qed

definition demo_account :: "(entries device, demo_server) ChatClient" where
  "demo_account = demo_client\<lparr>cl_identity := Some (demo_identity 2), cl_stored := Some demo_stored\<rparr>"

lemma demo_account_simps [simp]:
  "cl_identity demo_account = Some (demo_identity 2)" "cl_stored demo_account = Some demo_stored" "cl_sessions demo_account = Map.empty"
  "cl_pairs demo_account = 0"
  by (simp_all add: demo_account_def demo_client_def new_ChatClient_def)

lemma demo_account_data:
  "client_data (vault_good demo_sodium MemoryAdapter distinct_keys map_of demo_vault)
     (vault_recs demo_sodium map_of demo_vault) demo_sodium demo_account empty_model"
  using demo_client_data demo_stored_ok by (simp add: client_data_def mem_good_def demo_account_def)

lemma demo_account_keys:
  "decode_pair (si_signedPrekeyPublic demo_stored) (si_signedPrekeyPrivate demo_stored) ''x25519'' = Inr (demo_pair 4)"
  "prekey_pool demo_account 7 = Some (demo_pair 8)"
  "key_ids_fit (si_signedPrekeyId demo_stored) (Some (7, demo_pair 8))"
  by (simp_all add: demo_stored_def new_stored_def decode_pair_def prekey_pool_def put_prekeys_def stored_pair_def demo_pair_def
      key_ids_fit_def)


theorem handshake_not_replayable_witness:
  "\<exists>c raw c' x e. acceptSession demo_sodium (demo_pair 0) (demo_identity 2) (VaultPrekeyStore demo_options) raw c = (c', Inr x) \<and>
     snd (acceptSession demo_sodium (demo_pair 0) (demo_identity 2) (VaultPrekeyStore demo_options) raw c') = Inl e"
proof -
  obtain sa sa' w where s: "startSession demo_sodium (demo_pair 3) (demo_pair 5) (demo_identity 1) demo_bundle = Inr sa"
    "encrypt demo_sodium [1] sa = (sa', Inr w)" using demo_first_message by blast
  have data: "client_data (vault_good demo_sodium MemoryAdapter distinct_keys map_of demo_vault)
     (vault_recs demo_sodium map_of demo_vault) (dp_sodium demo_options) demo_account empty_model" using demo_account_data by simp
  obtain c1 where c1: "serves (VaultPrekeyStore demo_options) demo_account c1 (si_signedPrekeyId demo_stored) (demo_pair 4) (Some (7, demo_pair 8))"
    using sealed_vault.vault_serves [OF demo_wired data demo_account_simps(2) demo_account_keys(1,2)] by blast
  have new: "publicKey (demo_pair 0) \<noteq> publicKey (demo_pair 4)" by (simp add: demo_pair_def)
  have ok: "opk_ok demo_sodium (Some (7, demo_pair 8))" by (simp add: opk_ok_def)
  have b: "honest_bundle demo_sodium (demo_identity 2) (si_signedPrekeyId demo_stored) (demo_pair 4) (Some (7, demo_pair 8)) demo_bundle"
    using demo_bundle_honest by simp
  obtain sb where a: "acceptSession demo_sodium (demo_pair 0) (demo_identity 2) (VaultPrekeyStore demo_options) w demo_account = (c1, Inr (sb, [1]))"
    using accept_first [OF demo_crypto_laws demo_identity_ok demo_identity_ok demo_kx_pair demo_kx_pair demo_kx_pair demo_kx_pair ok new b
        demo_account_keys(3) c1 s] by blast
  have gone: "prekey_pool c1 7 = None"
  proof -
    have "takeOneTimePrekey (VaultPrekeyStore demo_options) 7 demo_account = (c1, Inr (Some (demo_pair 8)))"
      using c1 by (auto simp: serves_def dest: signed_keeps_pool)
    from take_cases(1) [OF this] show ?thesis by simp
  qed
  obtain m h where m: "decodeMessage w = Inr m" "im_x3dh m = Some h"
    "prekey_pool c1 = (case h_oneTimePrekeyId h of None \<Rightarrow> prekey_pool demo_account | Some i \<Rightarrow> (prekey_pool demo_account)(i := None))"
    by (rule vault_prekeys.accept_consumes [OF a])
  then obtain i where "h_oneTimePrekeyId h = Some i"
    using gone demo_account_keys(2) by (cases "h_oneTimePrekeyId h") auto
  from handshake_not_replayable [OF a m(1,2) this, of demo_sodium "demo_pair 0" "demo_identity 2"] a show ?thesis by blast
qed

end
