(* ===== verification/Client_Groups.thy ===== *)
theory Client_Groups
  imports Client_Contact
begin

section \<open>Groups and receipts in the chat engine\<close>

text \<open>
  Who may change a group or write into it, what leaving does, that a creation is not checked, and
  that no receipt answers a receipt.
\<close>

subsection \<open>Membership\<close>

lemma leaving_removes:
  assumes "isMember g me"
  shows "\<not> isMember (change_members False (nextTimestamp g t) me [me] g) me"
proof -
  obtain r where r: "map_of (members g) me = Some r" using assms by (auto simp: isMember_def split: option.splits)
  have "addedAt r < nextTimestamp g t" "removedAt r < nextTimestamp g t"
    using nextTimestamp_above(3) [OF map_of_SomeD [OF r]] by auto
  then show ?thesis
    using r by (simp add: change_members_def applyMembershipChange_def isMember_def record_of_def update_conv' wins_def Let_def)
qed

lemma change_members_id: "g_id (change_members added t author xs g) = g_id g"
  unfolding change_members_def by (induction xs arbitrary: g) (simp_all add: applyMembershipChange_def Let_def)

lemma change_group_id: "g_id (change_group change t author g) = g_id g"
  by (simp add: change_group_def Let_def change_members_id applyRename_def split: option.split)

lemma reported_ends: obtains c' where "reported m c = (c', Inr ())"
  by (cases "m c"; cases "snd (m c)") (auto simp: reported_def scatch_def sbind_def emit_def)

context record_vault
begin

lemma group_data:
  assumes "client_data good recs S c M"
  obtains d where "on_store (loadGroup V i) c = (c\<lparr>cl_dev := d\<rparr>, Inr (cm_groups M i))" "client_data good recs S (c\<lparr>cl_dev := d\<rparr>) M"
  using assms by (rule store_data [OF _ loadGroup_impl]) (use assms in \<open>simp add: client_data_def\<close>)

lemma saveGroup_data:
  assumes "client_data good recs S c M" "group_ok g"
  obtains d where "on_store (saveGroup V g) c = (c\<lparr>cl_dev := d\<rparr>, Inr ())"
    "client_data good recs S (c\<lparr>cl_dev := d\<rparr>) (M\<lparr>cm_groups := (cm_groups M)(g_id g \<mapsto> g)\<rparr>)"
  using assms(1) saveGroup_impl [OF assms(2)]
  by (rule store_data) (use assms in \<open>simp add: client_data_def model_good_save(2)\<close>)

text \<open>Content about a group from somebody who is not in it.\<close>

lemma outsider_content:
  assumes E: "wired V E" and data: "client_data good recs S c M"
    and outside: "\<And>g. cm_groups M gid = Some g \<Longrightarrow> \<not> isMember g sender"
    and content: "content = GroupTextContent gid mid body t replyTo \<or> content = GroupUpdateContent gid name adds removes t"
  shows "\<exists>c'. applyContent E sender content env c = (c', Inr ()) \<and> client_data good recs S c' M \<and> cl_api c' = cl_api c \<and>
     cl_sessions c' = cl_sessions c \<and> (\<forall>i s b. IncomingEvent i s b \<in> set (cl_events c') \<longrightarrow> IncomingEvent i s b \<in> set (cl_events c))"
proof -
  obtain d where d: "on_store (loadGroup V gid) c = (c\<lparr>cl_dev := d\<rparr>, Inr (cm_groups M gid))" "client_data good recs S (c\<lparr>cl_dev := d\<rparr>) M"
    using data by (rule group_data)
  show ?thesis
  proof (cases "cm_groups M gid")
    case None
    then show ?thesis using content d
      by (auto simp: apply_group_text_def apply_group_update_def wired_vault [OF E] sbind_def emit_def)
  next
    case (Some g)
    then show ?thesis using content d outside [OF Some]
      by (auto simp: apply_group_text_def apply_group_update_def wired_vault [OF E] sbind_def emit_def)
  qed
qed

lemma member_text:
  assumes E: "wired V E" and data: "client_data good recs S c M" and g: "cm_groups M gid = Some g" "isMember g sender"
    and new: "\<forall>m\<in>set (cm_hist M gid). m_id m \<noteq> mid" and t: "num_ok t"
  shows "\<exists>c' M'. apply_group_text E sender gid mid body t env c = (c', Inr ()) \<and> client_data good recs S c' M' \<and>
     cm_hist M' = (cm_hist M)(gid := cm_hist M gid @ [(incoming_message mid gid body t env)\<lparr>m_senderId := Some sender\<rparr>]) \<and>
     unread_model gid M' = unread_model gid M + 1 \<and> cm_groups M' = cm_groups M \<and> IncomingEvent gid sender body \<in> set (cl_events c')"
proof -
  let ?m = "(incoming_message mid gid body t env)\<lparr>m_senderId := Some sender\<rparr>"
  obtain d where d: "on_store (loadGroup V gid) c = (c\<lparr>cl_dev := d\<rparr>, Inr (Some g))" "client_data good recs S (c\<lparr>cl_dev := d\<rparr>) M"
    using group_data [OF data, of gid] g(1) by metis
  have "message_ok ?m" using t by simp
  with d(2) obtain d1 where d1: "on_store (appendMessage V ?m) (c\<lparr>cl_dev := d\<rparr>) = (c\<lparr>cl_dev := d\<rparr>\<lparr>cl_dev := d1\<rparr>, Inr ())"
    "client_data good recs S (c\<lparr>cl_dev := d\<rparr>\<lparr>cl_dev := d1\<rparr>) (append_model ?m M)" by (rule append_data)
  let ?M2 = "on_convs (upsert gid (\<lambda>c. c\<lparr>c_unreadCount := unread_model gid (append_model ?m M) + 1\<rparr>)) (append_model ?m M)"
  have "client_data good recs S (c\<lparr>cl_dev := d1\<rparr>) (append_model ?m M)" using d1(2) by simp
  then obtain d2 where d2: "on_store (incrementUnread V gid) (c\<lparr>cl_dev := d1\<rparr>) = (c\<lparr>cl_dev := d1\<rparr>\<lparr>cl_dev := d2\<rparr>, Inr ())"
    "client_data good recs S (c\<lparr>cl_dev := d1\<rparr>\<lparr>cl_dev := d2\<rparr>) ?M2" by (rule unread_data)
  let ?c = "c\<lparr>cl_dev := d2, cl_events := cl_events c @ [IncomingEvent gid sender body, ConversationChanged gid, ConversationsChanged]\<rparr>"
  have "apply_group_text E sender gid mid body t env c = (?c, Inr ())"
    using g(2) d1(1) d2(1) by (simp add: apply_group_text_def wired_vault [OF E] sbind_def d(1) emit_def)
  moreover have "cm_hist ?M2 = (cm_hist M)(gid := cm_hist M gid @ [?m])"
    using new by (auto simp: on_convs_def append_model_def on_hist_def append_history_def incoming_message_def new_message_def)
  moreover have "unread_model gid ?M2 = unread_model gid M + 1"
    using unread_written [OF model_inv_append [of M ?m]] unread_append [of M gid ?m] client_data_good [OF data] by (simp add: model_good_def)
  ultimately show ?thesis using d2(2) by (intro exI [of _ ?c] exI [of _ ?M2]) (simp add: on_convs_def)
qed

lemma leaveGroup_outcome:
  assumes E: "wired V E" and data: "client_data good recs (dp_sodium E) c M" and me: "cl_stored c = Some st"
    and g: "cm_groups M gid = Some g" "g_id g = gid" "isMember g (si_accountId st)"
  shows "\<exists>c' M' g'. leaveGroup E gid c = (c', Inr ()) \<and> client_data good recs (dp_sodium E) c' M' \<and>
     cm_groups M' = (cm_groups M)(gid \<mapsto> g') \<and> \<not> isMember g' (si_accountId st) \<and> cm_hist M' = cm_hist M \<and> cm_blobs M' = cm_blobs M"
proof -
  let ?S = "dp_sodium E" and ?me = "si_accountId st"
  obtain d where d: "on_store (loadGroup V gid) c = (c\<lparr>cl_dev := d\<rparr>, Inr (Some g))" "client_data good recs ?S (c\<lparr>cl_dev := d\<rparr>) M"
    using group_data [OF data, of gid] g(1) by metis
  have own: "own_account x = (x, Inr ?me)" if "cl_stored x = Some st" for x :: "('d, 'a) ChatClient"
    using that by (simp add: own_account_def requireStored_def sbind_def)
  let ?t = "dp_now E (cl_ticks c)" and ?c1 = "c\<lparr>cl_dev := d, cl_ticks := Suc (cl_ticks c)\<rparr>"
  let ?stamp = "nextTimestamp g ?t"
  let ?send = "reported (fanOut E g (GroupUpdateContent gid None None (Some [?me]) ?stamp) None)"
  obtain c2 where c2: "?send ?c1 = (c2, Inr ())" by (rule reported_ends)
  have "client_inv good recs (frozen M) ?S ?c1" using d(2) by (auto simp: client_inv_data)
  then have "client_inv good recs (frozen M) ?S c2"
    using safe_state [OF safe_reported [OF safe_fanOut [OF E frozen_hist_only]], of M ?c1 g] c2 by (metis fst_conv)
  then obtain M2 where M2: "client_data good recs ?S c2 M2" "frozen M M2" by (auto simp: client_inv_data)
  let ?g = "change_members False ?stamp ?me [?me] g"
  have "num_ok ?t" using E by (simp add: wired_def deps_ok_def)
  moreover have "group_ok g" using client_data_good [OF data] g(1) by (simp add: model_good_def)
  ultimately have "group_ok ?g" by (intro change_members_ok nextTimestamp_ok)
  with M2(1) obtain d3 where d3: "on_store (saveGroup V ?g) c2 = (c2\<lparr>cl_dev := d3\<rparr>, Inr ())"
    "client_data good recs ?S (c2\<lparr>cl_dev := d3\<rparr>) (M2\<lparr>cm_groups := (cm_groups M2)(g_id ?g \<mapsto> ?g)\<rparr>)" by (rule saveGroup_data)
  let ?c = "c2\<lparr>cl_dev := d3, cl_events := cl_events c2 @ [ConversationsChanged]\<rparr>"
  have "leaveGroup E gid c = (?c, Inr ())"
    using c2 d3(1) g(3) me by (simp add: leaveGroup_def requireGroup_def wired_vault [OF E] sbind_def d(1) own now_def Let_def emit_def)
  then show ?thesis using d3(2) M2(2) g(2) leaving_removes [OF g(3)]
    by (intro exI [of _ ?c] exI [of _ "M2\<lparr>cm_groups := (cm_groups M2)(g_id ?g \<mapsto> ?g)\<rparr>"] exI [of _ ?g])
      (simp add: frozen_def change_members_id)
qed

lemma create_takes_over:
  assumes E: "wired V E" and data: "client_data good recs S c M" and gid: "gid \<noteq> []" and t: "0 < t" "num_ok t"
  shows "\<exists>c' M' g'. applyContent E sender (GroupCreateContent gid name initial (Some t)) env c = (c', Inr ()) \<and>
     client_data good recs S c' M' \<and> cm_groups M' = (cm_groups M)(gid \<mapsto> g') \<and>
     (\<forall>a. isMember g' a \<longleftrightarrow> a \<in> insert sender (set initial)) \<and> cm_hist M' = cm_hist M"
proof -
  obtain g where g: "createGroup gid name sender initial t = Inr g" "\<forall>a. isMember g a \<longleftrightarrow> a \<in> insert sender (set initial)"
    using createGroup_members [OF t(1), of gid name sender initial] gid by blast
  have id: "g_id g = gid" using g(1) by (auto simp: createGroup_def split: if_splits)
  have "group_ok g" using g(1) t(2) by (rule createGroup_ok)
  with data obtain d where d: "on_store (saveGroup V g) c = (c\<lparr>cl_dev := d\<rparr>, Inr ())"
    "client_data good recs S (c\<lparr>cl_dev := d\<rparr>) (M\<lparr>cm_groups := (cm_groups M)(g_id g \<mapsto> g)\<rparr>)" by (rule saveGroup_data)
  note d = d [unfolded id]
  let ?patch = "\<lambda>c. c\<lparr>c_displayName := Some name, c_isGroup := Some True, c_lastActivity := Some t\<rparr>"
  let ?M = "M\<lparr>cm_groups := (cm_groups M)(gid \<mapsto> g)\<rparr>"
  have good: "model_good S (on_convs (upsert gid ?patch) ?M)"
    using client_data_good [OF d(2)] existing_good [of "cm_convs ?M" gid] t(2)
    by (intro model_good_convs) (auto simp: model_good_def intro!: conv_patches)
  have "implements (chat_state good recs) (upsertConversation V gid ?patch) ?M
      (Inr (patched gid ?patch (existing_conversation gid (cm_convs ?M)))) (on_convs (upsert gid ?patch) ?M)"
    by (rule upsertConversation_impl) (use t(2) in \<open>simp add: conv_patches\<close>)
  with d(2) obtain d2 where d2: "on_store (upsertConversation V gid ?patch) (c\<lparr>cl_dev := d\<rparr>)
      = (c\<lparr>cl_dev := d\<rparr>\<lparr>cl_dev := d2\<rparr>, Inr (patched gid ?patch (existing_conversation gid (cm_convs ?M))))"
    "client_data good recs S (c\<lparr>cl_dev := d\<rparr>\<lparr>cl_dev := d2\<rparr>) (on_convs (upsert gid ?patch) ?M)"
    by (rule store_data) (rule good)
  let ?c = "c\<lparr>cl_dev := d2, cl_events := cl_events c @ [ConversationsChanged]\<rparr>"
  have "applyContent E sender (GroupCreateContent gid name initial (Some t)) env c = (?c, Inr ())"
    using g(1) d(1) d2(1) by (simp add: apply_group_create_def stamp_or_zero_def wired_vault [OF E] sbind_def emit_def)
  then show ?thesis using d2(2) g(2)
    by (intro exI [of _ ?c] exI [of _ "on_convs (upsert gid ?patch) ?M"] exI [of _ g]) (simp add: on_convs_def)
qed

end

subsection \<open>Receipts\<close>

fun silent :: "MessageContent \<Rightarrow> bool" where
  "silent (TextContent i body t r) = False"
| "silent (AttachmentContent chunk) = False"
| "silent _ = True"

lemma offline:
  "safe (\<lambda>c. cl_api c = a) (on_store m) (\<lambda>_. True)"
  "safe (\<lambda>c. cl_api c = a) (emit e) (\<lambda>_. True)"
  "safe (\<lambda>c. cl_api c = a) (now E) (\<lambda>_. True)"
  "safe (\<lambda>c. cl_api c = a) (draw_kx E) (\<lambda>_. True)"
  "safe (\<lambda>c. cl_api c = a) (set_session i s) (\<lambda>_. True)"
  "safe (\<lambda>c. cl_api c = a) (persistSession E i) (\<lambda>_. True)"
  "safe (\<lambda>c. cl_api c = a) (sreturn x) (\<lambda>_. True)"
  by (auto simp: safe_def on_store_def emit_def now_def draw_kx_def set_session_def persistSession_def sbind_def
      split: prod.split option.split)

lemmas offline_seq = offline [THEN safe_bind]

lemma silent_offline:
  fixes a :: "'n ApiState"
  assumes "silent content"
  shows "safe (\<lambda>c :: ('d, 'n) ChatClient. cl_api c = a) (applyContent E i content env) (\<lambda>_. True)"
proof -
  have st: "safe (\<lambda>c :: ('d, 'n) ChatClient. cl_api c = a) (apply_statuses E i st ids) (\<lambda>_. True)" for st ids
    by (induction ids) (simp only: apply_statuses.simps, intro offline_seq offline; assumption?)+
  show ?thesis using assms
    by (cases content) (auto simp: apply_edit_def apply_group_create_def apply_group_update_def apply_group_text_def Let_def
      intro!: st [THEN safe_bind] offline_seq offline safe_lift [THEN safe_bind] split: option.split)
qed

lemma silent_handled:
  assumes live: "cl_sessions c (qe_senderId env) = Some s"
    and quiet: "\<And>s' plain content. decrypt (dp_sodium E) (dp_kxPair E (cl_pairs c)) (qe_payload env) s = (s', Inr plain) \<Longrightarrow>
      decodeContent plain = Inr content \<Longrightarrow> silent content"
  shows "cl_api (fst (handleEnvelope E env c)) = cl_api c"
proof -
  let ?i = "qe_senderId env" and ?c = "c\<lparr>cl_pairs := Suc (cl_pairs c)\<rparr>"
  obtain s' r where d: "decrypt (dp_sodium E) (dp_kxPair E (cl_pairs c)) (qe_payload env) s = (s', r)" by (meson surj_pair)
  show ?thesis
  proof (cases r)
    case (Inl e)
    then show ?thesis using bad_envelope [OF live] d by simp
  next
    case (Inr plain)
    let ?save = "sbind (set_session ?i s') (\<lambda>_. sbind (persistSession E ?i) (\<lambda>_. sreturn plain))"
    let ?rest = "\<lambda>plain. sbind (slift (decodeContent plain)) (\<lambda>content. applyContent E ?i content env)"
    have "safe (\<lambda>x. cl_api x = cl_api c) (scatch (sbind ?save ?rest) (\<lambda>e. emit (ErrorEvent e))) (\<lambda>_. True)"
      using quiet [OF d [unfolded Inr]]
      by (intro safe_catch safe_bind [OF safe_bind [OF offline(5) safe_bind [OF offline(6) safe_return]]] safe_lift [THEN safe_bind]
          silent_offline offline) auto
    from safe_state [OF this, of ?c] show ?thesis using d Inr
      by (simp add: handleEnvelope_def Let_def scatch_def sbind_def [of "openEnvelope _ _ _"] openEnvelope_live [OF live]
          open_existing_def run_simps sbind_def [of ?save])
  qed
qed


subsection \<open>Properties\<close>

text \<open>
  Claim C9. Group membership is enforced on receipt: a group text is filed under the group, with its
  author, exactly when the sender is a member of the locally known group, and otherwise no stored
  data changes; and a group update from an account that is not a member changes no stored data.
\<close>

theorem group_membership_enforced:
  assumes "wired (vault_ops S A v) E"
    and "client_data (vault_good S A invar view v) (vault_recs S view v) S c M"
    and "\<forall>m\<in>set (cm_hist M gid). m_id m \<noteq> mid" "num_ok t"
  shows "(\<exists>c' M'. applyContent E sender (GroupTextContent gid mid body t replyTo) env c = (c', Inr ()) \<and>
       client_data (vault_good S A invar view v) (vault_recs S view v) S c' M' \<and> cm_groups M' = cm_groups M \<and>
       cm_hist M' = (if \<exists>g. cm_groups M gid = Some g \<and> isMember g sender
         then (cm_hist M)(gid := cm_hist M gid @ [(incoming_message mid gid body t env)\<lparr>m_senderId := Some sender\<rparr>])
         else cm_hist M)) \<and>
     (\<not> (\<exists>g. cm_groups M gid = Some g \<and> isMember g sender) \<longrightarrow>
       (\<exists>c'. applyContent E sender (GroupUpdateContent gid name adds removes t) env c = (c', Inr ()) \<and>
         client_data (vault_good S A invar view v) (vault_recs S view v) S c' M))"
proof (cases "\<exists>g. cm_groups M gid = Some g \<and> isMember g sender")
  case True
  then obtain g where "cm_groups M gid = Some g" "isMember g sender" by blast
  from sealed_vault.member_text [OF assms(1,2) this assms(3,4), of body env] show ?thesis using True by auto
next
  case False
  note out = sealed_vault.outsider_content [OF assms(1,2), of gid sender]
  have "\<exists>c'. applyContent E sender (GroupTextContent gid mid body t replyTo) env c = (c', Inr ()) \<and>
      client_data (vault_good S A invar view v) (vault_recs S view v) S c' M"
    using out [of "GroupTextContent gid mid body t replyTo" mid body t replyTo] False by blast
  moreover have "\<exists>c'. applyContent E sender (GroupUpdateContent gid name adds removes t) env c = (c', Inr ()) \<and>
      client_data (vault_good S A invar view v) (vault_recs S view v) S c' M"
    using out [of "GroupUpdateContent gid name adds removes t" _ _ t _ name adds removes] False by blast
  ultimately show ?thesis using False by auto
qed

text \<open>
  Claim C11. A group creation is not checked against what is known: whoever sends one for an existing
  group id replaces that group's membership and name by its own, member or not.
\<close>

theorem group_create_takes_over:
  assumes "wired (vault_ops S A v) E"
    and "client_data (vault_good S A invar view v) (vault_recs S view v) S c M"
    and "cm_groups M gid = Some g" "\<not> isMember g sender" "gid \<noteq> []" "0 < t" "num_ok t"
  shows "\<exists>c' M' g'. applyContent E sender (GroupCreateContent gid name initial (Some t)) env c = (c', Inr ()) \<and>
     client_data (vault_good S A invar view v) (vault_recs S view v) S c' M' \<and> cm_groups M' = (cm_groups M)(gid \<mapsto> g') \<and>
     (\<forall>a. isMember g' a \<longleftrightarrow> a \<in> insert sender (set initial))"
  using sealed_vault.create_takes_over [OF assms(1,2,5,6,7), of sender name initial env] by blast

text \<open>
  Leaving a group works offline: whatever the network does, \<open>leaveGroup\<close> returns, the
  stored group no longer has the user as a member, and no message or file is changed.
\<close>

theorem leaveGroup_always_leaves:
  assumes "wired (vault_ops S A v) E" "dp_sodium E = S"
    and "client_data (vault_good S A invar view v) (vault_recs S view v) S c M"
    and "cl_stored c = Some st" "cm_groups M gid = Some g" "g_id g = gid" "isMember g (si_accountId st)"
  shows "\<exists>c' M' g'. leaveGroup E gid c = (c', Inr ()) \<and>
     client_data (vault_good S A invar view v) (vault_recs S view v) S c' M' \<and>
     cm_groups M' = (cm_groups M)(gid \<mapsto> g') \<and> \<not> isMember g' (si_accountId st) \<and>
     cm_hist M' = cm_hist M \<and> cm_blobs M' = cm_blobs M"
  using sealed_vault.leaveGroup_outcome [OF assms(1), of invar view c M st gid g] assms(2-) by simp


subsection \<open>A concrete group\<close>

lemma num_ok_small: "num_ok (numeral n)"
  using num_ok_of_nat [of "numeral n"] by simp

lemma demo_group_data:
  "\<exists>d g. client_data (vault_good demo_sodium MemoryAdapter distinct_keys map_of demo_vault)
     (vault_recs demo_sodium map_of demo_vault) demo_sodium (demo_account\<lparr>cl_dev := d\<rparr>) (empty_model\<lparr>cm_groups := [''g'' \<mapsto> g]\<rparr>) \<and>
     g_id g = ''g'' \<and> (\<forall>a. isMember g a \<longleftrightarrow> a = ''alice'')"
proof -
  obtain g where g: "createGroup ''g'' ''tea'' ''alice'' [] 5 = Inr g" "\<forall>a. isMember g a \<longleftrightarrow> a \<in> insert ''alice'' (set [])"
    using createGroup_members [of 5 "''g''" "''tea''" "''alice''" "[]"] by auto
  have id: "g_id g = ''g''" using g(1) by (auto simp: createGroup_def split: if_splits)
  have "group_ok g" by (rule createGroup_ok [OF g(1)]) (simp add: num_ok_small)
  with demo_account_data obtain d where
    "client_data (vault_good demo_sodium MemoryAdapter distinct_keys map_of demo_vault) (vault_recs demo_sodium map_of demo_vault)
       demo_sodium (demo_account\<lparr>cl_dev := d\<rparr>) (empty_model\<lparr>cm_groups := (cm_groups empty_model)(g_id g \<mapsto> g)\<rparr>)"
    by (rule sealed_vault.saveGroup_data)
  then show ?thesis using id g(2) by (intro exI [of _ d] exI [of _ g]) (simp add: empty_model_def)
qed

theorem group_membership_enforced_witness:
  "\<exists>c c'. applyContent demo_options ''mallory'' (GroupTextContent ''g'' ''m1'' ''hi'' 6 None)
       \<lparr>qe_id = ''e'', qe_senderId = ''mallory'', qe_payload = [], qe_createdAt = []\<rparr> c = (c', Inr ())"
proof -
  obtain d g where d: "client_data (vault_good demo_sodium MemoryAdapter distinct_keys map_of demo_vault)
     (vault_recs demo_sodium map_of demo_vault) demo_sodium (demo_account\<lparr>cl_dev := d\<rparr>) (empty_model\<lparr>cm_groups := [''g'' \<mapsto> g]\<rparr>)"
    using demo_group_data by blast
  show ?thesis
    using group_membership_enforced [OF demo_wired d, of "''g''" "''m1''" 6 "''mallory''" "''hi''" None]
    by (fastforce simp: empty_model_def num_ok_small)
qed

theorem group_create_takes_over_witness:
  "\<exists>c c' g g'. \<not> isMember g ''mallory'' \<and> isMember g' ''mallory'' \<and> \<not> isMember g' ''alice'' \<and>
     applyContent demo_options ''mallory'' (GroupCreateContent ''g'' ''mine'' [] (Some 9))
       \<lparr>qe_id = ''e'', qe_senderId = ''mallory'', qe_payload = [], qe_createdAt = []\<rparr> c = (c', Inr ())"
proof -
  obtain d g where d: "client_data (vault_good demo_sodium MemoryAdapter distinct_keys map_of demo_vault)
     (vault_recs demo_sodium map_of demo_vault) demo_sodium (demo_account\<lparr>cl_dev := d\<rparr>) (empty_model\<lparr>cm_groups := [''g'' \<mapsto> g]\<rparr>)"
    "\<not> isMember g ''mallory''" using demo_group_data by fastforce
  from group_create_takes_over [OF demo_wired d(1) _ d(2), of "''g''" 9 "''mine''" "[]"
      "\<lparr>qe_id = ''e'', qe_senderId = ''mallory'', qe_payload = [], qe_createdAt = []\<rparr>"]
  obtain c' g' where "applyContent demo_options ''mallory'' (GroupCreateContent ''g'' ''mine'' [] (Some 9))
       \<lparr>qe_id = ''e'', qe_senderId = ''mallory'', qe_payload = [], qe_createdAt = []\<rparr> (demo_account\<lparr>cl_dev := d\<rparr>) = (c', Inr ())"
    "\<forall>a. isMember g' a \<longleftrightarrow> a = ''mallory''" by (auto simp: num_ok_small)
  then show ?thesis using d(2) by (intro exI [of _ "demo_account\<lparr>cl_dev := d\<rparr>"] exI [of _ c'] exI [of _ g] exI [of _ g']) simp
qed

theorem leaveGroup_always_leaves_witness: "\<exists>c c'. leaveGroup demo_options ''g'' c = (c', Inr ())"
proof -
  obtain d g where d: "client_data (vault_good demo_sodium MemoryAdapter distinct_keys map_of demo_vault)
     (vault_recs demo_sodium map_of demo_vault) demo_sodium (demo_account\<lparr>cl_dev := d\<rparr>) (empty_model\<lparr>cm_groups := [''g'' \<mapsto> g]\<rparr>)"
    "g_id g = ''g''" "\<forall>a. isMember g a \<longleftrightarrow> a = ''alice''" using demo_group_data by blast
  have me: "cl_stored (demo_account\<lparr>cl_dev := d\<rparr>) = Some demo_stored" by simp
  have g: "cm_groups (empty_model\<lparr>cm_groups := [''g'' \<mapsto> g]\<rparr>) ''g'' = Some g" "isMember g (si_accountId demo_stored)"
    using d(3) by (simp_all add: demo_stored_def new_stored_def)
  from leaveGroup_always_leaves [OF demo_wired _ d(1) me g(1) d(2) g(2)] show ?thesis by auto
qed


end
