(* ===== verification/App.thy ===== *)
theory App
  imports Format Client_Groups
begin

section \<open>The application around the engine (\<open>hooks/useChat.ts\<close>)\<close>

text \<open>
  The hook keeps the state of the screen and starts asynchronous functions that change it later. An
  asynchronous function runs without interruption from one \<open>await\<close> to the next, so a running one is
  the list of what it still has to do: an \<open>Await\<close> instruction is the call it waits for together with
  what it does with the result, a \<open>Do\<close> instruction is code that runs at once. Any number of them are
  suspended at a time and any of them may be the next to continue. An engine call takes effect when
  its promise settles; the events it raised are handled then. Engines are numbered in the order
  \<open>boot\<close> made them, and a function that captured one in a variable names it by its number. All
  engines share the device and the network; the transport of an engine has the same number. A callback of
  a transport may come at any time. What the message of an error says is not modelled: the screen
  shows the error.
\<close>

datatype Phase = Loading | Onboarding | Unlocking | ReadyPhase

datatype Connection = Offline | ConnectingNow | Online

datatype app_error = Thrown error | NoAccountError | SocketEvent

record ChatState =
  phase :: Phase
  us_accountId :: "string option"
  us_conversations :: "Conversation list"
  activeId :: "string option"
  us_messages :: "StoredMessage list"
  typing :: "string list"
  connection :: Connection
  notifications :: "NotificationPermission option"
  us_error :: "app_error option"
  recoverable :: bool

definition blank_state :: "Phase \<Rightarrow> NotificationPermission option \<Rightarrow> ChatState" where
  "blank_state p perm =
     \<lparr>phase = p, us_accountId = None, us_conversations = [], activeId = None, us_messages = [], typing = [],
      connection = Offline, notifications = perm, us_error = None, recoverable = False\<rparr>"

text \<open>What the browser and the build supply, per engine where it differs.\<close>

record ('a, 'n) Platform =
  pf_sodium :: sodium
  pf_pwhash :: pwhash
  pf_adapter :: "'a StorageAdapter"
  pf_api :: "'n ApiConfig"
  pf_signPair :: "nat \<Rightarrow> nat \<Rightarrow> KeyPair"
  pf_kxPair :: "nat \<Rightarrow> nat \<Rightarrow> KeyPair"
  pf_now :: "nat \<Rightarrow> nat \<Rightarrow> number"
  pf_newId :: "nat \<Rightarrow> nat \<Rightarrow> string"
  pf_socketFault :: "nat \<Rightarrow> error option"
  pf_jitter :: "nat \<Rightarrow> rat"

datatype instr =
    AwaitExists
  | AwaitConversations nat
  | AwaitMessages nat string
  | AwaitOpen nat string
  | AwaitCall nat client_call
  | AwaitPick nat string string
  | AwaitGroup nat string "string list"
  | AwaitFile string string string bytes
  | AwaitCreate string
  | AwaitUnlock string
  | AwaitRegister nat
  | AwaitResume nat
  | AwaitDestroy nat
  | AwaitResetUnlock string
  | AwaitResetDestroy Vault
  | AwaitResetClear
  | AwaitPermission NotificationPermission
  | DoRefreshConversations
  | DoOpen string
  | DoCloseIfOpen string
  | DoSend bool string string
  | DoAttach string string string bytes
  | DoReady string
  | DoConnect nat
  | DoOnboarding app_error
  | DoReset

text \<open>What the code around an \<open>await\<close> does when it throws.\<close>

datatype handler = Unhandled | ShowError | CreateFailed "nat option" | UnlockFailed | ResetFinally

record job =
  todo :: "instr list"
  on_error :: handler

record ('a, 'n) App =
  ui :: ChatState
  mounted :: bool
  clientRef :: "nat option"
  transportRef :: "nat option"
  activeRef :: "string option"
  pendingPassphrase :: "string option"
  typingTimers :: "string \<Rightarrow> nat option"
  pendingTimers :: "(nat \<times> string \<times> number) list"
  timersMade :: nat
  notifier :: Notifier
  jobs :: "job list"
  vaults :: "nat \<Rightarrow> Vault option"
  clients :: "nat \<Rightarrow> ('a device, 'n) ChatClient option"
  transports :: "nat \<Rightarrow> Transport option"
  enginesMade :: nat
  dev :: "'a device"
  world :: 'n
  clock :: number
  focused :: bool
  shown :: "Notification list"


subsection \<open>State of the screen\<close>

definition on_ui :: "(ChatState \<Rightarrow> ChatState) \<Rightarrow> ('a, 'n) App \<Rightarrow> ('a, 'n) App" where
  "on_ui f app = app\<lparr>ui := f (ui app)\<rparr>"

definition show_error :: "app_error \<Rightarrow> ('a, 'n) App \<Rightarrow> ('a, 'n) App" where
  "show_error e = on_ui (\<lambda>s. s\<lparr>us_error := Some e\<rparr>)"

definition clear_error :: "('a, 'n) App \<Rightarrow> ('a, 'n) App" where
  "clear_error = on_ui (\<lambda>s. s\<lparr>us_error := None\<rparr>)"

definition add_job :: "handler \<Rightarrow> instr list \<Rightarrow> ('a, 'n) App \<Rightarrow> ('a, 'n) App" where
  "add_job h is app = app\<lparr>jobs := jobs app @ [\<lparr>todo = is, on_error = h\<rparr>]\<rparr>"

definition refreshConversations :: "('a, 'n) App \<Rightarrow> ('a, 'n) App" where
  "refreshConversations app = (case clientRef app of None \<Rightarrow> app | Some k \<Rightarrow> add_job Unhandled [AwaitConversations k] app)"

definition refreshMessages :: "string \<Rightarrow> ('a, 'n) App \<Rightarrow> ('a, 'n) App" where
  "refreshMessages conv app = (case clientRef app of
     None \<Rightarrow> app
   | Some k \<Rightarrow> if activeRef app \<noteq> Some conv then app else add_job Unhandled [AwaitMessages k conv] app)"

text \<open>\<open>timers\<close> maps a conversation to its last timer; \<open>clearTimeout\<close> of a timer that fired does nothing.\<close>

definition clearTimeout :: "nat option \<Rightarrow> (nat \<times> string \<times> number) list \<Rightarrow> (nat \<times> string \<times> number) list" where
  "clearTimeout t ts = filter (\<lambda>(n, _). t \<noteq> Some n) ts"

definition markTyping :: "string \<Rightarrow> number \<Rightarrow> ('a, 'n) App \<Rightarrow> ('a, 'n) App" where
  "markTyping conv until app =
     (let app = on_ui (\<lambda>s. s\<lparr>typing := set_add conv (typing s)\<rparr>) app; n = timersMade app in
      app\<lparr>pendingTimers := clearTimeout (typingTimers app conv) (pendingTimers app) @ [(n, conv, max 0 (until - clock app))],
          typingTimers := (typingTimers app)(conv \<mapsto> n), timersMade := n + 1\<rparr>)"

definition typing_expired :: "nat \<Rightarrow> ('a, 'n) App \<Rightarrow> ('a, 'n) App" where
  "typing_expired n app =
     (case map_of (pendingTimers app) n of
        None \<Rightarrow> app
      | Some (conv, _) \<Rightarrow>
          on_ui (\<lambda>s. s\<lparr>typing := filter (\<lambda>c. c \<noteq> conv) (typing s)\<rparr>)
            (app\<lparr>pendingTimers := clearTimeout (Some n) (pendingTimers app)\<rparr>))"

subsection \<open>Callbacks of the engine and of the transport\<close>

fun on_event :: "ChatEvent \<Rightarrow> ('a, 'n) App \<Rightarrow> ('a, 'n) App" where
  "on_event (IncomingEvent conv sender body) app =
     (case notify (notifier app) (focused app) sender body of None \<Rightarrow> app | Some n \<Rightarrow> app\<lparr>shown := shown app @ [n]\<rparr>)"
| "on_event (ConversationChanged conv) app = refreshMessages conv app"
| "on_event ConversationsChanged app = refreshConversations app"
| "on_event (TypingEvent conv until) app = markTyping conv until app"
| "on_event (ErrorEvent e) app = show_error (Thrown e) app"

definition connection_of :: "TransportStatus \<Rightarrow> Connection" where
  "connection_of st = (case st of Ready \<Rightarrow> Online | Connecting \<Rightarrow> ConnectingNow | Authenticating \<Rightarrow> ConnectingNow | _ \<Rightarrow> Offline)"

fun on_notice :: "nat \<Rightarrow> notice \<Rightarrow> ('a, 'n) App \<Rightarrow> ('a, 'n) App" where
  "on_notice k (HandlerCall e) app = add_job Unhandled [AwaitCall k (CReceive e)] app"
| "on_notice k (Status st) app = on_ui (\<lambda>s. s\<lparr>connection := connection_of st\<rparr>) app"
| "on_notice k (Failure e) app = show_error (Thrown e) app"
| "on_notice k SocketFault app = show_error SocketEvent app"
| "on_notice k _ app = app"

definition on_transport :: "nat \<Rightarrow> (Transport \<Rightarrow> Transport) \<Rightarrow> ('a, 'n) App \<Rightarrow> ('a, 'n) App" where
  "on_transport k f app =
     (case transports app k of
        None \<Rightarrow> app
      | Some t \<Rightarrow>
          let t' = f t in
          fold (on_notice k) (drop (length (tr_log t)) (tr_log t')) (app\<lparr>transports := (transports app)(k \<mapsto> t')\<rparr>))"

subsection \<open>Engines\<close>

definition engine_options :: "('a, 'n) Platform \<Rightarrow> nat \<Rightarrow> Vault \<Rightarrow> ('a device, 'n) ChatClientOptions" where
  "engine_options P k v =
     \<lparr>dp_sodium = pf_sodium P, dp_vault = vault_ops (pf_sodium P) (pf_adapter P) v, dp_api = pf_api P,
      dp_signPair = pf_signPair P k, dp_kxPair = pf_kxPair P k, dp_now = pf_now P k, dp_newId = pf_newId P k\<rparr>"

fun call_op :: "('d, 'n) ChatClientOptions \<Rightarrow> client_call \<Rightarrow> ('d, 'n, unit) client_op" where
  "call_op E CRegister = sbind (register E) (\<lambda>_. sreturn ())"
| "call_op E CResume = sbind (resume E) (\<lambda>_. sreturn ())"
| "call_op E CReplenish = sbind (replenishPrekeys E) (\<lambda>_. sreturn ())"
| "call_op E (CSendText i body r) = sbind (sendText E i body r) (\<lambda>_. sreturn ())"
| "call_op E (CRetry i m) = retry E i m"
| "call_op E (CSendAttachment i name mime content caption) = sbind (sendAttachment E i name mime content caption) (\<lambda>_. sreturn ())"
| "call_op E (CDeleteMessage i m) = deleteMessage E i m"
| "call_op E (CEditMessage i m body) = editMessage E i m body"
| "call_op E (CReact i m emoji active) = react E i m emoji active"
| "call_op E (CSendTyping i) = sendTyping E i"
| "call_op E (CMarkRead i) = markRead E i"
| "call_op E (CSetVerified i b) = setVerified E i b"
| "call_op E (CAcknowledgeChange i) = acknowledgeIdentityChange E i"
| "call_op E (CSafetyNumber i) = sbind (safetyNumberFor E i) (\<lambda>_. sreturn ())"
| "call_op E (CCreateGroup name ms) = sbind (createGroupConversation E name ms) (\<lambda>_. sreturn ())"
| "call_op E (CUpdateGroup g ch) = sbind (updateGroup E g ch) (\<lambda>_. sreturn ())"
| "call_op E (CSendGroupText g body) = sbind (sendGroupText E g body) (\<lambda>_. sreturn ())"
| "call_op E (CLeaveGroup g) = leaveGroup E g"
| "call_op E (CReceive e) = handleEnvelope E e"
| "call_op E (CStartConversation p name) = sbind (startConversation E p name) (\<lambda>_. sreturn ())"
| "call_op E (CDeleteConversation i) = client_deleteConversation E i"
| "call_op E (CMessages i) = sbind (messages E i) (\<lambda>_. sreturn ())"
| "call_op E CConversations = sbind (conversations E) (\<lambda>_. sreturn ())"
| "call_op E (CAttachment r) = sbind (attachment E r) (\<lambda>_. sreturn ())"
| "call_op E (CGroup g) = sbind (group E g) (\<lambda>_. sreturn ())"
| "call_op E (CAttach t) = attachTransport t"
| "call_op E CDisconnect = (\<lambda>c. (fst (disconnect c), Inr ()))"

text \<open>One call of an engine, on the shared device and network, and the callbacks it made.\<close>

definition on_engine ::
  "('a, 'n) Platform \<Rightarrow> nat \<Rightarrow> (('a device, 'n) ChatClientOptions \<Rightarrow> ('a device, 'n, 'b) client_op) \<Rightarrow>
   ('a, 'n) App \<Rightarrow> ('a, 'n) App \<times> 'b result" where
  "on_engine P k m app =
     (case (vaults app k, clients app k) of
        (Some v, Some c) \<Rightarrow>
          let c0 = c\<lparr>cl_dev := dev app, cl_api := (cl_api c)\<lparr>net := world app\<rparr>\<rparr> in
          (case m (engine_options P k v) c0 of
             (c', r) \<Rightarrow>
               (fold on_event (drop (length (cl_events c0)) (cl_events c'))
                  (app\<lparr>clients := (clients app)(k \<mapsto> c'), dev := cl_dev c', world := net (cl_api c')\<rparr>), r))
      | _ \<Rightarrow> (app, Inl TypeError))"

definition on_device :: "('a device, 'b) effect \<Rightarrow> ('a, 'n) App \<Rightarrow> ('a, 'n) App \<times> 'b result" where
  "on_device m app = (case m (dev app) of (d, r) \<Rightarrow> (app\<lparr>dev := d\<rparr>, r))"

text \<open>\<open>boot\<close> up to its first \<open>await\<close>: the engine is made and becomes the current one.\<close>

definition boot_engine :: "Vault \<Rightarrow> ('a, 'n) App \<Rightarrow> ('a, 'n) App" where
  "boot_engine v app =
     (let k = enginesMade app in
      app\<lparr>vaults := (vaults app)(k \<mapsto> v),
          clients := (clients app)(k \<mapsto> new_ChatClient (dev app) \<lparr>token = None, net = world app\<rparr>),
          clientRef := Some k, enginesMade := k + 1\<rparr>)"

definition connect_engine :: "('a, 'n) Platform \<Rightarrow> nat \<Rightarrow> ('a, 'n) App \<Rightarrow> ('a, 'n) App" where
  "connect_engine P k app =
     (let app = app\<lparr>transports := (transports app)(k \<mapsto> new_Transport), transportRef := Some k,
                    clients := (clients app)(k := map_option (\<lambda>c. fst (attachTransport new_Transport c)) (clients app k))\<rparr>
      in on_transport k (\<lambda>t. fst (connect (pf_socketFault P k) (pf_jitter P k) t)) app)"

subsection \<open>Running\<close>

definition closeConversation :: "('a, 'n) App \<Rightarrow> ('a, 'n) App" where
  "closeConversation app = on_ui (\<lambda>s. s\<lparr>activeId := None, us_messages := []\<rparr>) (app\<lparr>activeRef := None\<rparr>)"

definition reset_state :: "('a, 'n) App \<Rightarrow> ('a, 'n) App" where
  "reset_state app = app\<lparr>pendingPassphrase := None, ui := blank_state Onboarding (permission (notifier app))\<rparr>"

text \<open>The code up to the next \<open>await\<close>.\<close>

fun settle :: "('a, 'n) Platform \<Rightarrow> instr list \<Rightarrow> ('a, 'n) App \<Rightarrow> ('a, 'n) App \<times> (app_error + instr list)" where
  "settle P (DoRefreshConversations # rest) app =
     (case clientRef app of None \<Rightarrow> settle P rest app | Some k \<Rightarrow> (app, Inr (AwaitConversations k # rest)))"
| "settle P (DoOpen conv # rest) app =
     (case clientRef app of
        None \<Rightarrow> settle P rest app
      | Some k \<Rightarrow> (app\<lparr>activeRef := Some conv\<rparr>,
                  Inr (AwaitOpen k conv # AwaitCall k (CMarkRead conv) # DoRefreshConversations # rest)))"
| "settle P (DoCloseIfOpen conv # rest) app =
     settle P rest (if activeRef app = Some conv then closeConversation app else app)"
| "settle P (DoSend isGroup conv body # rest) app =
     (case clientRef app of
        None \<Rightarrow> (app, Inl (Thrown TypeError))
      | Some k \<Rightarrow> (app, Inr (AwaitCall k (if isGroup then CSendGroupText conv body else CSendText conv body None) # rest)))"
| "settle P (DoAttach conv name mime content # rest) app =
     (case clientRef app of
        None \<Rightarrow> (app, Inl (Thrown TypeError))
      | Some k \<Rightarrow> (app, Inr (AwaitCall k (CSendAttachment conv name mime content None) # rest)))"
| "settle P (DoReady account # rest) app =
     settle P rest (on_ui (\<lambda>s. s\<lparr>phase := ReadyPhase, us_accountId := Some account, connection := ConnectingNow\<rparr>) app)"
| "settle P (DoConnect k # rest) app = settle P rest (connect_engine P k app)"
| "settle P (DoOnboarding e # rest) app = settle P rest (on_ui (\<lambda>s. s\<lparr>phase := Onboarding, us_error := Some e\<rparr>) app)"
| "settle P (DoReset # rest) app = settle P rest (reset_state app)"
| "settle P is app = (app, Inr is)"

definition handle_error :: "handler \<Rightarrow> app_error \<Rightarrow> ('a, 'n) App \<Rightarrow> ('a, 'n) App" where
  "handle_error h e app = (case h of
     Unhandled \<Rightarrow> app
   | ShowError \<Rightarrow> show_error e app
   | CreateFailed None \<Rightarrow> on_ui (\<lambda>s. s\<lparr>phase := Onboarding, us_error := Some e\<rparr>) app
   | CreateFailed (Some k) \<Rightarrow> add_job Unhandled [AwaitDestroy k, DoOnboarding e] app
   | UnlockFailed \<Rightarrow>
       on_ui (\<lambda>s. s\<lparr>us_error := Some e, recoverable := (e = NoAccountError)\<rparr>)
         (if e = NoAccountError then app else app\<lparr>pendingPassphrase := None\<rparr>)
   | ResetFinally \<Rightarrow> reset_state app)"

definition run_job :: "('a, 'n) Platform \<Rightarrow> handler \<Rightarrow> instr list \<Rightarrow> ('a, 'n) App \<Rightarrow> ('a, 'n) App" where
  "run_job P h is app = (case settle P is app of
     (app', Inl e) \<Rightarrow> handle_error h e app'
   | (app', Inr []) \<Rightarrow> app'
   | (app', Inr (i # is')) \<Rightarrow> add_job h (i # is') app')"

text \<open>What becomes of the result: an error, or what to do next and under which handler.\<close>

definition with_result ::
  "('a, 'n) App \<times> 'b result \<Rightarrow> ('b \<Rightarrow> ('a, 'n) App \<Rightarrow> ('a, 'n) App \<times> (app_error + instr list \<times> handler)) \<Rightarrow>
   ('a, 'n) App \<times> (app_error + instr list \<times> handler)" where
  "with_result r f = (case r of (app, Inl e) \<Rightarrow> (app, Inl (Thrown e)) | (app, Inr x) \<Rightarrow> f x app)"

text \<open>The promise awaited settles.\<close>

fun complete :: "('a, 'n) Platform \<Rightarrow> instr \<Rightarrow> handler \<Rightarrow> ('a, 'n) App \<Rightarrow> ('a, 'n) App \<times> (app_error + instr list \<times> handler)" where
  "complete P AwaitExists h app = with_result (on_device (vault_exists (pf_adapter P)) app) (\<lambda>there app.
     (if mounted app
      then on_ui (\<lambda>s. s\<lparr>phase := (if there then Unlocking else Onboarding), notifications := permission (notifier app)\<rparr>) app
      else app, Inr ([], h)))"
| "complete P (AwaitConversations k) h app = with_result (on_engine P k conversations app) (\<lambda>cs app.
     (on_ui (\<lambda>s. s\<lparr>us_conversations := cs\<rparr>) app, Inr ([], h)))"
| "complete P (AwaitMessages k conv) h app = with_result (on_engine P k (\<lambda>E. messages E conv) app) (\<lambda>ms app.
     (on_ui (\<lambda>s. s\<lparr>us_messages := ms\<rparr>) app, Inr ([], h)))"
| "complete P (AwaitOpen k conv) h app = with_result (on_engine P k (\<lambda>E. messages E conv) app) (\<lambda>ms app.
     (on_ui (\<lambda>s. s\<lparr>activeId := Some conv, us_messages := ms\<rparr>) app, Inr ([], h)))"
| "complete P (AwaitCall k call) h app = with_result (on_engine P k (\<lambda>E. call_op E call) app) (\<lambda>_ app. (app, Inr ([], h)))"
| "complete P (AwaitPick k conv body) h app = with_result (on_engine P k conversations app) (\<lambda>cs app.
     (app, Inr ([DoSend (Option.bind (find (\<lambda>c. c_id c = conv) cs) c_isGroup = Some True) conv body], h)))"
| "complete P (AwaitGroup k name ms) h app = with_result (on_engine P k (\<lambda>E. createGroupConversation E name ms) app) (\<lambda>g app.
     (app, Inr ([DoRefreshConversations, DoOpen (g_id g)], h)))"
| "complete P (AwaitFile conv name mime content) h app =
     (app, Inr ([DoAttach conv name (if mime = [] then ''application/octet-stream'' else mime) content], h))"
| "complete P (AwaitCreate passphrase) h app =
     with_result (on_device (vault_create (pf_sodium P) (pf_pwhash P) (pf_adapter P) passphrase Moderate) app) (\<lambda>v app.
     (boot_engine v app, Inr ([AwaitRegister (enginesMade app)], CreateFailed (Some (enginesMade app)))))"
| "complete P (AwaitUnlock passphrase) h app =
     with_result (on_device (vault_unlock (pf_sodium P) (pf_pwhash P) (pf_adapter P) passphrase) app) (\<lambda>v app.
     (boot_engine v (app\<lparr>pendingPassphrase := Some passphrase\<rparr>), Inr ([AwaitResume (enginesMade app)], h)))"
| "complete P (AwaitRegister k) h app = with_result (on_engine P k register app) (\<lambda>account app.
     (app, Inr ([DoReady account, DoRefreshConversations, DoConnect k], h)))"
| "complete P (AwaitResume k) h app =
     with_result (on_engine P k (\<lambda>E. sbind (resume E) (\<lambda>found.
        if found then sbind own_account (\<lambda>a. sreturn (Some a)) else sreturn None)) app) (\<lambda>account app.
     case account of
       None \<Rightarrow> (app, Inl NoAccountError)
     | Some a \<Rightarrow> (app, Inr ([DoReady a, DoRefreshConversations, DoConnect k], h)))"
| "complete P (AwaitDestroy k) h app = (case vaults app k of
       None \<Rightarrow> (app, Inr ([], h))
     | Some v \<Rightarrow> (case on_device (vault_destroy (pf_adapter P) v) app of
           (app, Inl _) \<Rightarrow> (app, Inr ([], h))
         | (app, Inr v') \<Rightarrow> (app\<lparr>vaults := (vaults app)(k \<mapsto> v')\<rparr>, Inr ([], h))))"
| "complete P (AwaitResetUnlock passphrase) h app =
     (case on_device (vault_unlock (pf_sodium P) (pf_pwhash P) (pf_adapter P) passphrase) app of
        (app, Inl _) \<Rightarrow> (app, Inr ([AwaitResetClear], h))
      | (app, Inr v) \<Rightarrow> (app, Inr ([AwaitResetDestroy v], h)))"
| "complete P (AwaitResetDestroy v) h app = with_result (on_device (vault_destroy (pf_adapter P) v) app) (\<lambda>_ app. (app, Inr ([DoReset], h)))"
| "complete P AwaitResetClear h app = with_result (on_device (on_adapter (ad_clear (pf_adapter P))) app) (\<lambda>_ app. (app, Inr ([DoReset], h)))"
| "complete P (AwaitPermission reply) h app =
     (let (n, p) = request_permission reply (notifier app)
      in (on_ui (\<lambda>s. s\<lparr>notifications := p\<rparr>) (app\<lparr>notifier := n\<rparr>), Inr ([], h)))"
| "complete P i h app = (app, Inr ([], h))"

definition resume_job :: "('a, 'n) Platform \<Rightarrow> nat \<Rightarrow> ('a, 'n) App \<Rightarrow> ('a, 'n) App" where
  "resume_job P n app =
     (if length (jobs app) \<le> n then app
      else let j = jobs app ! n; app = app\<lparr>jobs := take n (jobs app) @ drop (Suc n) (jobs app)\<rparr> in
        case todo j of
          [] \<Rightarrow> app
        | i # rest \<Rightarrow> (case complete P i (on_error j) app of
              (app, Inl e) \<Rightarrow> handle_error (on_error j) e app
            | (app, Inr (now_do, h)) \<Rightarrow> run_job P h (now_do @ rest) app))"

subsection \<open>Actions\<close>

definition mount :: "('a, 'n) App \<Rightarrow> ('a, 'n) App" where
  "mount app = add_job Unhandled [AwaitExists] (app\<lparr>mounted := True\<rparr>)"

definition close_transport :: "('a, 'n) App \<Rightarrow> ('a, 'n) App" where
  "close_transport app = (case transportRef app of None \<Rightarrow> app | Some k \<Rightarrow> on_transport k close app)"

definition unmount :: "('a, 'n) App \<Rightarrow> ('a, 'n) App" where
  "unmount app =
     close_transport (app\<lparr>mounted := False,
       pendingTimers := filter (\<lambda>(n, conv, _). typingTimers app conv \<noteq> Some n) (pendingTimers app)\<rparr>)"

definition createAccount :: "string \<Rightarrow> ('a, 'n) App \<Rightarrow> ('a, 'n) App" where
  "createAccount passphrase app = add_job (CreateFailed None) [AwaitCreate passphrase] (clear_error app)"

definition unlock :: "string \<Rightarrow> ('a, 'n) App \<Rightarrow> ('a, 'n) App" where
  "unlock passphrase app =
     add_job UnlockFailed [AwaitUnlock passphrase] (on_ui (\<lambda>s. s\<lparr>us_error := None, recoverable := False\<rparr>) app)"

definition resetVault :: "('a, 'n) App \<Rightarrow> ('a, 'n) App" where
  "resetVault app =
     add_job ResetFinally [AwaitResetUnlock (case pendingPassphrase app of None \<Rightarrow> [] | Some p \<Rightarrow> p)] app"

text \<open>\<open>clientRef.current?.disconnect()\<close>: the engine closes the transport it shares with the hook.\<close>

definition disconnect_engine :: "('a, 'n) App \<Rightarrow> ('a, 'n) App" where
  "disconnect_engine app = (case clientRef app of
     None \<Rightarrow> app
   | Some k \<Rightarrow> (case clients app k of
       None \<Rightarrow> app
     | Some c \<Rightarrow> (if cl_transport c = None then app else on_transport k close app)
         \<lparr>clients := (clients app)(k \<mapsto> fst (disconnect c))\<rparr>))"

definition lock :: "('a, 'n) App \<Rightarrow> ('a, 'n) App" where
  "lock app =
     (let app = (close_transport app)\<lparr>transportRef := None\<rparr>;
          app = (disconnect_engine app)\<lparr>clientRef := None, activeRef := None\<rparr>
      in app\<lparr>ui := blank_state Unlocking (permission (notifier app))\<rparr>)"

definition openConversation :: "('a, 'n) Platform \<Rightarrow> string \<Rightarrow> ('a, 'n) App \<Rightarrow> ('a, 'n) App" where
  "openConversation P conv = run_job P Unhandled [DoOpen conv]"

definition startConversation_action :: "string \<Rightarrow> string option \<Rightarrow> ('a, 'n) App \<Rightarrow> ('a, 'n) App" where
  "startConversation_action peer displayName app = (case clientRef app of
     None \<Rightarrow> app
   | Some k \<Rightarrow> add_job ShowError [AwaitCall k (CStartConversation peer displayName), DoRefreshConversations, DoOpen peer] (clear_error app))"

text \<open>\<open>if (!id || !clientRef.current) return\<close>, then one call for the open conversation.\<close>

definition on_active :: "(nat \<Rightarrow> string \<Rightarrow> instr list) \<Rightarrow> ('a, 'n) App \<Rightarrow> ('a, 'n) App" where
  "on_active f app = (case (activeRef app, clientRef app) of
     (Some conv, Some k) \<Rightarrow> if conv = [] then app else add_job Unhandled (f k conv) app
   | _ \<Rightarrow> app)"

definition on_client :: "handler \<Rightarrow> (nat \<Rightarrow> instr list) \<Rightarrow> ('a, 'n) App \<Rightarrow> ('a, 'n) App" where
  "on_client h f app = (case clientRef app of None \<Rightarrow> app | Some k \<Rightarrow> add_job h (f k) app)"

datatype action =
    CreateAccount string
  | Unlock string
  | Lock
  | ResetVault
  | OpenConversation string
  | CloseConversation
  | StartConversation string "string option"
  | SendText string
  | CreateGroup string "string list"
  | LeaveGroup string
  | GroupMembers string
  | SendAttachment string string bytes
  | NotifyTyping
  | Retry string
  | DeleteMessage string
  | EditMessage string string
  | DeleteConversation string
  | AttachmentOf string
  | MessagesFor string
  | React string string bool
  | EnableNotifications NotificationPermission
  | SafetyNumber string
  | SetVerified string bool
  | AcknowledgeIdentityChange string
  | DismissError

fun act :: "('a, 'n) Platform \<Rightarrow> action \<Rightarrow> ('a, 'n) App \<Rightarrow> ('a, 'n) App" where
  "act P (CreateAccount passphrase) app = createAccount passphrase app"
| "act P (Unlock passphrase) app = unlock passphrase app"
| "act P Lock app = lock app"
| "act P ResetVault app = resetVault app"
| "act P (OpenConversation conv) app = openConversation P conv app"
| "act P CloseConversation app = closeConversation app"
| "act P (StartConversation peer name) app = startConversation_action peer name app"
| "act P (SendText body) app = on_active (\<lambda>k conv. [AwaitPick k conv body]) app"
| "act P (CreateGroup name ms) app =
     (if clientRef app = None then app else on_client ShowError (\<lambda>k. [AwaitGroup k name ms]) (clear_error app))"
| "act P (LeaveGroup g) app = on_client Unhandled (\<lambda>k. [AwaitCall k (CLeaveGroup g), DoCloseIfOpen g, DoRefreshConversations]) app"
| "act P (GroupMembers g) app = on_client Unhandled (\<lambda>k. [AwaitCall k (CGroup g)]) app"
| "act P (SendAttachment name mime content) app = on_active (\<lambda>k conv. [AwaitFile conv name mime content]) app"
| "act P NotifyTyping app = on_active (\<lambda>k conv. [AwaitCall k (CSendTyping conv)]) app"
| "act P (Retry m) app = on_active (\<lambda>k conv. [AwaitCall k (CRetry conv m)]) app"
| "act P (DeleteMessage m) app = on_active (\<lambda>k conv. [AwaitCall k (CDeleteMessage conv m)]) app"
| "act P (EditMessage m body) app = on_active (\<lambda>k conv. [AwaitCall k (CEditMessage conv m body)]) app"
| "act P (DeleteConversation conv) app =
     on_client Unhandled (\<lambda>k. [AwaitCall k (CDeleteConversation conv), DoCloseIfOpen conv, DoRefreshConversations]) app"
| "act P (AttachmentOf r) app = on_client Unhandled (\<lambda>k. [AwaitCall k (CAttachment r)]) app"
| "act P (MessagesFor conv) app = on_client Unhandled (\<lambda>k. [AwaitCall k (CMessages conv)]) app"
| "act P (React m emoji active) app = on_active (\<lambda>k conv. [AwaitCall k (CReact conv m emoji active)]) app"
| "act P (EnableNotifications reply) app = add_job Unhandled [AwaitPermission reply] app"
| "act P (SafetyNumber conv) app = on_client Unhandled (\<lambda>k. [AwaitCall k (CSafetyNumber conv)]) app"
| "act P (SetVerified conv b) app = on_client Unhandled (\<lambda>k. [AwaitCall k (CSetVerified conv b), DoRefreshConversations]) app"
| "act P (AcknowledgeIdentityChange conv) app =
     on_client Unhandled (\<lambda>k. [AwaitCall k (CAcknowledgeChange conv), DoRefreshConversations]) app"
| "act P DismissError app = clear_error app"

text \<open>
  Everything that can happen next: the user acts, a promise settles, a typing indicator times out,
  something happens to a transport, time passes, the window gains or loses the focus, the network
  changes, the page goes away.
\<close>

datatype 'n app_input =
    Act action
  | Settles nat
  | TypingTimeout nat
  | TransportInput nat input
  | Tick number
  | Focus bool
  | World 'n
  | Unmount

fun app_step :: "('a, 'n) Platform \<Rightarrow> 'n app_input \<Rightarrow> ('a, 'n) App \<Rightarrow> ('a, 'n) App" where
  "app_step P (Act a) app = act P a app"
| "app_step P (Settles n) app = resume_job P n app"
| "app_step P (TypingTimeout n) app = typing_expired n app"
| "app_step P (TransportInput k i) app = on_transport k (transport_step i) app"
| "app_step P (Tick t) app = app\<lparr>clock := t\<rparr>"
| "app_step P (Focus b) app = app\<lparr>focused := b\<rparr>"
| "app_step P (World w) app = app\<lparr>world := w\<rparr>"
| "app_step P Unmount app = unmount app"

definition new_App :: "'a device \<Rightarrow> 'n \<Rightarrow> number \<Rightarrow> Notifier \<Rightarrow> ('a, 'n) App" where
  "new_App d w t n = mount
     \<lparr>ui = blank_state Loading None, mounted = False, clientRef = None, transportRef = None, activeRef = None,
      pendingPassphrase = None, typingTimers = Map.empty, pendingTimers = [], timersMade = 0, notifier = n, jobs = [],
      vaults = Map.empty, clients = Map.empty, transports = Map.empty, enginesMade = 0, dev = d, world = w, clock = t,
      focused = True, shown = []\<rparr>"

inductive app_reach :: "('a, 'n) Platform \<Rightarrow> ('a, 'n) App \<Rightarrow> bool" for P where
  start: "app_reach P (new_App d w t n)"
| step: "app_reach P app \<Longrightarrow> app_reach P (app_step P i app)"

fun app_run :: "('a, 'n) Platform \<Rightarrow> 'n app_input list \<Rightarrow> ('a, 'n) App \<Rightarrow> ('a, 'n) App" where
  "app_run P [] app = app"
| "app_run P (i # is) app = app_run P is (app_step P i app)"

end
