(* ===== verification/App_Spec.thy ===== *)
theory App_Spec
  imports App
begin

section \<open>What the application shows\<close>

text \<open>
  Properties of every interleaving of the application: typing indicators always expire, the state
  of a locked application stays blank when nothing was in flight, a failed registration leaves no
  vault, and two races: a read in flight refills the state of a locked application, and two
  overlapping reads leave one conversation on the screen and the other one addressed.
\<close>

subsection \<open>What a step can do without a promise settling\<close>

text \<open>
  The callbacks of engines and transports reach the state of the application through a few operations.
  A property these keep, and that does not depend on engines, vaults, transports, device, network or
  clock, is kept by every callback and by every call of an engine.
\<close>

definition same_screen :: "('a, 'n) App \<Rightarrow> ('a, 'n) App \<Rightarrow> bool" where
  "same_screen app app' \<longleftrightarrow> ui app' = ui app \<and> mounted app' = mounted app \<and> clientRef app' = clientRef app \<and>
     typingTimers app' = typingTimers app \<and> pendingTimers app' = pendingTimers app \<and> timersMade app' = timersMade app \<and>
     jobs app' = jobs app"

lemma fold_keeps: "(\<And>x app. I app \<Longrightarrow> I (f x app)) \<Longrightarrow> I app \<Longrightarrow> I (fold f xs app)"
  by (induction xs arbitrary: app) auto

locale screen_property =
  fixes I :: "('a, 'n) App \<Rightarrow> bool"
  assumes same: "I app \<Longrightarrow> same_screen app app' \<Longrightarrow> I app'"
    and show_error: "I app \<Longrightarrow> I (show_error e app)"
    and show_connection: "I app \<Longrightarrow> I (on_ui (\<lambda>s. s\<lparr>connection := x\<rparr>) app)"
    and refreshConversations: "I app \<Longrightarrow> I (refreshConversations app)"
    and refreshMessages: "I app \<Longrightarrow> I (refreshMessages conv app)"
    and markTyping: "I app \<Longrightarrow> I (markTyping conv until app)"
    and receive: "I app \<Longrightarrow> I (add_job Unhandled [AwaitCall k (CReceive env)] app)"
begin

lemma event: "I app \<Longrightarrow> I (on_event e app)"
  by (cases e) (auto simp: same_screen_def split: option.split intro: same show_error refreshConversations refreshMessages markTyping)

lemma notice: "I app \<Longrightarrow> I (on_notice k n app)"
  by (cases n) (auto intro: show_error show_connection receive)

lemma transport:
  assumes "I app"
  shows "I (on_transport k f app)"
proof (cases "transports app k")
  case (Some t)
  have "I (app\<lparr>transports := (transports app)(k \<mapsto> f t)\<rparr>)" using assms by (rule same) (simp add: same_screen_def)
  then show ?thesis using Some by (simp add: on_transport_def Let_def fold_keeps [where I = I] notice)
qed (use assms in \<open>simp add: on_transport_def\<close>)

lemma connect:
  assumes "I app"
  shows "I (connect_engine P k app)"
  unfolding connect_engine_def Let_def by (rule transport, rule same [OF assms]) (simp add: same_screen_def)

lemma device: "I app \<Longrightarrow> on_device m app = (app', r) \<Longrightarrow> I app'"
  by (auto simp: on_device_def same_screen_def split: prod.splits intro: same)

lemma engine:
  assumes "I app" "on_engine P k m app = (app', r)"
  shows "I app'"
proof -
  have "I (fold on_event es (app\<lparr>clients := cs, dev := d, world := w\<rparr>))" for es cs d w
  proof (rule fold_keeps [where I = I])
    show "I (app\<lparr>clients := cs, dev := d, world := w\<rparr>)" using assms(1) by (rule same) (simp add: same_screen_def)
  qed (rule event)
  then show ?thesis using assms by (auto simp: on_engine_def Let_def split: option.splits prod.splits)
qed

end

subsection \<open>Typing indicators\<close>

definition typing_ok :: "('a, 'n) App \<Rightarrow> bool" where
  "typing_ok app \<longleftrightarrow>
     (mounted app \<longrightarrow> (\<forall>c\<in>set (typing (ui app)). \<exists>n d. typingTimers app c = Some n \<and> (n, c, d) \<in> set (pendingTimers app))) \<and>
     (\<forall>(n, c, d)\<in>set (pendingTimers app). typingTimers app c = Some n) \<and>
     (\<forall>c n. typingTimers app c = Some n \<longrightarrow> n < timersMade app) \<and>
     (\<forall>c c' n. typingTimers app c = Some n \<longrightarrow> typingTimers app c' = Some n \<longrightarrow> c = c') \<and>
     distinct (map fst (pendingTimers app))"

lemma typing_ok_fields [simp]:
  "typing_ok (app\<lparr>clientRef := a\<rparr>) = typing_ok app"
  "typing_ok (app\<lparr>transportRef := a\<rparr>) = typing_ok app"
  "typing_ok (app\<lparr>activeRef := b\<rparr>) = typing_ok app"
  "typing_ok (app\<lparr>pendingPassphrase := b\<rparr>) = typing_ok app"
  "typing_ok (app\<lparr>notifier := nt\<rparr>) = typing_ok app"
  "typing_ok (app\<lparr>jobs := js\<rparr>) = typing_ok app"
  "typing_ok (app\<lparr>vaults := vs\<rparr>) = typing_ok app"
  "typing_ok (app\<lparr>clients := cs\<rparr>) = typing_ok app"
  "typing_ok (app\<lparr>transports := ts\<rparr>) = typing_ok app"
  "typing_ok (app\<lparr>enginesMade := m\<rparr>) = typing_ok app"
  "typing_ok (app\<lparr>dev := d\<rparr>) = typing_ok app"
  "typing_ok (app\<lparr>world := w\<rparr>) = typing_ok app"
  "typing_ok (app\<lparr>clock := x\<rparr>) = typing_ok app"
  "typing_ok (app\<lparr>focused := f\<rparr>) = typing_ok app"
  "typing_ok (app\<lparr>shown := sh\<rparr>) = typing_ok app"
  by (simp_all add: typing_ok_def)

lemma typing_ok_ui: "typing_ok app \<Longrightarrow> set (typing s) \<subseteq> set (typing (ui app)) \<Longrightarrow> typing_ok (app\<lparr>ui := s\<rparr>)"
  unfolding typing_ok_def by auto

lemma typing_ok_on_ui: "typing_ok app \<Longrightarrow> (\<And>s. set (typing (f s)) \<subseteq> set (typing s)) \<Longrightarrow> typing_ok (on_ui f app)"
  by (simp add: on_ui_def typing_ok_ui)

lemma typing_ok_markTyping:
  assumes "typing_ok app"
  shows "typing_ok (markTyping conv until app)"
proof -
  let ?n = "timersMade app" and ?kept = "clearTimeout (typingTimers app conv) (pendingTimers app)"
  have other: "c \<noteq> conv" if "(n, c, d) \<in> set ?kept" for n c d
    using that assms by (auto simp: clearTimeout_def typing_ok_def)
  have kept: "set ?kept \<subseteq> set (pendingTimers app)" by (auto simp: clearTimeout_def)
  have less: "n < ?n" if "(n, c, d) \<in> set (pendingTimers app)" for n c d
    using that assms by (auto simp: typing_ok_def)
  have stays: "(n, c, d) \<in> set ?kept" if "(n, c, d) \<in> set (pendingTimers app)" "c \<noteq> conv" for n c d
  proof -
    have "typingTimers app c = Some n" using that(1) assms by (auto simp: typing_ok_def)
    then have "typingTimers app conv \<noteq> Some n" using that(2) assms unfolding typing_ok_def by blast
    then show ?thesis using that by (auto simp: clearTimeout_def)
  qed
  let ?app = "markTyping conv until app"
  have f: "mounted ?app = mounted app" "typing (ui ?app) = set_add conv (typing (ui app))"
    "typingTimers ?app = (typingTimers app)(conv \<mapsto> ?n)" "timersMade ?app = Suc ?n"
    "pendingTimers ?app = ?kept @ [(?n, conv, max 0 (until - clock app))]"
    by (simp_all add: markTyping_def on_ui_def Let_def)
  have "\<exists>n d. typingTimers ?app c = Some n \<and> (n, c, d) \<in> set (pendingTimers ?app)"
    if m: "mounted app" and c: "c \<in> set (typing (ui ?app))" for c
  proof (cases "c = conv")
    case False
    then have "c \<in> set (typing (ui app))" using c f(2) by (auto simp: set_add_def split: if_splits)
    then obtain n d where "typingTimers app c = Some n" "(n, c, d) \<in> set (pendingTimers app)"
      using m assms unfolding typing_ok_def by blast
    then show ?thesis using False stays unfolding f by auto
  qed (auto simp: f)
  moreover have "typingTimers ?app c = Some n" if "(n, c, d) \<in> set (pendingTimers ?app)" for n c d
    using that other kept assms unfolding f typing_ok_def by fastforce
  moreover have "n < timersMade ?app" if "typingTimers ?app c = Some n" for n c
    using that assms unfolding f typing_ok_def by (auto split: if_splits intro: less_SucI)
  moreover have "c = c'" if "typingTimers ?app c = Some n" "typingTimers ?app c' = Some n" for c c' n
    using that assms unfolding f typing_ok_def by (auto split: if_splits)
  moreover have "distinct (map fst (pendingTimers ?app))"
    using assms less [THEN less_imp_neq] kept unfolding f
    by (fastforce simp: typing_ok_def clearTimeout_def distinct_map_filter)
  ultimately show ?thesis unfolding typing_ok_def f(1) by fast
qed

lemma typing_ok_expired: "typing_ok app \<Longrightarrow> typing_ok (typing_expired n app)"
proof (cases "map_of (pendingTimers app) n")
  case (Some x)
  assume ok: "typing_ok app"
  obtain conv d where x: "x = (conv, d)" by (cases x)
  have "(n, conv, d) \<in> set (pendingTimers app)" using Some x map_of_SomeD by fast
  then have n: "typingTimers app conv = Some n" using ok by (auto simp: typing_ok_def)
  let ?app = "typing_expired n app"
  have f: "mounted ?app = mounted app" "typing (ui ?app) = filter (\<lambda>c. c \<noteq> conv) (typing (ui app))"
    "typingTimers ?app = typingTimers app" "timersMade ?app = timersMade app" "pendingTimers ?app = clearTimeout (Some n) (pendingTimers app)"
    using Some x by (simp_all add: typing_expired_def on_ui_def)
  have "\<exists>k d. typingTimers app c = Some k \<and> (k, c, d) \<in> set (clearTimeout (Some n) (pendingTimers app))"
    if m: "mounted app" and c: "c \<in> set (typing (ui app))" "c \<noteq> conv" for c
  proof -
    obtain k d where k: "typingTimers app c = Some k" "(k, c, d) \<in> set (pendingTimers app)" using m c ok unfolding typing_ok_def by blast
    then have "k \<noteq> n" using n c(2) ok unfolding typing_ok_def by blast
    then show ?thesis using k by (auto simp: clearTimeout_def)
  qed
  then show ?thesis using ok unfolding typing_ok_def f
    by (auto simp: clearTimeout_def distinct_map_filter)
qed (simp add: typing_expired_def)

text \<open>Every part of a step keeps the invariant.\<close>

lemma typing_ok_screen [simp]:
  "typing_ok (show_error e app) = typing_ok app"
  "typing_ok (clear_error app) = typing_ok app"
  "typing_ok (closeConversation app) = typing_ok app"
  "typing_ok (add_job h is app) = typing_ok app"
  "typing_ok (refreshConversations app) = typing_ok app"
  "typing_ok (refreshMessages conv app) = typing_ok app"
  "typing_ok (boot_engine v app) = typing_ok app"
  "typing_ok (on_client h f app) = typing_ok app"
  "typing_ok (on_active g app) = typing_ok app"
  by (simp_all add: show_error_def clear_error_def closeConversation_def on_ui_def add_job_def refreshConversations_def
      refreshMessages_def boot_engine_def on_client_def on_active_def Let_def split: option.split)
    (simp_all add: typing_ok_def)

interpretation typing_screen: screen_property typing_ok
proof unfold_locales
  fix app app' :: "('a, 'n) App" assume "typing_ok app" "same_screen app app'"
  then show "typing_ok app'" by (simp add: typing_ok_def same_screen_def)
qed (simp_all add: typing_ok_markTyping typing_ok_on_ui)

lemma typing_ok_reset: "typing_ok app \<Longrightarrow> typing_ok (reset_state app)"
  unfolding reset_state_def by (simp add: typing_ok_ui blank_state_def)

lemma typing_ok_settle: "typing_ok app \<Longrightarrow> typing_ok (fst (settle P is app))"
  by (induction P "is" app rule: settle.induct)
    (simp_all add: typing_screen.connect typing_ok_reset typing_ok_on_ui split: option.split)

lemma typing_ok_handle: "typing_ok app \<Longrightarrow> typing_ok (handle_error h e app)"
  by (auto simp: handle_error_def typing_ok_reset split: handler.split option.split intro: typing_ok_on_ui)

lemma typing_ok_run_job: "typing_ok app \<Longrightarrow> typing_ok (run_job P h is app)"
  using typing_ok_settle [of app P "is"]
  by (auto simp: run_job_def typing_ok_handle split: prod.split sum.split list.split)

lemma typing_ok_complete: "typing_ok app \<Longrightarrow> typing_ok (fst (complete P i h app))"
  by (cases i)
    (auto simp: Let_def with_result_def split: option.split prod.split sum.split
      intro!: typing_ok_on_ui dest: typing_screen.device typing_screen.engine)

lemma typing_ok_resume: "typing_ok app \<Longrightarrow> typing_ok (resume_job P n app)"
proof -
  assume "typing_ok app"
  then have "typing_ok (fst (complete P i h (app\<lparr>jobs := js\<rparr>)))" for i h js by (simp add: typing_ok_complete)
  then have "complete P i h (app\<lparr>jobs := js\<rparr>) = (app', r) \<Longrightarrow> typing_ok app'" for i h js app' r by (metis fst_conv)
  with \<open>typing_ok app\<close> show ?thesis
    by (auto simp: resume_job_def Let_def typing_ok_handle typing_ok_run_job split: list.split prod.split sum.split)
qed

lemma typing_ok_close: "typing_ok app \<Longrightarrow> typing_ok (close_transport app)"
  by (simp add: close_transport_def typing_screen.transport split: option.split)

lemma typing_ok_unmount: "typing_ok app \<Longrightarrow> typing_ok (unmount app)"
  unfolding unmount_def by (rule typing_ok_close) (auto simp: typing_ok_def distinct_map_filter)

lemma typing_ok_lock: "typing_ok app \<Longrightarrow> typing_ok (lock app)"
  unfolding lock_def Let_def disconnect_engine_def
  by (rule typing_ok_ui) (auto simp: typing_ok_close typing_screen.transport blank_state_def split: option.split)

lemma typing_ok_step: "typing_ok app \<Longrightarrow> typing_ok (app_step P i app)"
proof (cases i)
  case (Act a)
  assume "typing_ok app"
  then show ?thesis using Act
    by (cases a) (simp_all add: createAccount_def unlock_def resetVault_def typing_ok_lock openConversation_def typing_ok_run_job
        startConversation_action_def typing_ok_on_ui split: option.split)
qed (simp_all add: typing_ok_resume typing_ok_expired typing_screen.transport typing_ok_unmount)

lemma typing_ok_new: "typing_ok (new_App d w t n)"
  by (simp add: new_App_def mount_def) (simp add: typing_ok_def blank_state_def)

lemma typing_ok_reach: "app_reach P app \<Longrightarrow> typing_ok app"
  by (induction rule: app_reach.induct) (simp_all add: typing_ok_new typing_ok_step)

lemma indicator_expires:
  assumes "typing_ok app" "mounted app" "conv \<in> set (typing (ui app))"
  shows "\<exists>n delay. (n, conv, delay) \<in> set (pendingTimers app) \<and> conv \<notin> set (typing (ui (typing_expired n app)))"
proof -
  obtain n d where n: "(n, conv, d) \<in> set (pendingTimers app)" using assms by (auto simp: typing_ok_def)
  moreover have "map_of (pendingTimers app) n = Some (conv, d)" using assms(1) n by (simp add: typing_ok_def)
  ultimately show ?thesis by (intro exI [of _ n] exI [of _ d]) (simp add: typing_expired_def on_ui_def)
qed

subsection \<open>The locked application\<close>

text \<open>Instructions that neither wait for decrypted data to show nor open a vault.\<close>

fun calm :: "instr \<Rightarrow> bool" where
  "calm (AwaitConversations k) = False"
| "calm (AwaitMessages k conv) = False"
| "calm (AwaitOpen k conv) = False"
| "calm (AwaitCreate p) = False"
| "calm (AwaitUnlock p) = False"
| "calm (AwaitRegister k) = False"
| "calm (AwaitResume k) = False"
| "calm (DoReady a) = False"
| "calm _ = True"

definition calm_jobs :: "('a, 'n) App \<Rightarrow> bool" where
  "calm_jobs app \<longleftrightarrow> list_all (\<lambda>j. list_all calm (todo j)) (jobs app)"

definition blank_ok :: "('a, 'n) App \<Rightarrow> bool" where
  "blank_ok app \<longleftrightarrow> clientRef app = None \<and> phase (ui app) \<noteq> ReadyPhase \<and> us_conversations (ui app) = [] \<and>
     us_messages (ui app) = [] \<and> calm_jobs app"

lemma blank_ok_on_ui:
  "blank_ok app \<Longrightarrow> (\<And>s. phase s \<noteq> ReadyPhase \<Longrightarrow> phase (f s) \<noteq> ReadyPhase) \<Longrightarrow>
   (\<And>s. us_conversations s = [] \<Longrightarrow> us_conversations (f s) = []) \<Longrightarrow> (\<And>s. us_messages s = [] \<Longrightarrow> us_messages (f s) = []) \<Longrightarrow>
   blank_ok (on_ui f app)"
  by (simp add: blank_ok_def on_ui_def calm_jobs_def)

lemma blank_ok_add_job: "blank_ok app \<Longrightarrow> list_all calm is \<Longrightarrow> blank_ok (add_job h is app)"
  by (simp add: blank_ok_def add_job_def calm_jobs_def)

lemma blank_ok_no_client: "blank_ok app \<Longrightarrow> clientRef app = None"
  by (simp add: blank_ok_def)

lemma blank_ok_fields [simp]:
  "blank_ok (app\<lparr>activeRef := a\<rparr>) = blank_ok app"
  "blank_ok (app\<lparr>pendingPassphrase := b\<rparr>) = blank_ok app"
  "blank_ok (app\<lparr>notifier := nt\<rparr>) = blank_ok app"
  "blank_ok (app\<lparr>vaults := vs\<rparr>) = blank_ok app"
  "blank_ok (app\<lparr>clock := x\<rparr>) = blank_ok app"
  "blank_ok (app\<lparr>focused := y\<rparr>) = blank_ok app"
  "blank_ok (app\<lparr>world := w\<rparr>) = blank_ok app"
  by (simp_all add: blank_ok_def calm_jobs_def)

interpretation blank_screen: screen_property blank_ok
proof unfold_locales
  fix app app' :: "('a, 'n) App" assume "blank_ok app" "same_screen app app'"
  then show "blank_ok app'" by (simp add: blank_ok_def same_screen_def calm_jobs_def)
next
  fix app :: "('a, 'n) App" and conv until assume "blank_ok app"
  then show "blank_ok (markTyping conv until app)" by (simp add: blank_ok_def markTyping_def on_ui_def calm_jobs_def Let_def)
qed (simp_all add: show_error_def blank_ok_on_ui blank_ok_add_job refreshConversations_def refreshMessages_def blank_ok_no_client)

lemma blank_ok_reset: "blank_ok app \<Longrightarrow> blank_ok (reset_state app)"
  by (simp add: blank_ok_def reset_state_def blank_state_def calm_jobs_def)

lemma blank_ok_close: "blank_ok app \<Longrightarrow> blank_ok (closeConversation app)"
  unfolding closeConversation_def by (rule blank_ok_on_ui) simp_all

lemma blank_ok_settle:
  "blank_ok app \<Longrightarrow> list_all calm is \<Longrightarrow>
   blank_ok (fst (settle P is app)) \<and> pred_sum (\<lambda>_. True) (list_all calm) (snd (settle P is app))"
  by (induction P "is" app rule: settle.induct)
    (simp_all add: blank_ok_no_client blank_screen.connect blank_ok_reset blank_ok_on_ui blank_ok_close)

lemma blank_ok_handle:
  assumes "blank_ok app"
  shows "blank_ok (handle_error h e app)"
proof (cases h)
  case (CreateFailed k)
  then show ?thesis using assms by (cases k) (simp_all add: handle_error_def blank_ok_on_ui blank_ok_add_job)
qed (use assms in \<open>simp_all add: handle_error_def blank_ok_reset blank_screen.show_error blank_ok_on_ui\<close>)

lemma blank_ok_run_job:
  assumes "blank_ok app" "list_all calm is"
  shows "blank_ok (run_job P h is app)"
  using blank_ok_settle [OF assms, of P]
  by (cases "settle P is app") (auto simp: run_job_def blank_ok_handle blank_ok_add_job split: sum.split list.split)

lemma blank_ok_result:
  assumes "blank_ok (fst r)" "\<And>x app. blank_ok app \<Longrightarrow> blank_ok (fst (f x app)) \<and> pred_sum (\<lambda>_. True) (\<lambda>(is', h'). list_all calm is') (snd (f x app))"
  shows "blank_ok (fst (with_result r f)) \<and> pred_sum (\<lambda>_. True) (\<lambda>(is', h'). list_all calm is') (snd (with_result r f))"
  using assms by (cases r; cases "snd r") (auto simp: with_result_def)

lemma blank_ok_engine: "blank_ok app \<Longrightarrow> blank_ok (fst (on_engine P k m app))"
  using blank_screen.engine by (metis prod.collapse)

lemma blank_ok_device: "blank_ok app \<Longrightarrow> blank_ok (fst (on_device m app))"
  using blank_screen.device by (metis prod.collapse)

lemma blank_ok_complete:
  assumes "blank_ok app" "calm i"
  shows "blank_ok (fst (complete P i h app)) \<and> pred_sum (\<lambda>_. True) (\<lambda>(is', h'). list_all calm is') (snd (complete P i h app))"
proof (cases i)
  case (AwaitDestroy k)
  then show ?thesis using assms blank_ok_device [OF assms(1)]
    by (auto split: option.split prod.split sum.split dest: blank_screen.device)
next
  case (AwaitResetUnlock p)
  then show ?thesis using assms by (auto split: prod.split sum.split dest: blank_screen.device)
next
  case AwaitExists
  then show ?thesis using assms(1) by (simp only: complete.simps, intro blank_ok_result blank_ok_device) (simp_all add: blank_ok_on_ui)
next
  case (AwaitPermission reply)
  then show ?thesis using assms(1) by (auto simp: blank_ok_on_ui split: prod.split)
qed (use assms in \<open>simp_all add: blank_ok_result blank_ok_engine blank_ok_device\<close>)

lemma blank_ok_resume:
  assumes "blank_ok app"
  shows "blank_ok (resume_job P n app)"
proof (cases "n < length (jobs app)")
  case True
  let ?j = "jobs app ! n" and ?app = "app\<lparr>jobs := take n (jobs app) @ drop (Suc n) (jobs app)\<rparr>"
  have "calm_jobs app" using assms by (simp add: blank_ok_def)
  then have j: "list_all calm (todo ?j)" and "calm_jobs ?app"
    using True by (auto simp: calm_jobs_def list_all_iff dest: in_set_takeD in_set_dropD)
  then have app: "blank_ok ?app" using assms by (simp add: blank_ok_def)
  show ?thesis
  proof (cases "todo ?j")
    case Nil
    then show ?thesis using True app by (simp add: resume_job_def Let_def)
  next
    case (Cons i rest)
    then have "calm i" "list_all calm rest" using j by simp_all
    then show ?thesis using True Cons blank_ok_complete [OF app, of i P "on_error ?j"]
      by (cases "complete P i (on_error ?j) ?app")
        (auto simp: resume_job_def Let_def blank_ok_handle blank_ok_run_job split: sum.split prod.split)
  qed
qed (use assms in \<open>simp add: resume_job_def\<close>)

fun opens_vault :: "'n app_input \<Rightarrow> bool" where
  "opens_vault (Act (CreateAccount p)) = True"
| "opens_vault (Act (Unlock p)) = True"
| "opens_vault _ = False"

lemma close_logs: "\<exists>ns. tr_log (close t) = tr_log t @ ns \<and> (\<forall>n\<in>set ns. (\<exists>k. n = CloseSocket k) \<or> n = Status Closed)"
  by (auto simp: close_def Let_def note_log_def status_def split: option.split)

lemma closing_notices: "\<forall>n\<in>set ns. (\<exists>k. n = CloseSocket k) \<or> n = Status Closed \<Longrightarrow> jobs (fold (on_notice k) ns app) = jobs app"
  by (induction ns arbitrary: app) (auto simp: on_ui_def)

lemma close_keeps_jobs: "jobs (on_transport k close app) = jobs app"
proof (cases "transports app k")
  case (Some t)
  obtain ns where "tr_log (close t) = tr_log t @ ns" "\<forall>n\<in>set ns. (\<exists>k. n = CloseSocket k) \<or> n = Status Closed"
    using close_logs by blast
  then show ?thesis using Some by (simp add: on_transport_def closing_notices)
qed (simp add: on_transport_def)

lemma lock_simps:
  "clientRef (lock app) = None" "activeRef (lock app) = None" "jobs (lock app) = jobs app"
  "ui (lock app) = blank_state Unlocking (permission (notifier (lock app)))"
  by (simp_all add: lock_def Let_def disconnect_engine_def close_transport_def close_keeps_jobs split: option.split)

lemma blank_ok_lock: "calm_jobs app \<Longrightarrow> blank_ok (lock app)"
  by (simp add: blank_ok_def calm_jobs_def lock_simps) (simp add: blank_state_def)

lemma blank_ok_unmount: "blank_ok app \<Longrightarrow> blank_ok (unmount app)"
  unfolding unmount_def close_transport_def
  by (auto simp: blank_ok_def calm_jobs_def split: option.split intro!: blank_screen.transport [unfolded blank_ok_def calm_jobs_def])

lemma blank_ok_expired: "blank_ok app \<Longrightarrow> blank_ok (typing_expired n app)"
  by (auto simp: typing_expired_def on_ui_def blank_ok_def calm_jobs_def split: option.split)

lemma blank_ok_step:
  assumes "blank_ok app" "\<not> opens_vault i"
  shows "blank_ok (app_step P i app)"
proof (cases i)
  case (Act a)
  show ?thesis
  proof (cases a)
    case Lock
    moreover have "calm_jobs app" using assms(1) by (simp add: blank_ok_def)
    ultimately show ?thesis using Act by (simp add: blank_ok_lock)
  qed (use Act assms blank_ok_no_client [OF assms(1)] in
      \<open>simp_all add: resetVault_def openConversation_def startConversation_action_def on_client_def on_active_def blank_ok_run_job
        blank_ok_add_job blank_ok_close clear_error_def blank_ok_on_ui split: option.split\<close>)
qed (use assms in \<open>simp_all add: blank_ok_resume blank_ok_expired blank_screen.transport blank_ok_unmount\<close>)

lemma blank_ok_run: "blank_ok app \<Longrightarrow> list_all (\<lambda>i. \<not> opens_vault i) is \<Longrightarrow> blank_ok (app_run P is app)"
  by (induction "is" arbitrary: app) (simp_all add: blank_ok_step)

subsection \<open>Calls of an engine\<close>

lemma event_keeps [simp]:
  "vaults (on_event e app) = vaults app" "dev (on_event e app) = dev app" "enginesMade (on_event e app) = enginesMade app"
  by (cases e; simp add: refreshMessages_def refreshConversations_def add_job_def markTyping_def on_ui_def show_error_def Let_def
      split: option.split)+

lemma events_keep [simp]:
  "vaults (fold on_event es app) = vaults app" "dev (fold on_event es app) = dev app"
  by (induction es arbitrary: app) simp_all

lemma close_keeps [simp]:
  "vaults (on_transport k f app) = vaults app" "clients (on_transport k f app) = clients app" "dev (on_transport k f app) = dev app"
  "notifier (on_transport k f app) = notifier app"
proof -
  have n: "vaults (on_notice k n x) = vaults x" "clients (on_notice k n x) = clients x" "dev (on_notice k n x) = dev x"
    "notifier (on_notice k n x) = notifier x" for n and x :: "('a, 'b) App"
    by (cases n; simp add: add_job_def on_ui_def show_error_def)+
  have "vaults (fold (on_notice k) ns x) = vaults x" "clients (fold (on_notice k) ns x) = clients x"
    "dev (fold (on_notice k) ns x) = dev x" "notifier (fold (on_notice k) ns x) = notifier x" for ns and x :: "('a, 'b) App"
    by (induction ns arbitrary: x) (simp_all add: n)
  then show "vaults (on_transport k f app) = vaults app" "clients (on_transport k f app) = clients app"
    "dev (on_transport k f app) = dev app" "notifier (on_transport k f app) = notifier app"
    by (simp_all add: on_transport_def Let_def split: option.split)
qed

lemma lock_keeps:
  "vaults (lock app) = vaults app" "dev (lock app) = dev app" "notifier (lock app) = notifier app"
  "clients app k = Some c \<Longrightarrow> \<exists>c'. clients (lock app) k = Some c'"
  by (auto simp: lock_def Let_def disconnect_engine_def close_transport_def split: option.split)

text \<open>Reading a history with an engine whose vault holds the typed data \<open>M\<close>.\<close>

definition holds :: "('a, 'n) Platform \<Rightarrow> ('a \<Rightarrow> bool) \<Rightarrow> ('a \<Rightarrow> string \<Rightarrow> bytes option) \<Rightarrow> nat \<Rightarrow> chat_model \<Rightarrow> ('a, 'n) App \<Rightarrow> bool" where
  "holds P invar view k M app \<longleftrightarrow> (\<exists>v c. vaults app k = Some v \<and> clients app k = Some c \<and>
     chat_state (vault_good (pf_sodium P) (pf_adapter P) invar view v) (vault_recs (pf_sodium P) view v) (dev app) M)"

lemma read_messages:
  assumes "holds P invar view k M app"
  obtains cs d where "on_engine P k (\<lambda>E. messages E conv) app = (app\<lparr>clients := cs, dev := d\<rparr>, Inr (oldest_first (cm_hist M conv)))"
    "holds P invar view k M (app\<lparr>clients := cs, dev := d\<rparr>)"
proof -
  obtain v c where v: "vaults app k = Some v" "clients app k = Some c"
    "chat_state (vault_good (pf_sodium P) (pf_adapter P) invar view v) (vault_recs (pf_sodium P) view v) (dev app) M"
    using assms by (auto simp: holds_def)
  obtain d where d: "listMessages (vault_ops (pf_sodium P) (pf_adapter P) v) conv (dev app) = (d, Inr (oldest_first (cm_hist M conv)))"
    "chat_state (vault_good (pf_sodium P) (pf_adapter P) invar view v) (vault_recs (pf_sodium P) view v) d M"
    using v(3) sealed_vault.listMessages_impl by (meson implementsE)
  let ?c = "c\<lparr>cl_api := (cl_api c)\<lparr>net := world app\<rparr>, cl_dev := d\<rparr>"
  have "on_engine P k (\<lambda>E. messages E conv) app
      = (app\<lparr>clients := (clients app)(k \<mapsto> ?c), dev := d\<rparr>, Inr (oldest_first (cm_hist M conv)))"
    using v(1,2) d(1) by (simp add: on_engine_def messages_def on_store_def engine_options_def)
  then show thesis using v(1) d(2) by (intro that [of d "(clients app)(k \<mapsto> ?c)"]) (auto simp: holds_def)
qed

lemma holds_fields [simp]:
  "holds P invar view k M (app\<lparr>jobs := js\<rparr>) = holds P invar view k M app"
  "holds P invar view k M (app\<lparr>activeRef := x\<rparr>) = holds P invar view k M app"
  "holds P invar view k M (app\<lparr>ui := y\<rparr>) = holds P invar view k M app"
  by (simp_all add: holds_def)

lemma holds_lock: "holds P invar view k M app \<Longrightarrow> holds P invar view k M (lock app)"
  unfolding holds_def using lock_keeps by metis

text \<open>A read that was started for any conversation ends on the screen, whatever is shown by then.\<close>

lemma settle_refresh:
  assumes "holds P invar view k M app" "n < length (jobs app)" "jobs app ! n = \<lparr>todo = [AwaitMessages k conv], on_error = h\<rparr>"
  shows "ui (app_step P (Settles n) app) = (ui app)\<lparr>us_messages := oldest_first (cm_hist M conv)\<rparr>"
proof -
  let ?app = "app\<lparr>jobs := take n (jobs app) @ drop (Suc n) (jobs app)\<rparr>"
  obtain cs d where "on_engine P k (\<lambda>E. messages E conv) ?app = (?app\<lparr>clients := cs, dev := d\<rparr>, Inr (oldest_first (cm_hist M conv)))"
    using assms(1) read_messages [of P invar view k M ?app conv] by (metis holds_fields(1))
  then show ?thesis using assms(2,3) by (simp add: resume_job_def Let_def with_result_def run_job_def on_ui_def)
qed

lemma settle_open:
  assumes "holds P invar view k M app" "clientRef app = Some k'" "n < length (jobs app)"
    "jobs app ! n = \<lparr>todo = [AwaitOpen k conv, AwaitCall k (CMarkRead conv), DoRefreshConversations], on_error = h\<rparr>"
  obtains app' where "app_step P (Settles n) app = app'" "holds P invar view k M app'" "clientRef app' = clientRef app"
    "activeRef app' = activeRef app" "ui app' = (ui app)\<lparr>activeId := Some conv, us_messages := oldest_first (cm_hist M conv)\<rparr>"
    "jobs app' = take n (jobs app) @ drop (Suc n) (jobs app)
       @ [\<lparr>todo = [AwaitCall k (CMarkRead conv), DoRefreshConversations], on_error = h\<rparr>]"
proof -
  let ?app = "app\<lparr>jobs := take n (jobs app) @ drop (Suc n) (jobs app)\<rparr>"
  have "holds P invar view k M ?app" using assms(1) by simp
  then obtain cs d where c: "on_engine P k (\<lambda>E. messages E conv) ?app = (?app\<lparr>clients := cs, dev := d\<rparr>, Inr (oldest_first (cm_hist M conv)))"
    "holds P invar view k M (?app\<lparr>clients := cs, dev := d\<rparr>)" by (rule read_messages)
  then have "holds P invar view k M (app\<lparr>clients := cs, dev := d\<rparr>)" by (simp add: holds_def)
  then show thesis using assms(3,4) c(1)
    by (intro that [OF refl]) (simp_all add: resume_job_def Let_def with_result_def run_job_def on_ui_def add_job_def)
qed

subsection \<open>Properties\<close>

text \<open>
  Claim C37. A typing indicator never stays on: in every reachable state of the page, for every
  conversation shown as typing a timer is pending, and when it fires the conversation is not shown as
  typing any more, however many typing messages came before and whatever else was going on; and a
  typing event turns the indicator on, again with such a timer.
\<close>

theorem typing_indicators_expire:
  assumes "app_reach P app" "mounted app"
  shows "list_all (\<lambda>c. \<exists>n delay. (n, c, delay) \<in> set (pendingTimers app) \<and>
       c \<notin> set (typing (ui (app_step P (TypingTimeout n) app)))) (typing (ui app)) \<and>
     (let app' = on_event (TypingEvent conv until) app in conv \<in> set (typing (ui app')) \<and>
       (\<exists>n delay. (n, conv, delay) \<in> set (pendingTimers app') \<and> conv \<notin> set (typing (ui (app_step P (TypingTimeout n) app')))))"
proof -
  have ok: "typing_ok app" using assms(1) by (rule typing_ok_reach)
  have "mounted (markTyping conv until app)" "conv \<in> set (typing (ui (markTyping conv until app)))"
    using assms(2) by (simp_all add: markTyping_def on_ui_def Let_def set_add_def)
  then show ?thesis
    using indicator_expires [OF ok assms(2)] indicator_expires [OF typing_ok_markTyping [OF ok]] by (simp add: list_all_iff)
qed

text \<open>
  Claim C33. Locking drops the decrypted data and it stays dropped: when the application is locked
  while no call for decrypted data and no login is in flight, then whatever happens afterwards (late
  callbacks of the old engine and transport, other calls settling in any order, timers, user actions)
  the state holds no conversation and no message and the application is not ready, until the user
  unlocks or creates an account.
\<close>

theorem locked_state_stays_blank:
  assumes "calm_jobs app" "list_all (\<lambda>i. \<not> opens_vault i) is"
  shows "us_conversations (ui (app_run P is (lock app))) = [] \<and> us_messages (ui (app_run P is (lock app))) = [] \<and>
     phase (ui (app_run P is (lock app))) \<noteq> ReadyPhase \<and> clientRef (app_run P is (lock app)) = None"
  using blank_ok_run [OF blank_ok_lock [OF assms(1)] assms(2), of P] by (simp add: blank_ok_def)

text \<open>
  Claim C35. Without that condition it does not: a refresh of the open conversation that is in flight
  when the application is locked puts the decrypted history back into the state of the locked
  application, because \<open>lock\<close> leaves the vault key in memory and \<open>refreshMessages\<close> checks what is
  open only before it reads.
\<close>

theorem locked_state_refilled:
  assumes "holds P invar view k M app" "n < length (jobs app)"
    and "jobs app ! n = \<lparr>todo = [AwaitMessages k conv], on_error = Unhandled\<rparr>"
  shows "phase (ui (app_run P [Act Lock, Settles n] app)) = Unlocking \<and>
     us_messages (ui (app_run P [Act Lock, Settles n] app)) = oldest_first (cm_hist M conv)"
proof -
  have "ui (app_step P (Settles n) (lock app)) = (ui (lock app))\<lparr>us_messages := oldest_first (cm_hist M conv)\<rparr>"
    using settle_refresh [OF holds_lock [OF assms(1)]] assms(2,3) by (simp add: lock_simps)
  then show ?thesis by (simp add: lock_simps) (simp add: blank_state_def)
qed

text \<open>
  Claim C34. A message can go to a conversation that is not on the screen: when the user opens \<open>a\<close> and
  then \<open>b\<close> and the read of \<open>b\<close> settles before that of \<open>a\<close>, the screen shows \<open>a\<close> and its
  history as the open conversation while everything the user types is sent to \<open>b\<close>.
\<close>

theorem shown_and_addressed_differ:
  assumes "holds P invar view k M app" "clientRef app = Some k" "b \<noteq> []"
  shows "\<exists>app'. app_run P [Act (OpenConversation a), Act (OpenConversation b), Settles (Suc (length (jobs app))),
       Settles (length (jobs app))] app = app' \<and> activeId (ui app') = Some a \<and> us_messages (ui app') = oldest_first (cm_hist M a) \<and>
     last (jobs (app_step P (Act (SendText body)) app')) = \<lparr>todo = [AwaitPick k b body], on_error = Unhandled\<rparr>"
proof -
  let ?job = "\<lambda>conv. \<lparr>todo = [AwaitOpen k conv, AwaitCall k (CMarkRead conv), DoRefreshConversations], on_error = Unhandled\<rparr>"
  let ?n = "length (jobs app)" and ?app = "app\<lparr>activeRef := Some b, jobs := jobs app @ [?job a, ?job b]\<rparr>"
  have two: "app_run P [Act (OpenConversation a), Act (OpenConversation b)] app = ?app"
    using assms(2) by (simp add: openConversation_def run_job_def add_job_def)
  have "holds P invar view k M ?app" "clientRef ?app = Some k" "Suc ?n < length (jobs ?app)" "jobs ?app ! Suc ?n = ?job b"
    using assms by (simp_all add: nth_append)
  then obtain app1 where app1: "app_step P (Settles (Suc ?n)) ?app = app1" "holds P invar view k M app1" "clientRef app1 = Some k"
    "activeRef app1 = Some b"
    "jobs app1 = take (Suc ?n) (jobs ?app) @ drop (Suc (Suc ?n)) (jobs ?app)
       @ [\<lparr>todo = [AwaitCall k (CMarkRead b), DoRefreshConversations], on_error = Unhandled\<rparr>]"
    by (rule settle_open) (use assms(2) in simp)
  have "?n < length (jobs app1)" "jobs app1 ! ?n = ?job a" unfolding app1(5) by (simp_all add: nth_append)
  with app1(2,3) obtain app2 where app2: "app_step P (Settles ?n) app1 = app2" "clientRef app2 = clientRef app1" "activeRef app2 = activeRef app1"
    "ui app2 = (ui app1)\<lparr>activeId := Some a, us_messages := oldest_first (cm_hist M a)\<rparr>"
    by (rule settle_open)
  have "app_run P [Act (OpenConversation a), Act (OpenConversation b), Settles (Suc ?n), Settles ?n] app = app2"
    using two app1(1) app2(1) by simp
  then show ?thesis using app2(2-4) app1(3,4) assms(3) by (auto simp: on_active_def add_job_def)
qed


subsection \<open>A concrete application\<close>

definition demo_platform :: "(entries, demo_server) Platform" where
  "demo_platform =
     \<lparr>pf_sodium = demo_sodium, pf_pwhash = demo_pwhash, pf_adapter = MemoryAdapter, pf_api = demo_api,
      pf_signPair = (\<lambda>_ _. demo_sign_pair 1), pf_kxPair = (\<lambda>_ k. demo_pair (of_nat k)), pf_now = (\<lambda>_. of_nat),
      pf_newId = (\<lambda>_ k. ''m'' @ show_nat k), pf_socketFault = (\<lambda>_. None), pf_jitter = (\<lambda>_. 0)\<rparr>"

lemma demo_engine: "engine_options demo_platform k demo_vault = demo_options"
  by (simp add: engine_options_def demo_platform_def demo_options_def)

definition demo_app :: "entries device \<Rightarrow> job list \<Rightarrow> (entries, demo_server) App" where
  "demo_app d js = (new_App d idle_server 0 (new_Notifier None None))
     \<lparr>clientRef := Some 0, vaults := [0 \<mapsto> demo_vault], clients := [0 \<mapsto> demo_client], enginesMade := 1, jobs := js\<rparr>"

lemma demo_app_simps [simp]:
  "jobs (demo_app d js) = js" "clientRef (demo_app d js) = Some 0" "dev (demo_app d js) = d"
  "vaults (demo_app d js) 0 = Some demo_vault" "clients (demo_app d js) 0 = Some demo_client"
  by (simp_all add: demo_app_def new_App_def mount_def add_job_def)

lemma demo_holds: "\<exists>d. \<forall>js. holds demo_platform distinct_keys map_of 0 (append_model demo_note empty_model) (demo_app d js)"
proof -
  have "message_ok demo_note" using num_ok_of_nat [of 5] by (simp add: demo_note_def message_ok_def)
  with demo_client_data obtain d where
    "client_data (vault_good demo_sodium MemoryAdapter distinct_keys map_of demo_vault) (vault_recs demo_sodium map_of demo_vault)
      demo_sodium (demo_client\<lparr>cl_dev := d\<rparr>) (append_model demo_note empty_model)"
    by (rule sealed_vault.append_data)
  then show ?thesis by (intro exI [of _ d]) (simp add: holds_def client_data_def demo_platform_def)
qed

lemma demo_history: "oldest_first (cm_hist (append_model demo_note empty_model) ''alice'') = [demo_note]"
  by (simp add: append_model_def on_convs_def on_hist_def append_history_def empty_model_def demo_note_def oldest_first_def js_sort_def)

theorem typing_indicators_expire_witness:
  "\<exists>n delay. (n, ''bob'', delay) \<in>
     set (pendingTimers (on_event (TypingEvent ''bob'' 9) (new_App demo_device idle_server 0 (new_Notifier None None))))"
proof -
  have "mounted (new_App demo_device idle_server 0 (new_Notifier None None))" by (simp add: new_App_def mount_def add_job_def)
  from typing_indicators_expire [OF app_reach.start this, of demo_platform "''bob''" 9] show ?thesis by (auto simp: Let_def)
qed

theorem locked_state_stays_blank_witness:
  "us_messages (ui (app_run demo_platform [Act (OpenConversation ''bob''), Settles 0, TransportInput 0 CloseCall]
     (lock (demo_app demo_device [\<lparr>todo = [AwaitCall 0 (CMarkRead ''bob'')], on_error = Unhandled\<rparr>])))) = []"
  using locked_state_stays_blank [of "demo_app demo_device [\<lparr>todo = [AwaitCall 0 (CMarkRead ''bob'')], on_error = Unhandled\<rparr>]"
      "[Act (OpenConversation ''bob''), Settles 0, TransportInput 0 CloseCall]" demo_platform]
  by (simp add: calm_jobs_def)

theorem locked_state_refilled_witness:
  "\<exists>d. us_messages (ui (app_run demo_platform [Act Lock, Settles 0]
     (demo_app d [\<lparr>todo = [AwaitMessages 0 ''alice''], on_error = Unhandled\<rparr>]))) = [demo_note]"
proof -
  obtain d where "\<forall>js. holds demo_platform distinct_keys map_of 0 (append_model demo_note empty_model) (demo_app d js)"
    using demo_holds by blast
  then show ?thesis using locked_state_refilled [of demo_platform distinct_keys map_of 0 "append_model demo_note empty_model"
        "demo_app d [\<lparr>todo = [AwaitMessages 0 ''alice''], on_error = Unhandled\<rparr>]" 0 "''alice''"] demo_history
    by (intro exI [of _ d]) simp
qed

theorem shown_and_addressed_differ_witness:
  "\<exists>d app'. app_run demo_platform [Act (OpenConversation ''alice''), Act (OpenConversation ''bob''), Settles 1, Settles 0] (demo_app d [])
     = app' \<and> activeId (ui app') = Some ''alice'' \<and> us_messages (ui app') = [demo_note]"
proof -
  obtain d where "\<forall>js. holds demo_platform distinct_keys map_of 0 (append_model demo_note empty_model) (demo_app d js)"
    using demo_holds by blast
  then show ?thesis using shown_and_addressed_differ [of demo_platform distinct_keys map_of 0 "append_model demo_note empty_model"
        "demo_app d []" "''bob''" "''alice''"] demo_history by (intro exI [of _ d]) simp
qed

definition offline_platform :: "(entries, demo_server) Platform" where
  "offline_platform = demo_platform\<lparr>pf_api := new_ApiClient ''/'' (\<lambda>rq n. (n, Inl (NetworkError ''offline'')))\<rparr>"

definition throws :: "('s, 'b) effect \<Rightarrow> bool" where
  "throws m \<longleftrightarrow> (\<forall>c. \<exists>e. snd (m c) = Inl e)"

lemma throws_bind:
  assumes "throws m \<or> (\<forall>x. throws (f x))"
  shows "throws (sbind m f)"
  unfolding throws_def
proof
  fix c
  obtain c' r where m: "m c = (c', r)" by (cases "m c")
  show "\<exists>e. snd (sbind m f c) = Inl e"
  proof (cases r)
    case (Inr x)
    then have "throws (f x)" using assms m unfolding throws_def by (metis Inl_Inr_False snd_conv)
    then show ?thesis using m Inr by (simp add: throws_def sbind_def)
  qed (simp add: m sbind_def)
qed

lemmas throws_first = throws_bind [OF disjI1]
lemmas throws_later = throws_bind [OF disjI2, OF allI]

lemma register_offline: "throws (register (engine_options offline_platform k v))"
proof -
  let ?E = "engine_options offline_platform k v"
  have "throws (request (dp_api ?E) verb path body False)" for verb path body
    by (simp add: throws_def request_def engine_options_def offline_platform_def new_ApiClient_def)
  then have "throws (api_register (dp_sodium ?E) (dp_api ?E) i spk keys)" for i spk keys
    unfolding api_register_def by (intro throws_later [of _ "slift _"] throws_first)
  then have "throws (on_api (api_register (dp_sodium ?E) (dp_api ?E) i spk keys))" for i spk keys
    by (simp add: throws_def on_api_def split: prod.split) (metis snd_conv)
  then show ?thesis unfolding register_def Let_def
    by (intro throws_later [of _ "draw_sign _"] throws_later [of _ "draw_kx _"] throws_later [of _ "slift _"]
        throws_later [of _ "draw_prekeys _ _ _"] throws_first)
qed


end
