(* ===== verification/Screens.thy ===== *)
theory Screens
  imports App_Spec
begin

section \<open>Forms and panels (\<open>components/*.tsx\<close>, \<open>app/page.tsx\<close>)\<close>

text \<open>
  The state the components keep and the handlers that change it; what they render is modelled only
  where it decides what the user can do. A handler returns the new state and the calls it makes of
  the actions it was given. Texts are UTF-16 code units, as in \<open>Search\<close>.
\<close>

subsection \<open>Composer\<close>

definition TYPING_THROTTLE_MS :: number where "TYPING_THROTTLE_MS = 3000"

record ComposerState =
  cp_draft :: units
  cp_lastTypingAt :: number

definition new_Composer :: ComposerState where
  "new_Composer = \<lparr>cp_draft = [], cp_lastTypingAt = 0\<rparr>"

datatype composer_call = OnSend units | OnTyping

definition composer_submit :: "ComposerState \<Rightarrow> ComposerState \<times> composer_call list" where
  "composer_submit c =
     (let body = trim_text (cp_draft c) in if body = [] then (c, []) else (c\<lparr>cp_draft := []\<rparr>, [OnSend body]))"

definition handleKeyDown :: "string \<Rightarrow> bool \<Rightarrow> ComposerState \<Rightarrow> ComposerState \<times> composer_call list" where
  "handleKeyDown key shift c = (if key = ''Enter'' \<and> \<not> shift then composer_submit c else (c, []))"

definition handleChange :: "units \<Rightarrow> number \<Rightarrow> ComposerState \<Rightarrow> ComposerState \<times> composer_call list" where
  "handleChange text_now at_time c =
     (let c = c\<lparr>cp_draft := text_now\<rparr> in
      if text_now \<noteq> [] \<and> at_time - cp_lastTypingAt c > TYPING_THROTTLE_MS then (c\<lparr>cp_lastTypingAt := at_time\<rparr>, [OnTyping])
      else (c, []))"

datatype composer_input = Change units number | KeyDown string bool | SubmitForm

fun composer_step :: "composer_input \<Rightarrow> ComposerState \<Rightarrow> ComposerState \<times> composer_call list" where
  "composer_step (Change t at_time) c = handleChange t at_time c"
| "composer_step (KeyDown key shift) c = handleKeyDown key shift c"
| "composer_step SubmitForm c = composer_submit c"

text \<open>the calls of a run, each with the time of the change that caused it.\<close>

fun input_time :: "composer_input \<Rightarrow> number" where
  "input_time (Change t at_time) = at_time"
| "input_time _ = 0"

fun composer_run :: "composer_input list \<Rightarrow> ComposerState \<Rightarrow> (number \<times> composer_call) list" where
  "composer_run [] c = []"
| "composer_run (i # is) c = (case composer_step i c of (c', outs) \<Rightarrow> map (Pair (input_time i)) outs @ composer_run is c')"

subsection \<open>Unlock screen\<close>

definition MIN_PASSPHRASE_LENGTH :: nat where "MIN_PASSPHRASE_LENGTH = 10"

datatype local_error = TooShort | NoMatch

record UnlockForm =
  uf_passphrase :: units
  uf_confirmation :: units
  uf_busy :: bool
  uf_localError :: "local_error option"

datatype unlock_call = OnCreate units | OnUnlock units

definition unlock_submit :: "bool \<Rightarrow> UnlockForm \<Rightarrow> UnlockForm \<times> unlock_call option" where
  "unlock_submit creating f =
     (let f = f\<lparr>uf_localError := None\<rparr> in
      if creating \<and> length (uf_passphrase f) < MIN_PASSPHRASE_LENGTH then (f\<lparr>uf_localError := Some TooShort\<rparr>, None)
      else if creating \<and> uf_passphrase f \<noteq> uf_confirmation f then (f\<lparr>uf_localError := Some NoMatch\<rparr>, None)
      else (f\<lparr>uf_busy := True\<rparr>, Some (if creating then OnCreate (uf_passphrase f) else OnUnlock (uf_passphrase f))))"

text \<open>The \<open>finally\<close> block.\<close>

definition unlock_settled :: "UnlockForm \<Rightarrow> UnlockForm" where
  "unlock_settled f = f\<lparr>uf_busy := False, uf_passphrase := [], uf_confirmation := []\<rparr>"

subsection \<open>Conversation list\<close>

datatype adding = AddingDirect | AddingGroup

datatype form_error = NotAnAccount | NeedsName | BadMember units | NeedsMember

record ListForm =
  lf_adding :: "adding option"
  lf_peerId :: units
  lf_name :: units
  lf_groupName :: units
  lf_groupMembers :: units
  lf_error :: "form_error option"

datatype list_call = OnStart string "units option" | OnCreateGroup units "string list"

definition list_submit :: "ListForm \<Rightarrow> ListForm \<times> list_call option" where
  "list_submit f =
     (case normalizeAccountId (lf_peerId f) of
        None \<Rightarrow> (f\<lparr>lf_error := Some NotAnAccount\<rparr>, None)
      | Some peer \<Rightarrow>
          (f\<lparr>lf_peerId := [], lf_name := [], lf_error := None, lf_adding := None\<rparr>,
           Some (OnStart peer (let n = trim_text (lf_name f) in if n = [] then None else Some n))))"

text \<open>\<open>split(/\n+/)\<close>, \<open>acc\<close> being the line read so far.\<close>

function split_lines :: "units \<Rightarrow> units \<Rightarrow> units list" where
  "split_lines acc [] = [acc]"
| "split_lines acc (u # us) =
     (if u = 10 then acc # split_lines [] (dropWhile (\<lambda>x. x = 10) us) else split_lines (acc @ [u]) us)"
  by pat_completeness auto

termination split_lines
  by (relation "measure (\<lambda>(_, us). length us)") (auto simp: length_dropWhile_le less_Suc_eq_le)

fun member_ids :: "units list \<Rightarrow> form_error + string list" where
  "member_ids [] = Inr []"
| "member_ids (line # rest) =
     (if trim_text line = [] then member_ids rest
      else case normalizeAccountId line of
             None \<Rightarrow> Inl (BadMember (take 16 (trim_text line)))
           | Some i \<Rightarrow> (case member_ids rest of Inl e \<Rightarrow> Inl e | Inr ids \<Rightarrow> Inr (i # ids)))"

definition list_submitGroup :: "ListForm \<Rightarrow> ListForm \<times> list_call option" where
  "list_submitGroup f =
     (if trim_text (lf_groupName f) = [] then (f\<lparr>lf_error := Some NeedsName\<rparr>, None)
      else case member_ids (split_lines [] (lf_groupMembers f)) of
             Inl e \<Rightarrow> (f\<lparr>lf_error := Some e\<rparr>, None)
           | Inr ids \<Rightarrow>
               if ids = [] then (f\<lparr>lf_error := Some NeedsMember\<rparr>, None)
               else (f\<lparr>lf_groupName := [], lf_groupMembers := [], lf_error := None, lf_adding := None\<rparr>,
                     Some (OnCreateGroup (trim_text (lf_groupName f)) ids)))"

definition toggle_adding :: "adding \<Rightarrow> ListForm \<Rightarrow> ListForm" where
  "toggle_adding a f = f\<lparr>lf_adding := (if lf_adding f = Some a then None else Some a)\<rparr>"

subsection \<open>Conversation view\<close>

definition visible_messages :: "unicode \<Rightarrow> units \<Rightarrow> StoredMessage list \<Rightarrow> StoredMessage list" where
  "visible_messages U query ms = (if trim_text query \<noteq> [] then map hit_message (searchMessages U ms query) else ms)"

subsection \<open>Message bubble\<close>

record Bubble =
  bb_editing :: bool
  bb_picking :: bool
  bb_draft :: units

definition new_Bubble :: "StoredMessage \<Rightarrow> Bubble" where
  "new_Bubble m = \<lparr>bb_editing = False, bb_picking = False, bb_draft = utf16 (m_body m)\<rparr>"

definition bubble_save :: "StoredMessage \<Rightarrow> Bubble \<Rightarrow> Bubble \<times> units option" where
  "bubble_save m b =
     (let trimmed = trim_text (bb_draft b) in
      (b\<lparr>bb_editing := False\<rparr>, if trimmed \<noteq> [] \<and> trimmed \<noteq> utf16 (m_body m) then Some trimmed else None))"

definition bubble_cancel :: "StoredMessage \<Rightarrow> Bubble \<Rightarrow> Bubble" where
  "bubble_cancel m b = b\<lparr>bb_draft := utf16 (m_body m), bb_editing := False\<rparr>"

text \<open>A click on a reaction: \<open>onReact(id, emoji, !mine)\<close>.\<close>

definition reaction_click :: "string option \<Rightarrow> StoredMessage \<Rightarrow> string \<Rightarrow> string \<times> string \<times> bool" where
  "reaction_click self m emoji =
     (let accounts = (case m_reactions m of None \<Rightarrow> [] | Some rs \<Rightarrow> (case map_of rs emoji of None \<Rightarrow> [] | Some as \<Rightarrow> as));
          mine = (case self of None \<Rightarrow> False | Some me \<Rightarrow> me \<in> set accounts)
      in (m_id m, emoji, \<not> mine))"

definition offers_retry :: "StoredMessage \<Rightarrow> bool" where
  "offers_retry m \<longleftrightarrow> \<not> is_deleted m \<and> m_direction m = Outgoing \<and> m_status m = Failed"

definition offers_delete :: "Bubble \<Rightarrow> StoredMessage \<Rightarrow> bool" where
  "offers_delete b m \<longleftrightarrow> \<not> is_deleted m \<and> m_direction m = Outgoing \<and> \<not> bb_editing b \<and> m_status m \<noteq> Failed"

definition offers_edit :: "Bubble \<Rightarrow> StoredMessage \<Rightarrow> bool" where
  "offers_edit b m \<longleftrightarrow> offers_delete b m \<and> m_attachment m = None"

subsection \<open>Safety panel\<close>

text \<open>
  The effect runs again whenever the conversation or \<open>open\<close> changes; its clean-up cancels the run
  before. A load carries the number of the run that started it. The panel has no key of its own, so
  it stays when the conversation changes.
\<close>

record SafetyPanel =
  sp_conversation :: string
  sp_open :: bool
  sp_digits :: "string option"
  sp_effect :: "nat option"
  sp_runs :: nat
  sp_loads :: "(nat \<times> string) list"

definition new_SafetyPanel :: "string \<Rightarrow> SafetyPanel" where
  "new_SafetyPanel conv =
     \<lparr>sp_conversation = conv, sp_open = False, sp_digits = None, sp_effect = None, sp_runs = 0, sp_loads = []\<rparr>"

definition run_effect :: "SafetyPanel \<Rightarrow> SafetyPanel" where
  "run_effect p =
     (if \<not> sp_open p then p\<lparr>sp_effect := None\<rparr>
      else p\<lparr>sp_effect := Some (sp_runs p), sp_runs := sp_runs p + 1, sp_loads := sp_loads p @ [(sp_runs p, sp_conversation p)]\<rparr>)"

definition toggle_open :: "SafetyPanel \<Rightarrow> SafetyPanel" where
  "toggle_open p = run_effect (p\<lparr>sp_open := \<not> sp_open p\<rparr>)"

definition change_conversation :: "string \<Rightarrow> SafetyPanel \<Rightarrow> SafetyPanel" where
  "change_conversation conv p = (if conv = sp_conversation p then p else run_effect (p\<lparr>sp_conversation := conv\<rparr>))"

text \<open>\<open>None\<close> as the outcome: the promise is rejected, and nothing handles it.\<close>

definition load_settled :: "nat \<Rightarrow> string option option \<Rightarrow> SafetyPanel \<Rightarrow> SafetyPanel" where
  "load_settled n outcome p =
     (let q = p\<lparr>sp_loads := filter (\<lambda>(m, _). m \<noteq> n) (sp_loads p)\<rparr> in
      case outcome of
        None \<Rightarrow> q
      | Some digits \<Rightarrow> if sp_effect q = Some n then q\<lparr>sp_digits := digits\<rparr> else q)"

definition is_verified :: "Conversation \<Rightarrow> bool" where
  "is_verified c \<longleftrightarrow> c_verifiedIdentityKey c \<noteq> None \<and> c_verifiedIdentityKey c = c_peerIdentityKey c"

text \<open>The button, disabled without digits: \<open>onSetVerified(conversation.id, !verified)\<close>.\<close>

definition verify_click :: "Conversation \<Rightarrow> SafetyPanel \<Rightarrow> (string \<times> bool) option" where
  "verify_click c p =
     (if sp_open p \<and> sp_digits p \<noteq> None \<and> sp_digits p \<noteq> Some [] then Some (c_id c, \<not> is_verified c) else None)"

subsection \<open>The page\<close>

datatype home_view =
    Splash
  | UnlockView Phase "app_error option" bool
  | MainView "Conversation list" "Conversation option" "StoredMessage list" bool

definition active_conversation :: "ChatState \<Rightarrow> Conversation option" where
  "active_conversation s = find (\<lambda>c. activeId s = Some (c_id c)) (us_conversations s)"

definition home_view_of :: "ChatState \<Rightarrow> home_view" where
  "home_view_of s = (case phase s of
     Loading \<Rightarrow> Splash
   | ReadyPhase \<Rightarrow> MainView (us_conversations s) (active_conversation s) (us_messages s)
       (case activeId s of None \<Rightarrow> False | Some i \<Rightarrow> i \<noteq> [] \<and> i \<in> set (typing s))
   | p \<Rightarrow> UnlockView p (us_error s) (recoverable s))"

text \<open>The last message per conversation, \<open>load\<close> being what \<open>messagesFor\<close> returns.\<close>

definition previews_of :: "(string \<Rightarrow> StoredMessage list) \<Rightarrow> ChatState \<Rightarrow> (string \<times> StoredMessage option) list" where
  "previews_of load s =
     foldl (\<lambda>acc c. let ms = (if activeId s = Some (c_id c) then us_messages s else load (c_id c))
                    in AList.update (c_id c) (if ms = [] then None else Some (last ms)) acc) [] (us_conversations s)"

text \<open>The effect: outside the ready phase the previews stay as they are.\<close>

definition previews_effect ::
  "(string \<Rightarrow> StoredMessage list) \<Rightarrow> ChatState \<Rightarrow> (string \<times> StoredMessage option) list \<Rightarrow> (string \<times> StoredMessage option) list" where
  "previews_effect load s old = (if phase s \<noteq> ReadyPhase then old else previews_of load s)"

subsection \<open>Properties\<close>

text \<open>The times of the typing signals of a run.\<close>

definition typing_signals :: "(number \<times> composer_call) list \<Rightarrow> number list" where
  "typing_signals outs = map fst (filter (\<lambda>(_, k). k = OnTyping) outs)"

lemma typing_signals_simps [simp]:
  "typing_signals [] = []" "typing_signals ((t, OnTyping) # outs) = t # typing_signals outs"
  "typing_signals ((t, OnSend b) # outs) = typing_signals outs"
  by (simp_all add: typing_signals_def)

lemma signals_follow_last:
  "successively (\<lambda>a b. b - a > TYPING_THROTTLE_MS) (cp_lastTypingAt c # typing_signals (composer_run is c))"
proof (induction "is" arbitrary: c)
  case (Cons i "is")
  have submit: "successively (\<lambda>a b. b - a > TYPING_THROTTLE_MS) (cp_lastTypingAt c # typing_signals
      (case composer_submit c of (c', outs) \<Rightarrow> map (Pair t) outs @ composer_run is c'))" for t
    using Cons [of c] Cons [of "c\<lparr>cp_draft := []\<rparr>"] by (simp add: composer_submit_def Let_def)
  show ?case
  proof (cases i)
    case (Change v t)
    then show ?thesis using Cons [of "c\<lparr>cp_draft := v\<rparr>"] Cons [of "c\<lparr>cp_draft := v, cp_lastTypingAt := t\<rparr>"]
      by (simp add: handleChange_def Let_def)
  next
    case (KeyDown key shift)
    then show ?thesis using submit [of 0] Cons [of c] by (simp add: handleKeyDown_def)
  next
    case SubmitForm
    then show ?thesis using submit [of 0] by simp
  qed
qed simp

lemma trim_nonempty_ends: "trim_text t \<noteq> [] \<Longrightarrow> \<not> is_space (hd (trim_text t)) \<and> \<not> is_space (last (trim_text t))"
proof -
  assume ne: "trim_text t \<noteq> []"
  let ?d = "dropWhile is_space t"
  have last: "\<not> is_space (last (trim_text t))"
    using ne hd_dropWhile [of is_space "rev ?d"] by (simp add: trim_text_def last_rev)
  have "?d \<noteq> []" using ne by (metis dropWhile.simps(1) rev.simps(1) trim_text_def)
  then have d: "\<not> is_space (hd ?d)" using hd_dropWhile [of is_space t] by blast
  have "suffix (dropWhile is_space (rev ?d)) (rev ?d)" by (rule suffix_dropWhile)
  then have "prefix (trim_text t) ?d" by (simp add: trim_text_def suffix_to_prefix)
  then have "hd (trim_text t) = hd ?d" using ne by (auto simp: prefix_def)
  then show ?thesis using last d by simp
qed

lemma sends_trimmed: "(t, OnSend body) \<in> set (composer_run is c) \<Longrightarrow> body \<noteq> [] \<and> \<not> is_space (hd body) \<and> \<not> is_space (last body)"
proof (induction "is" arbitrary: c)
  case (Cons i "is")
  have submit: "body \<noteq> [] \<and> \<not> is_space (hd body) \<and> \<not> is_space (last body)" if "OnSend body \<in> set (snd (composer_submit c))"
    using that trim_nonempty_ends [of "cp_draft c"] by (auto simp: composer_submit_def Let_def split: if_splits)
  have "OnSend body \<in> set (snd (composer_step i c)) \<or> (t, OnSend body) \<in> set (composer_run is (fst (composer_step i c)))"
    using Cons.prems by (cases "composer_step i c") auto
  moreover have "OnSend body \<in> set (snd (composer_step i c)) \<Longrightarrow> OnSend body \<in> set (snd (composer_submit c))"
    by (cases i) (auto simp: handleChange_def handleKeyDown_def Let_def split: if_splits)
  ultimately show ?case using submit Cons.IH by blast
qed simp

text \<open>
  Claim C40. The composer does not flood the peer: however the user types, pastes and submits, two
  typing signals of one composer are more than three seconds apart; and nothing is sent but non-empty
  text without white space at either end.
\<close>

theorem typing_signals_throttled:
  "successively (\<lambda>a b. b - a > TYPING_THROTTLE_MS) (typing_signals (composer_run is c)) \<and>
   list_all (\<lambda>(t, k). case k of OnTyping \<Rightarrow> True | OnSend body \<Rightarrow> body \<noteq> [] \<and> \<not> is_space (hd body) \<and> \<not> is_space (last body))
     (composer_run is c)"
proof
  show "successively (\<lambda>a b. b - a > TYPING_THROTTLE_MS) (typing_signals (composer_run is c))"
    using signals_follow_last [of c "is"] by (cases "typing_signals (composer_run is c)") auto
  show "list_all (\<lambda>(t, k). case k of OnTyping \<Rightarrow> True | OnSend body \<Rightarrow> body \<noteq> [] \<and> \<not> is_space (hd body) \<and> \<not> is_space (last body))
     (composer_run is c)"
    using sends_trimmed unfolding list_all_iff by (auto split: composer_call.split) blast+
qed

text \<open>What the panel can be asked to do: changes of the user, and loads settling in any order.\<close>

datatype panel_input = Toggle | Switch string | LoadSettles nat "string option option"

fun panel_step :: "panel_input \<Rightarrow> SafetyPanel \<Rightarrow> SafetyPanel" where
  "panel_step Toggle p = toggle_open p"
| "panel_step (Switch conv) p = change_conversation conv p"
| "panel_step (LoadSettles n outcome) p = load_settled n outcome p"

definition panel_ok :: "SafetyPanel \<Rightarrow> bool" where
  "panel_ok p \<longleftrightarrow> (\<forall>(n, c)\<in>set (sp_loads p). n < sp_runs p \<and> (sp_effect p = Some n \<longrightarrow> c = sp_conversation p)) \<and>
     (\<forall>n. sp_effect p = Some n \<longrightarrow> n < sp_runs p \<and> sp_open p)"

inductive panel_reach :: "SafetyPanel \<Rightarrow> bool" where
  start: "panel_reach (new_SafetyPanel conv)"
| step: "panel_reach p \<Longrightarrow> panel_reach (panel_step i p)"

lemma panel_ok_run_effect:
  "(\<forall>(n, c)\<in>set (sp_loads p). n < sp_runs p) \<Longrightarrow> panel_ok (run_effect p)"
  by (auto simp: panel_ok_def run_effect_def)

lemma panel_ok_step: "panel_ok p \<Longrightarrow> panel_ok (panel_step i p)"
proof (cases i)
  case (LoadSettles n outcome)
  assume "panel_ok p"
  then show ?thesis using LoadSettles by (auto simp: load_settled_def panel_ok_def Let_def split: option.split)
qed (auto simp: toggle_open_def change_conversation_def panel_ok_def intro!: panel_ok_run_effect [unfolded panel_ok_def])

lemma panel_ok_reach: "panel_reach p \<Longrightarrow> panel_ok p"
  by (induction rule: panel_reach.induct) (simp add: panel_ok_def new_SafetyPanel_def, rule panel_ok_step)

text \<open>
  Claim C39. The safety panel can show the number of another conversation: in every reachable state the
  digits a settling load puts on the panel were loaded for the conversation shown, and loads of
  earlier conversations are ignored; but when the conversation changes while the panel is open, the
  digits of the previous one stay, and the button that marks the new conversation as verified stays
  enabled, until the new load settles, and for good if it is rejected.
\<close>

theorem safety_number_can_be_stale:
  assumes "panel_reach p" "sp_open p" "sp_digits p = Some digits" "digits \<noteq> []" "sp_conversation p \<noteq> c_id c"
  shows "(\<forall>n conv v. (n, conv) \<in> set (sp_loads p) \<longrightarrow> sp_digits (panel_step (LoadSettles n (Some v)) p) \<noteq> Some digits \<longrightarrow>
       conv = sp_conversation p) \<and>
     (\<exists>p' n. panel_step (Switch (c_id c)) p = p' \<and> (n, c_id c) \<in> set (sp_loads p') \<and> sp_digits p' = Some digits \<and>
       verify_click c p' = Some (c_id c, \<not> is_verified c) \<and>
       verify_click c (panel_step (LoadSettles n None) p') = Some (c_id c, \<not> is_verified c))"
proof
  have ok: "panel_ok p" using assms(1) by (rule panel_ok_reach)
  show "\<forall>n conv v. (n, conv) \<in> set (sp_loads p) \<longrightarrow> sp_digits (panel_step (LoadSettles n (Some v)) p) \<noteq> Some digits \<longrightarrow> conv = sp_conversation p"
    using ok assms(3) by (auto simp: load_settled_def Let_def panel_ok_def)
  show "\<exists>p' n. panel_step (Switch (c_id c)) p = p' \<and> (n, c_id c) \<in> set (sp_loads p') \<and> sp_digits p' = Some digits \<and>
       verify_click c p' = Some (c_id c, \<not> is_verified c) \<and>
       verify_click c (panel_step (LoadSettles n None) p') = Some (c_id c, \<not> is_verified c)"
    using assms(2-5) by (auto simp: change_conversation_def run_effect_def verify_click_def load_settled_def Let_def)
qed

text \<open>
  What a group form hands on: a name that is not blank and at least one member, each an account id;
  and when every line that is not blank is an account id, exactly these in their order.
\<close>

lemma normalized_id: "normalizeAccountId raw = Some i \<Longrightarrow> length i = 43"
  by (auto simp: normalizeAccountId_def Let_def split: if_splits)

lemma member_ids_valid: "member_ids ls = Inr ids \<Longrightarrow> list_all (\<lambda>i. length i = 43) ids"
  by (induction ls arbitrary: ids) (auto simp: normalized_id split: if_splits option.splits sum.splits)

lemma member_ids_all:
  "member_ids ls = Inr ids \<longleftrightarrow> map normalizeAccountId (filter (\<lambda>l. trim_text l \<noteq> []) ls) = map Some ids"
  by (induction ls arbitrary: ids) (auto split: option.split sum.split, blast?)

theorem group_form_checked:
  assumes "snd (list_submitGroup f) = Some (OnCreateGroup name ids)"
  shows "name = trim_text (lf_groupName f) \<and> name \<noteq> [] \<and> ids \<noteq> [] \<and> list_all (\<lambda>i. length i = 43) ids \<and>
     map normalizeAccountId (filter (\<lambda>l. trim_text l \<noteq> []) (split_lines [] (lf_groupMembers f))) = map Some ids"
  using assms member_ids_valid member_ids_all
  by (auto simp: list_submitGroup_def split: if_splits sum.splits)

text \<open>A passphrase for a new vault is handed on only when it is long enough and confirmed.\<close>

lemma passphrase_checked:
  "snd (unlock_submit creating f) = Some (OnCreate p) \<longleftrightarrow>
     creating \<and> p = uf_passphrase f \<and> MIN_PASSPHRASE_LENGTH \<le> length p \<and> uf_confirmation f = p"
  by (auto simp: unlock_submit_def Let_def)

text \<open>Nothing decrypted is rendered outside the ready phase, whatever the state holds.\<close>

lemma locked_view: "phase s \<noteq> ReadyPhase \<Longrightarrow> home_view_of s \<in> {Splash, UnlockView (phase s) (us_error s) (recoverable s)}"
  by (cases "phase s") (simp_all add: home_view_of_def)

text \<open>But the previews of the last session survive locking in the page's own state.\<close>

lemma previews_survive_lock: "previews_effect load (ui (lock app)) old = old"
  by (simp add: previews_effect_def lock_simps) (simp add: blank_state_def)

definition demo_conversation :: Conversation where
  "demo_conversation = new_conversation ''bob''"

theorem safety_number_can_be_stale_witness:
  "\<exists>p. sp_conversation p = ''bob'' \<and> sp_digits p = Some ''12345'' \<and> verify_click demo_conversation p = Some (''bob'', True)"
proof -
  let ?p = "panel_step (LoadSettles 0 (Some (Some ''12345''))) (panel_step Toggle (new_SafetyPanel ''alice''))"
  have r: "panel_reach ?p" by (intro panel_reach.intros)
  have p: "sp_open ?p" "sp_digits ?p = Some ''12345''" "sp_conversation ?p \<noteq> c_id demo_conversation"
    by (simp_all add: toggle_open_def run_effect_def new_SafetyPanel_def load_settled_def Let_def demo_conversation_def new_conversation_def)
  have id: "c_id demo_conversation = ''bob''" "\<not> is_verified demo_conversation"
    by (simp_all add: demo_conversation_def new_conversation_def is_verified_def)
  have "sp_conversation (panel_step (Switch ''bob'') ?p) = ''bob''"
    by (simp add: change_conversation_def run_effect_def)
  then show ?thesis using safety_number_can_be_stale [OF r p(1,2) _ p(3)] id by (intro exI [of _ "panel_step (Switch ''bob'') ?p"]) auto
qed

end
