(* ===== verification/Spec2Isabelle.thy ===== *)
theory Spec2Isabelle
  imports Dialogue Serialize Group Attachment Safety Screens
begin

text \<open>
  Verification of the shatters client.

  \<^bold>\<open>The program.\<close> Shatters is an end-to-end encrypted messenger: a TypeScript client
  (\<open>src/web/src\<close>) that talks to a relay server written in Go. The client has four layers. The
  cryptographic core (\<open>lib/crypto\<close>) derives keys, agrees on a secret with X3DH, runs the Double Ratchet and
  encodes what travels. The device layer (\<open>lib/storage\<close>, \<open>lib/store\<close>) keeps everything in a vault sealed
  under a passphrase. The network layer (\<open>lib/transport\<close>) is a REST client and a live socket with catch-up
  and acknowledgement. The engine (\<open>lib/client/chat-client.ts\<close>, with \<open>lib/group\<close>) joins them: it sends,
  receives, stores and reports. On top sit the React hook \<open>hooks/useChat.ts\<close> and the components.

  \<^bold>\<open>Conventions\<close> (theory \<open>Prelude\<close>). Bytes are 8-bit words and a string is its UTF-8 bytes; a text whose
  positions matter is a list of UTF-16 code units (\<open>Search\<close>). A \<open>throw\<close> is the \<open>Inl\<close> of a sum; code that
  mutates and may throw is a function from a state to the state it leaves behind and an outcome
  (\<open>effect\<close>), composed with \<open>sbind\<close>. A JavaScript \<open>Map\<close> is an association list in insertion order. Numbers
  are rationals where the code uses fractions or clocks, naturals where it counts. What is not
  under \<open>src\<close> is a parameter: libsodium (record \<open>sodium\<close>), Argon2id (\<open>pwhash\<close>), \<open>fetch\<close> (\<open>ApiConfig\<close>), key
  generation, clock, ids, Unicode tables, time zone; what the code relies on is a named law such as
  \<open>aead_law\<close> or \<open>dh_law\<close>, and every law is shown to be satisfiable by a concrete instance.

  \<^bold>\<open>Cryptographic core.\<close>
  \<^item> \<open>Base64\<close>, \<open>Kdf\<close>, \<open>Sodium\<close>, \<open>Identity\<close>, \<open>X3DH\<close> model \<open>kdf.ts\<close>, \<open>identity.ts\<close>, \<open>x3dh.ts\<close>: HKDF is RFC 5869, the
    two sides of X3DH agree, and initiation succeeds only on a signed bundle.
  \<^item> \<open>Ratchet\<close> models \<open>ratchet.ts\<close>; \<open>Ratchet_Bounds\<close> shows the bounds of the skipped-key cache in every
    reachable state and \<open>Ratchet_Delivery\<close> that one chain can arrive in any order and that refused
    messages leave no trace.
  \<^item> \<open>Envelope\<close>, \<open>Session\<close>, \<open>Conversation\<close>, \<open>Dialogue\<close> model \<open>envelope.ts\<close> and \<open>session.ts\<close>: the wire format is
    canonical, and after the handshake every interleaving of the two sides delivers everything in order.
  \<^item> \<open>Json\<close>, \<open>Json_Image\<close>, \<open>Serialize\<close>, \<open>Content\<close>, \<open>Attachment\<close>, \<open>Safety\<close> model \<open>JSON\<close>, \<open>serialize.ts\<close>, \<open>content.ts\<close> and
    \<open>safety.ts\<close>: round trips, reassembly in any order, comparable safety numbers.
  \<^item> \<open>Group\<close> models \<open>group/state.ts\<close>: replicas that saw the same changes agree.

  \<^bold>\<open>Device.\<close> \<open>Adapter\<close> (\<open>adapter.ts\<close>) states storage as a locale interpreted by both adapters; \<open>Vault\<close>
  (\<open>vault.ts\<close>) refines a plain map of plaintexts, for which the locale \<open>record_vault\<close> is the interface;
  \<open>Chat_Types\<close>, \<open>Chat_Store\<close>, \<open>Chat_Store_Spec\<close> (\<open>store/types.ts\<close>, \<open>store/chat.ts\<close>) refine plain typed data
  (\<open>chat_model\<close>) over any such vault.

  \<^bold>\<open>Network.\<close> \<open>Api\<close> (\<open>api.ts\<close>) with the contract of a relay; \<open>Transport\<close> (\<open>socket.ts\<close>) as a state machine
  whose inputs are callbacks, timers and the settling of awaited calls: handlings of one id never
  overlap, acknowledgement follows handling, the backlog is drained, reconnection is paced.

  \<^bold>\<open>Engine.\<close> \<open>Client\<close> has every method of \<open>ChatClient\<close>. \<open>Client_Inv\<close> and \<open>Client_Safe\<close> give a triple \<open>safe\<close> with one
  rule per operation; \<open>Client_Spec\<close> derives the invariant of every run under an arbitrary network, and
  what a send and a bad envelope do; \<open>Client_Delivery\<close> and \<open>Client_Contact\<close> join engine, session, relay and
  peer: a text, and a stranger's first message, arrive; \<open>Client_Keys\<close> treats prekeys and key changes;
  \<open>Client_Groups\<close> groups and receipts.

  \<^bold>\<open>Application.\<close> \<open>Search\<close> and \<open>Format\<close> (\<open>search.ts\<close>, \<open>format.ts\<close>, \<open>notify.ts\<close>) are pure functions. \<open>App\<close>
  models \<open>useChat.ts\<close> as a machine of suspended asynchronous functions: a job is the list of what a
  function still has to do, and any job may continue next. \<open>App_Spec\<close> states what every interleaving
  keeps, through the locale \<open>screen_property\<close>, and two races that break what the code intends.
  \<open>Screens\<close> has the state and the handlers of the components.

  \<^bold>\<open>Loops and fuel.\<close> No definition uses fuel. Loops are structural recursion or have a termination
  proof by a measure; \<open>highlight_from\<close> and \<open>id_groups\<close>, which would not end on an empty needle or a group
  size of zero, return an option and are proved to return.

  \<^bold>\<open>Granularity.\<close> An engine method runs to completion before the next one on the same engine starts,
  and its events are handled when it settles; overlapping store writes are treated where the code
  does not serialise them (\<open>overlapping_increments_lose_one\<close>). The transport and the hook are
  interleaved at every \<open>await\<close>. The hook treats the replies to its transport as arbitrary inputs.

  \<^bold>\<open>Not modelled.\<close> The Go server is a separate program: its answers are inputs, arbitrary except where
  a relay that keeps its contract is assumed. libsodium and the browser are parameters. Clearing of
  temporary key buffers is not observable in the model. Markup, layout, the texts of error messages,
  the clipboard and the download of a file are left out, as they carry no state the program
  depends on; so is the choice of the storage adapter by environment.
\<close>

end
